(* ===== verification/Prelude.thy ===== *)
theory Prelude
  imports Main "HOL-Library.Word" "HOL-Library.AList" "HOL-Library.Code_Target_Nat"
begin

text \<open>
  Shared vocabulary of the development.

  \<^item> Results: a Rust \<open>Result<T, E>\<close> is \<open>'e + 'a\<close>, with \<open>Inl\<close> for the error; the
    \<open>?\<close> operator is \<open>res_bind\<close> and a loop \<open>for x in xs { f(x)?; }\<close> is \<open>try_all\<close>.
  \<^item> Strings: a Rust \<open>String\<close> is the list of its UTF-8 bytes (an Isabelle \<open>char\<close>
    is a byte). The functions of the standard library that the code calls (\<open>split\<close>,
    \<open>split_once\<close>, \<open>trim\<close>, \<open>split_whitespace\<close>, \<open>parse\<close>, \<open>to_string\<close>) are defined here.
  \<^item> Hash maps: a \<open>HashMap\<close> is the association list of its entries in iteration order,
    which is unspecified; keys are distinct. \<open>AList.update\<close> and \<open>AList.delete\<close> are
    insertion and removal, \<open>map_of\<close> is lookup, \<open>filter\<close> is \<open>retain\<close>.
  \<^item> State machines: the locale \<open>machine\<close> holds the facts every component with a step
    function and an invariant shares.
\<close>

named_theorems res_simps \<open>unfolding rules for the result type\<close>
named_theorems str_simps \<open>facts on the string functions\<close>

section \<open>Results\<close>

definition res_bind :: "'e + 'a \<Rightarrow> ('a \<Rightarrow> 'e + 'b) \<Rightarrow> 'e + 'b" where
  "res_bind r f = (case r of Inl e \<Rightarrow> Inl e | Inr x \<Rightarrow> f x)"

lemma res_bind_Inl [simp]: "res_bind (Inl e) f = Inl e"
  by (simp add: res_bind_def)

lemma res_bind_Inr [simp]: "res_bind (Inr x) f = f x"
  by (simp add: res_bind_def)

lemma res_bind_eq_Inr [res_simps]:
  "res_bind r f = Inr y \<longleftrightarrow> (\<exists>x. r = Inr x \<and> f x = Inr y)"
  by (cases r) auto

lemma res_bind_eq_Inl [res_simps]:
  "res_bind r f = Inl e \<longleftrightarrow> r = Inl e \<or> (\<exists>x. r = Inr x \<and> f x = Inl e)"
  by (cases r) auto

definition guard :: "bool \<Rightarrow> 'e \<Rightarrow> 'e + unit" where
  "guard b e = (if b then Inr () else Inl e)"

lemma guard_eq_Inr [res_simps]: "guard b e = Inr u \<longleftrightarrow> b"
  by (simp add: guard_def)

lemma guard_eq_Inl [res_simps]: "guard b e = Inl e' \<longleftrightarrow> \<not> b \<and> e = e'"
  by (auto simp: guard_def)

lemma guard_simps [simp]: "guard True e = Inr ()" "guard False e = Inl e"
  by (simp_all add: guard_def)

fun try_all :: "('a \<Rightarrow> 'e + unit) \<Rightarrow> 'a list \<Rightarrow> 'e + unit" where
  "try_all f [] = Inr ()"
| "try_all f (x # xs) = res_bind (f x) (\<lambda>_. try_all f xs)"

lemma try_all_eq_Inr [res_simps]:
  "try_all f xs = Inr u \<longleftrightarrow> (\<forall>x\<in>set xs. f x = Inr ())"
  by (induction xs) (auto simp: res_simps)

lemma try_all_eq_Inl:
  "try_all f xs = Inl e \<Longrightarrow> \<exists>x\<in>set xs. f x = Inl e"
  by (induction xs) (auto simp: res_simps)

definition is_ok :: "'e + 'a \<Rightarrow> bool" where
  "is_ok r = (case r of Inl _ \<Rightarrow> False | Inr _ \<Rightarrow> True)"

lemma is_ok_simps [simp]: "is_ok (Inr x)" "\<not> is_ok (Inl e)"
  by (simp_all add: is_ok_def)

lemma is_ok_iff: "is_ok r \<longleftrightarrow> (\<exists>x. r = Inr x)"
  by (cases r) auto

section \<open>Lists\<close>

text \<open>\<open>iter_mut().find(p)\<close> followed by an update of what it found.\<close>

fun update_first :: "('a \<Rightarrow> bool) \<Rightarrow> ('a \<Rightarrow> 'a) \<Rightarrow> 'a list \<Rightarrow> 'a list" where
  "update_first p f [] = []"
| "update_first p f (x # xs) = (if p x then f x # xs else x # update_first p f xs)"

lemma set_update_first: "set (update_first p f xs) \<subseteq> set xs \<union> f ` {x \<in> set xs. p x}"
  by (induction xs) auto

lemma update_first_none [simp]: "find p xs = None \<Longrightarrow> update_first p f xs = xs"
  by (induction xs) (auto split: if_splits)

lemma map_update_first [simp]: "(\<And>x. p x \<Longrightarrow> g (f x) = g x) \<Longrightarrow> map g (update_first p f xs) = map g xs"
  by (induction xs) auto

lemma length_update_first [simp]: "length (update_first p f xs) = length xs"
  by (induction xs) auto

lemma find_set: "find p xs = Some x \<Longrightarrow> x \<in> set xs \<and> p x"
  by (induction xs) (auto split: if_splits)

text \<open>With unique keys the first element with a key is the only one.\<close>

lemma update_first_distinct:
  "distinct (map g xs) \<Longrightarrow>
     update_first (\<lambda>x. g x = k) f xs = map (\<lambda>x. if g x = k then f x else x) xs"
proof (induction xs)
  case (Cons x xs)
  then show ?case by (cases "g x = k") (auto simp: image_iff intro!: map_idI [symmetric])
qed simp

text \<open>\<open>Vec::dedup_by\<close>: of a run of equal neighbours the first stays.\<close>

fun dedup_run :: "('a \<Rightarrow> 'a \<Rightarrow> bool) \<Rightarrow> 'a \<Rightarrow> 'a list \<Rightarrow> 'a list" where
  "dedup_run same a [] = [a]"
| "dedup_run same a (b # xs) = (if same b a then dedup_run same a xs else a # dedup_run same b xs)"

definition dedup_by :: "('a \<Rightarrow> 'a \<Rightarrow> bool) \<Rightarrow> 'a list \<Rightarrow> 'a list" where
  "dedup_by same xs = (case xs of [] \<Rightarrow> [] | x # ys \<Rightarrow> dedup_run same x ys)"

section \<open>Files\<close>

text \<open>A file holding JSON: not there, not readable as the expected type, or the value it holds.\<close>

datatype 'a json_file = Absent | Garbage | Parsed 'a

section \<open>Strings\<close>

definition byte :: "char \<Rightarrow> nat" where
  "byte c = of_char c"

definition is_ascii_digit :: "char \<Rightarrow> bool" where
  "is_ascii_digit c \<longleftrightarrow> 48 \<le> byte c \<and> byte c \<le> 57"

definition is_ascii_alphabetic :: "char \<Rightarrow> bool" where
  "is_ascii_alphabetic c \<longleftrightarrow> (65 \<le> byte c \<and> byte c \<le> 90) \<or> (97 \<le> byte c \<and> byte c \<le> 122)"

definition is_ascii_alphanumeric :: "char \<Rightarrow> bool" where
  "is_ascii_alphanumeric c \<longleftrightarrow> is_ascii_digit c \<or> is_ascii_alphabetic c"

definition digit_val :: "nat \<Rightarrow> char \<Rightarrow> nat option" where
  "digit_val radix c =
     (let b = byte c;
          v = (if 48 \<le> b \<and> b \<le> 57 then b - 48
               else if 97 \<le> b \<and> b \<le> 122 then b - 87
               else if 65 \<le> b \<and> b \<le> 90 then b - 55
               else 36)
      in if v < radix then Some v else None)"

definition is_ascii_hexdigit :: "char \<Rightarrow> bool" where
  "is_ascii_hexdigit c \<longleftrightarrow> digit_val 16 c \<noteq> None"

text \<open>\<open>str::split\<close> on a character: always at least one piece.\<close>

fun split_char :: "char \<Rightarrow> string \<Rightarrow> string list" where
  "split_char c [] = [[]]"
| "split_char c (x # xs) =
     (if x = c then [] # split_char c xs
      else case split_char c xs of [] \<Rightarrow> [[x]] | y # ys \<Rightarrow> (x # y) # ys)"

definition split_once :: "char \<Rightarrow> string \<Rightarrow> (string \<times> string) option" where
  "split_once c s =
     (if c \<in> set s then Some (takeWhile (\<lambda>x. x \<noteq> c) s, tl (dropWhile (\<lambda>x. x \<noteq> c) s)) else None)"

definition rsplit_once :: "char \<Rightarrow> string \<Rightarrow> (string \<times> string) option" where
  "rsplit_once c s = map_option (\<lambda>(a, b). (rev b, rev a)) (split_once c (rev s))"

fun join :: "string \<Rightarrow> string list \<Rightarrow> string" where
  "join sep [] = []"
| "join sep [x] = x"
| "join sep (x # y # ys) = x @ sep @ join sep (y # ys)"

lemma split_char_nonempty [simp]: "split_char c s \<noteq> []"
  by (cases s) (auto split: list.splits)

lemma split_char_no_sep: "p \<in> set (split_char c s) \<Longrightarrow> c \<notin> set p"
  by (induction s arbitrary: p) (fastforce split: if_splits list.splits)+

lemma set_join_subset: "set (join sep xs) \<subseteq> set sep \<union> \<Union> (set ` set xs)"
  by (induction sep xs rule: join.induct) auto

lemma join_split_char [str_simps]: "join [c] (split_char c s) = s"
proof (induction s)
  case Nil
  then show ?case by simp
next
  case (Cons x s)
  obtain y ys where ys: "split_char c s = y # ys"
    by (cases "split_char c s") auto
  with Cons show ?case by (cases ys) auto
qed

lemma split_once_Some [str_simps]:
  "split_once c s = Some (a, b) \<Longrightarrow> s = a @ c # b \<and> c \<notin> set a"
proof -
  assume a: "split_once c s = Some (a, b)"
  then have c: "c \<in> set s" and ab: "a = takeWhile (\<lambda>x. x \<noteq> c) s" "b = tl (dropWhile (\<lambda>x. x \<noteq> c) s)"
    by (auto simp: split_once_def split: if_splits)
  from c have d: "dropWhile (\<lambda>x. x \<noteq> c) s \<noteq> []" by (auto simp: dropWhile_eq_Nil_conv)
  then have "hd (dropWhile (\<lambda>x. x \<noteq> c) s) = c"
    using hd_dropWhile by blast
  with d have "dropWhile (\<lambda>x. x \<noteq> c) s = c # b"
    using ab(2) by (cases "dropWhile (\<lambda>x. x \<noteq> c) s") auto
  then have "s = a @ c # b"
    by (metis ab(1) takeWhile_dropWhile_id)
  moreover have "c \<notin> set a"
    unfolding ab(1) using set_takeWhileD by fastforce
  ultimately show ?thesis by simp
qed

lemma split_once_append [str_simps]:
  "c \<notin> set a \<Longrightarrow> split_once c (a @ c # b) = Some (a, b)"
  unfolding split_once_def
  by (subst takeWhile_append2, fastforce, subst dropWhile_append2, fastforce, simp)

lemma rsplit_once_append [str_simps]:
  "c \<notin> set b \<Longrightarrow> rsplit_once c (a @ c # b) = Some (a, b)"
  by (simp add: rsplit_once_def split_once_append)

text \<open>
  \<open>str::parse\<close> for an unsigned integer with largest value \<open>mx\<close>: an optional leading
  plus sign, at least one decimal digit, nothing else, no overflow.
\<close>

fun digits_value :: "nat \<Rightarrow> string \<Rightarrow> nat" where
  "digits_value acc [] = acc"
| "digits_value acc (c # cs) = digits_value (acc * 10 + (byte c - 48)) cs"

definition parse_uint :: "nat \<Rightarrow> string \<Rightarrow> nat option" where
  "parse_uint mx s =
     (let ds = (case s of [] \<Rightarrow> [] | c # cs \<Rightarrow> if c = CHR ''+'' then cs else s)
      in if ds = [] \<or> \<not> list_all is_ascii_digit ds then None
         else let v = digits_value 0 ds in if v \<le> mx then Some v else None)"

definition digit_char :: "nat \<Rightarrow> char" where
  "digit_char n = char_of (48 + n)"

text \<open>\<open>to_string\<close> of an unsigned integer: decimal digits, no leading zeros.\<close>

fun show_nat :: "nat \<Rightarrow> string" where
  "show_nat n = (if n < 10 then [digit_char n] else show_nat (n div 10) @ [digit_char (n mod 10)])"

declare show_nat.simps [simp del]

lemma byte_digit_char [simp]: "n < 10 \<Longrightarrow> byte (digit_char n) = 48 + n"
  by (simp add: byte_def digit_char_def)

lemma is_ascii_digit_digit_char [simp]: "n < 10 \<Longrightarrow> is_ascii_digit (digit_char n)"
  by (simp add: is_ascii_digit_def)

lemma digits_value_append:
  "digits_value acc (xs @ ys) = digits_value (digits_value acc xs) ys"
  by (induction xs arbitrary: acc) auto

lemma show_nat_nonempty [simp]: "show_nat n \<noteq> []"
  by (subst show_nat.simps) simp

lemma show_nat_digits: "list_all is_ascii_digit (show_nat n)"
proof (induction n rule: show_nat.induct)
  case (1 n)
  then show ?case by (subst show_nat.simps) simp
qed

lemma digits_value_show_nat: "digits_value 0 (show_nat n) = n"
proof (induction n rule: show_nat.induct)
  case (1 n)
  show ?case
  proof (cases "n < 10")
    case True
    then show ?thesis by (subst show_nat.simps) simp
  next
    case False
    with 1 show ?thesis
      by (subst show_nat.simps) (simp add: digits_value_append)
  qed
qed

lemma parse_uint_show_nat [str_simps]: "n \<le> mx \<Longrightarrow> parse_uint mx (show_nat n) = Some n"
proof -
  assume n: "n \<le> mx"
  have d: "list_all is_ascii_digit (show_nat n)" by (rule show_nat_digits)
  obtain c cs where s: "show_nat n = c # cs" by (cases "show_nat n") auto
  with d have "is_ascii_digit c" by simp
  then have "c \<noteq> CHR ''+''" by (auto simp: is_ascii_digit_def byte_def)
  with s d n digits_value_show_nat [of n] show ?thesis
    by (simp add: parse_uint_def)
qed

lemma show_nat_inj [simp]: "show_nat m = show_nat n \<longleftrightarrow> m = n"
  by (metis digits_value_show_nat)

lemma parse_uint_le: "parse_uint mx s = Some v \<Longrightarrow> v \<le> mx"
  by (auto simp: parse_uint_def Let_def split: if_splits)

lemma parse_uint_chars:
  "parse_uint mx s = Some v \<Longrightarrow> c \<in> set s \<Longrightarrow> is_ascii_digit c \<or> c = CHR ''+''"
  by (cases s) (auto simp: parse_uint_def Let_def list_all_iff split: if_splits)

definition hex_digit_char :: "nat \<Rightarrow> char" where
  "hex_digit_char d = char_of (if d < 10 then 48 + d else 87 + d)"

fun show_hex :: "nat \<Rightarrow> string" where
  "show_hex n = (if n < 16 then [hex_digit_char n] else show_hex (n div 16) @ [hex_digit_char (n mod 16)])"

declare show_hex.simps [simp del]

text \<open>
  White space (the Unicode property \<open>White_Space\<close>) in UTF-8: \<open>ws_len s\<close> is the number of
  bytes of the white-space character at the front of \<open>s\<close>, 0 when there is none, and
  \<open>ws_len_rev\<close> is the same on reversed bytes.
\<close>

definition ws1 :: "char \<Rightarrow> bool" where
  "ws1 a \<longleftrightarrow> (9 \<le> byte a \<and> byte a \<le> 13) \<or> byte a = 32"

definition ws2 :: "char \<Rightarrow> char \<Rightarrow> bool" where
  "ws2 a b \<longleftrightarrow> byte a = 0xC2 \<and> (byte b = 0x85 \<or> byte b = 0xA0)"

definition ws3 :: "char \<Rightarrow> char \<Rightarrow> char \<Rightarrow> bool" where
  "ws3 a b c \<longleftrightarrow>
     (byte a = 0xE1 \<and> byte b = 0x9A \<and> byte c = 0x80) \<or>
     (byte a = 0xE2 \<and> byte b = 0x80 \<and>
        ((0x80 \<le> byte c \<and> byte c \<le> 0x8A) \<or> byte c = 0xA8 \<or> byte c = 0xA9 \<or> byte c = 0xAF)) \<or>
     (byte a = 0xE2 \<and> byte b = 0x81 \<and> byte c = 0x9F) \<or>
     (byte a = 0xE3 \<and> byte b = 0x80 \<and> byte c = 0x80)"

fun ws_len :: "string \<Rightarrow> nat" where
  "ws_len (a # b # c # _) = (if ws1 a then 1 else if ws2 a b then 2 else if ws3 a b c then 3 else 0)"
| "ws_len [a, b] = (if ws1 a then 1 else if ws2 a b then 2 else 0)"
| "ws_len [a] = (if ws1 a then 1 else 0)"
| "ws_len [] = 0"

fun ws_len_rev :: "string \<Rightarrow> nat" where
  "ws_len_rev (c # b # a # _) = (if ws1 c then 1 else if ws2 b c then 2 else if ws3 a b c then 3 else 0)"
| "ws_len_rev [b, a] = (if ws1 b then 1 else if ws2 a b then 2 else 0)"
| "ws_len_rev [a] = (if ws1 a then 1 else 0)"
| "ws_len_rev [] = 0"

lemma ws_len_pos: "0 < ws_len s \<Longrightarrow> s \<noteq> []"
  by (cases s) auto

lemma ws_len_rev_pos: "0 < ws_len_rev s \<Longrightarrow> s \<noteq> []"
  by (cases s) auto

function trim_start :: "string \<Rightarrow> string" where
  "trim_start s = (if ws_len s = 0 then s else trim_start (drop (ws_len s) s))"
  by pat_completeness auto
termination
  by (relation "measure length") (use ws_len_pos in force)+

function trim_start_rev :: "string \<Rightarrow> string" where
  "trim_start_rev s = (if ws_len_rev s = 0 then s else trim_start_rev (drop (ws_len_rev s) s))"
  by pat_completeness auto
termination
  by (relation "measure length") (use ws_len_rev_pos in force)+

declare trim_start.simps [simp del] trim_start_rev.simps [simp del]

definition trim :: "string \<Rightarrow> string" where
  "trim s = rev (trim_start_rev (rev (trim_start s)))"

lemma trim_start_idem: "ws_len (trim_start s) = 0"
proof (induction s rule: trim_start.induct)
  case (1 s)
  then show ?case by (subst trim_start.simps) auto
qed

lemma trim_start_suffix: "\<exists>p. s = p @ trim_start s"
proof (induction s rule: trim_start.induct)
  case (1 s)
  show ?case
  proof (cases "ws_len s = 0")
    case True
    then show ?thesis by (subst trim_start.simps) simp
  next
    case False
    define t where "t = trim_start (drop (ws_len s) s)"
    from False 1 obtain p where p: "drop (ws_len s) s = p @ t"
      unfolding t_def by blast
    have "s = take (ws_len s) s @ drop (ws_len s) s" by simp
    then have "s = (take (ws_len s) s @ p) @ t" unfolding p by simp
    moreover have "trim_start s = t"
      using False unfolding t_def by (subst trim_start.simps) simp
    ultimately show ?thesis by metis
  qed
qed

lemma trim_start_rev_suffix: "\<exists>p. s = p @ trim_start_rev s"
proof (induction s rule: trim_start_rev.induct)
  case (1 s)
  show ?case
  proof (cases "ws_len_rev s = 0")
    case True
    then show ?thesis by (subst trim_start_rev.simps) simp
  next
    case False
    define t where "t = trim_start_rev (drop (ws_len_rev s) s)"
    from False 1 obtain p where p: "drop (ws_len_rev s) s = p @ t"
      unfolding t_def by blast
    have "s = take (ws_len_rev s) s @ drop (ws_len_rev s) s" by simp
    then have "s = (take (ws_len_rev s) s @ p) @ t" unfolding p by simp
    moreover have "trim_start_rev s = t"
      using False unfolding t_def by (subst trim_start_rev.simps) simp
    ultimately show ?thesis by metis
  qed
qed

lemma trim_sublist: "\<exists>p q. s = p @ trim s @ q"
proof -
  obtain p where p: "s = p @ trim_start s" using trim_start_suffix by blast
  obtain q where "rev (trim_start s) = q @ trim_start_rev (rev (trim_start s))"
    using trim_start_rev_suffix by blast
  then have "trim_start s = trim s @ rev q"
    by (metis rev_append rev_rev_ident trim_def)
  with p show ?thesis by metis
qed

lemma set_trim: "set (trim s) \<subseteq> set s"
  using trim_sublist [of s] by (metis Un_upper1 Un_upper2 set_append subset_trans)

text \<open>\<open>str::split_whitespace\<close>: the non-empty runs between white-space characters.\<close>

function split_ws :: "string \<Rightarrow> string \<Rightarrow> string list" where
  "split_ws acc [] = (if acc = [] then [] else [rev acc])"
| "split_ws acc (c # cs) =
     (if ws_len (c # cs) = 0 then split_ws (c # acc) cs
      else (if acc = [] then [] else [rev acc]) @ split_ws [] (drop (ws_len (c # cs)) (c # cs)))"
  by pat_completeness auto
termination
  by (relation "measure (\<lambda>(acc, s). length s)") auto

declare split_ws.simps(2) [simp del]

definition split_whitespace :: "string \<Rightarrow> string list" where
  "split_whitespace s = split_ws [] s"

lemma split_ws_nonempty: "\<forall>p \<in> set (split_ws acc s). p \<noteq> []"
proof (induction acc s rule: split_ws.induct)
  case (1 acc)
  show ?case by simp
next
  case (2 acc c cs)
  show ?case
  proof (cases "ws_len (c # cs) = 0")
    case True
    with "2.IH"(1) show ?thesis by (simp add: split_ws.simps(2))
  next
    case False
    with "2.IH"(2) show ?thesis by (simp add: split_ws.simps(2) del: drop.simps)
  qed
qed

text \<open>Unicode control characters (category Cc) in UTF-8.\<close>

fun has_control :: "string \<Rightarrow> bool" where
  "has_control (a # b # s) =
     (byte a < 32 \<or> byte a = 127 \<or> (byte a = 0xC2 \<and> 0x80 \<le> byte b \<and> byte b \<le> 0x9F) \<or>
      has_control (b # s))"
| "has_control [a] = (byte a < 32 \<or> byte a = 127)"
| "has_control [] = False"

lemma has_control_byte: "\<not> has_control s \<Longrightarrow> c \<in> set s \<Longrightarrow> 32 \<le> byte c"
  by (induction s rule: has_control.induct) auto

section \<open>Effects\<close>

text \<open>
  Code that talks to the outside (the kernel, files, daemons) is a state transformer with an
  error result: it takes the world and returns the result and the world it leaves. Which
  external call fails is not determined by the program, so the world of a component carries
  the number of calls made so far and the model takes an oracle that says, for each call,
  whether it fails and with what message.
\<close>

type_synonym ('w, 'e, 'a) io = "'w \<Rightarrow> ('e + 'a) \<times> 'w"
type_synonym outcomes = "nat \<Rightarrow> string option"

definition io_return :: "'a \<Rightarrow> ('w, 'e, 'a) io" where
  "io_return x w = (Inr x, w)"

definition io_fail :: "'e \<Rightarrow> ('w, 'e, 'a) io" where
  "io_fail e w = (Inl e, w)"

definition io_bind :: "('w, 'e, 'a) io \<Rightarrow> ('a \<Rightarrow> ('w, 'e, 'b) io) \<Rightarrow> ('w, 'e, 'b) io" where
  "io_bind m f w = (case m w of (Inl e, w') \<Rightarrow> (Inl e, w') | (Inr x, w') \<Rightarrow> f x w')"

text \<open>A computation whose error is handled, as in \<open>if let Err(e) = ...\<close> or \<open>match\<close>.\<close>

definition io_case :: "('w, 'e, 'a) io \<Rightarrow> ('e \<Rightarrow> ('w, 'f, 'b) io) \<Rightarrow> ('a \<Rightarrow> ('w, 'f, 'b) io) \<Rightarrow> ('w, 'f, 'b) io" where
  "io_case m h f w = (case m w of (Inl e, w') \<Rightarrow> h e w' | (Inr x, w') \<Rightarrow> f x w')"

definition io_lift :: "'e + 'a \<Rightarrow> ('w, 'e, 'a) io" where
  "io_lift r w = (r, w)"

definition io_get :: "('w \<Rightarrow> 'a) \<Rightarrow> ('w, 'e, 'a) io" where
  "io_get f w = (Inr (f w), w)"

definition io_modify :: "('w \<Rightarrow> 'w) \<Rightarrow> ('w, 'e, unit) io" where
  "io_modify f w = (Inr (), f w)"

named_theorems io_simps \<open>evaluation rules for effectful code\<close>

lemmas io_defs [io_simps] =
  io_return_def io_fail_def io_bind_def io_case_def io_lift_def io_get_def io_modify_def

lemma io_bind_assoc: "io_bind (io_bind m f) g = io_bind m (\<lambda>x. io_bind (f x) g)"
  by (rule ext) (simp add: io_defs split: prod.split sum.split)

text \<open>A computation on a part of a larger world, with its errors translated.\<close>

definition zoom :: "('w \<Rightarrow> 'v) \<Rightarrow> ('v \<Rightarrow> 'w \<Rightarrow> 'w) \<Rightarrow> ('e \<Rightarrow> 'f) \<Rightarrow> ('v, 'e, 'a) io \<Rightarrow> ('w, 'f, 'a) io" where
  "zoom get put err m w = (case m (get w) of (r, v) \<Rightarrow> (map_sum err id r, put v w))"

text \<open>\<open>let _ = ...\<close> and every \<open>warn!\<close>-and-continue: a failure is dropped.\<close>

definition best_effort :: "('w, 'e, 'a) io \<Rightarrow> ('w, 'f, unit) io" where
  "best_effort m = io_case m (\<lambda>_. io_return ()) (\<lambda>_. io_return ())"

text \<open>A \<open>for\<close> loop whose body may return early with an error and updates a loop state.\<close>

fun io_fold :: "('x \<Rightarrow> 's \<Rightarrow> ('w, 'e, 's) io) \<Rightarrow> 'x list \<Rightarrow> 's \<Rightarrow> ('w, 'e, 's) io" where
  "io_fold f [] s = io_return s"
| "io_fold f (x # xs) s = io_bind (f x s) (io_fold f xs)"

text \<open>
  Hoare triples with one postcondition for the result and one for the error, so that what a
  failing branch leaves behind is part of the contract.
\<close>

definition triple ::
  "('w \<Rightarrow> bool) \<Rightarrow> ('w, 'e, 'a) io \<Rightarrow> ('a \<Rightarrow> 'w \<Rightarrow> bool) \<Rightarrow> ('e \<Rightarrow> 'w \<Rightarrow> bool) \<Rightarrow> bool" where
  "triple P m Q R \<longleftrightarrow>
     (\<forall>w. P w \<longrightarrow> (case fst (m w) of Inr x \<Rightarrow> Q x (snd (m w)) | Inl e \<Rightarrow> R e (snd (m w))))"

named_theorems io_rules \<open>introduction rules for triples\<close>

lemma triple_return: "(\<And>w. P w \<Longrightarrow> Q x w) \<Longrightarrow> triple P (io_return x) Q R"
  by (simp add: triple_def io_defs)

lemma triple_fail: "(\<And>w. P w \<Longrightarrow> R e w) \<Longrightarrow> triple P (io_fail e) Q R"
  by (simp add: triple_def io_defs)

lemma triple_get: "(\<And>w. P w \<Longrightarrow> Q (f w) w) \<Longrightarrow> triple P (io_get f) Q R"
  by (simp add: triple_def io_defs)

lemma triple_modify: "(\<And>w. P w \<Longrightarrow> Q () (f w)) \<Longrightarrow> triple P (io_modify f) Q R"
  by (simp add: triple_def io_defs)

lemma triple_lift:
  "(\<And>w x. P w \<Longrightarrow> r = Inr x \<Longrightarrow> Q x w) \<Longrightarrow> (\<And>w e. P w \<Longrightarrow> r = Inl e \<Longrightarrow> R e w) \<Longrightarrow>
     triple P (io_lift r) Q R"
  by (cases r) (simp_all add: triple_def io_defs)

lemma triple_bind:
  assumes "triple P m Q R" "\<And>x. triple (Q x) (f x) Q' R"
  shows "triple P (io_bind m f) Q' R"
  using assms by (fastforce simp: triple_def io_defs split: prod.splits sum.splits)

lemma triple_case:
  assumes "triple P m Q R" "\<And>e. triple (R e) (h e) Q' R'" "\<And>x. triple (Q x) (f x) Q' R'"
  shows "triple P (io_case m h f) Q' R'"
  using assms by (fastforce simp: triple_def io_defs split: prod.splits sum.splits)

lemma triple_fold:
  assumes "\<And>x s. x \<in> set xs \<Longrightarrow> triple (I s) (f x s) I R"
  shows "triple (I s) (io_fold f xs s) I R"
  using assms
proof (induction xs arbitrary: s)
  case (Cons x xs)
  then have "triple (I s') (io_fold f xs s') I R" for s' by auto
  then show ?case using Cons.prems by (auto intro!: triple_bind)
qed (simp add: triple_return)

lemma triple_conseq:
  assumes "triple P m Q R" "\<And>w. P' w \<Longrightarrow> P w" "\<And>x w. Q x w \<Longrightarrow> Q' x w" "\<And>e w. R e w \<Longrightarrow> R' e w"
  shows "triple P' m Q' R'"
  using assms by (fastforce simp: triple_def split: sum.splits)

lemma tripleD:
  "triple P m Q R \<Longrightarrow> P w \<Longrightarrow> m w = (Inr x, w') \<Longrightarrow> Q x w'"
  "triple P m Q R \<Longrightarrow> P w \<Longrightarrow> m w = (Inl e, w') \<Longrightarrow> R e w'"
  by (force simp: triple_def)+

text \<open>A computation keeps a predicate of the world when every outcome does.\<close>

definition keeps :: "('w \<Rightarrow> bool) \<Rightarrow> ('w, 'e, 'a) io \<Rightarrow> bool" where
  "keeps P m \<longleftrightarrow> (\<forall>w. P w \<longrightarrow> P (snd (m w)))"

lemma keepsD: "keeps P m \<Longrightarrow> P w \<Longrightarrow> m w = (r, w') \<Longrightarrow> P w'"
  by (force simp: keeps_def)

lemma keeps_basic [io_rules]:
  "keeps P (io_return x)" "keeps P (io_fail e)" "keeps P (io_get f)" "keeps P (io_lift r)"
  by (simp_all add: keeps_def io_defs)

lemma keeps_bind [io_rules]: "keeps P m \<Longrightarrow> (\<And>x. keeps P (f x)) \<Longrightarrow> keeps P (io_bind m f)"
  by (fastforce simp: keeps_def io_defs split: prod.splits sum.splits)

lemma keeps_case [io_rules]:
  "keeps P m \<Longrightarrow> (\<And>e. keeps P (h e)) \<Longrightarrow> (\<And>x. keeps P (f x)) \<Longrightarrow> keeps P (io_case m h f)"
  by (fastforce simp: keeps_def io_defs split: prod.splits sum.splits)

lemma keeps_fold: "(\<And>x s. x \<in> set xs \<Longrightarrow> keeps P (f x s)) \<Longrightarrow> keeps P (io_fold f xs s)"
  by (induction xs arbitrary: s) (auto intro!: keeps_basic keeps_bind)

lemma keeps_if [io_rules]: "(b \<Longrightarrow> keeps P m) \<Longrightarrow> (\<not> b \<Longrightarrow> keeps P n) \<Longrightarrow> keeps P (if b then m else n)"
  by simp

lemma keeps_option [io_rules]:
  "(o' = None \<Longrightarrow> keeps P m) \<Longrightarrow> (\<And>x. o' = Some x \<Longrightarrow> keeps P (f x)) \<Longrightarrow>
     keeps P (case o' of None \<Rightarrow> m | Some x \<Rightarrow> f x)"
  by (cases o') auto

lemma triple_keeps: "keeps P m \<Longrightarrow> triple P m (\<lambda>_. P) (\<lambda>_. P)"
  by (auto simp: keeps_def triple_def split: sum.split)

lemma triple_if: "(b \<Longrightarrow> triple P m Q R) \<Longrightarrow> (\<not> b \<Longrightarrow> triple P n Q R) \<Longrightarrow> triple P (if b then m else n) Q R"
  by simp

lemma triple_bind_keeps:
  "keeps P m \<Longrightarrow> (\<And>e w. P w \<Longrightarrow> R e w) \<Longrightarrow> (\<And>x. triple P (f x) Q R) \<Longrightarrow> triple P (io_bind m f) Q R"
  by (rule triple_bind [OF triple_conseq [OF triple_keeps]])

lemma io_bind_lift [simp]: "io_bind (io_lift (Inr x)) f = f x" "io_bind (io_lift (Inl e)) f = io_fail e"
  by (rule ext, simp add: io_defs)+

lemma triple_bind_lift:
  "(\<And>x. r = Inr x \<Longrightarrow> triple P (f x) Q R) \<Longrightarrow> (\<And>e w. P w \<Longrightarrow> R e w) \<Longrightarrow> triple P (io_bind (io_lift r) f) Q R"
  by (cases r) (auto intro: triple_fail)

lemma keeps_best_effort [io_rules]: "keeps P m \<Longrightarrow> keeps P (best_effort m)"
  unfolding best_effort_def by (intro keeps_case keeps_basic)

lemma triple_err: "triple P m Q R \<Longrightarrow> (\<And>e w. R e w \<Longrightarrow> R' e w) \<Longrightarrow> triple P m Q R'"
  by (rule triple_conseq)

text \<open>A precondition with a part that does not depend on the world.\<close>

lemma triple_assume: "(b \<Longrightarrow> triple P m Q R) \<Longrightarrow> triple (\<lambda>w. P w \<and> b) m Q R"
  by (cases b) (simp_all add: triple_def)

text \<open>Computations that cannot end in an error.\<close>

definition infallible :: "('w, 'e, 'a) io \<Rightarrow> bool" where
  "infallible m \<longleftrightarrow> (\<forall>w. is_ok (fst (m w)))"

named_theorems total_rules \<open>introduction rules for computations without errors\<close>

lemma infallible_basic [total_rules]:
  "infallible (io_return x)" "infallible (io_get f)" "infallible (io_modify g)" "infallible (best_effort m)"
  by (simp_all add: infallible_def best_effort_def io_defs split: prod.split sum.split)

lemma infallible_bind [total_rules]: "infallible m \<Longrightarrow> (\<And>x. infallible (f x)) \<Longrightarrow> infallible (io_bind m f)"
  unfolding infallible_def io_bind_def
  by (auto split: prod.split sum.split) (metis fst_conv is_ok_simps(2))

lemma infallible_case [total_rules]: "(\<And>e. infallible (h e)) \<Longrightarrow> (\<And>x. infallible (f x)) \<Longrightarrow> infallible (io_case m h f)"
  by (simp add: infallible_def io_defs split: prod.split sum.split)

lemma infallible_if [total_rules]: "infallible m \<Longrightarrow> infallible n \<Longrightarrow> infallible (if b then m else n)"
  by simp

lemma infallible_fold: "(\<And>x s. infallible (f x s)) \<Longrightarrow> infallible (io_fold f xs s)"
  by (induction xs arbitrary: s) (auto intro: total_rules)

lemma triple_total: "infallible m \<Longrightarrow> keeps P m \<Longrightarrow> triple P m (\<lambda>_. P) R"
  unfolding infallible_def keeps_def triple_def by (auto split: sum.split) (metis is_ok_simps(2))

section \<open>State machines\<close>

text \<open>
  A component whose operations are a step function over its state, and an invariant every
  step keeps. The locale gives the run over a sequence of operations: interleavings of
  callers that hold the component's lock are such sequences.
\<close>

fun run_steps :: "('s \<Rightarrow> 'e \<Rightarrow> 's) \<Rightarrow> 's \<Rightarrow> 'e list \<Rightarrow> 's" where
  "run_steps step s [] = s"
| "run_steps step s (e # es) = run_steps step (step s e) es"

locale machine =
  fixes step :: "'s \<Rightarrow> 'e \<Rightarrow> 's" and inv :: "'s \<Rightarrow> bool"
  assumes step_inv: "inv s \<Longrightarrow> inv (step s e)"
begin

lemma run_inv: "inv s \<Longrightarrow> inv (run_steps step s es)"
  by (induction es arbitrary: s) (auto intro: step_inv)

lemma run_append: "run_steps step s (es @ fs) = run_steps step (run_steps step s es) fs"
  by (induction es arbitrary: s) auto

lemma prefix_inv: "inv s \<Longrightarrow> run_steps step s (es @ fs) = t \<Longrightarrow> inv (run_steps step s es) \<and> inv t"
  using run_inv run_append by metis

end

end
