(* ===== verification/Network_Types.thy ===== *)
theory Network_Types
  imports Prelude
begin

text \<open>
  The persisted network configuration of \<open>nasty-system/src/network.rs\<close>: the flat wire
  shape the WebUI edits. A Rust \<open>u16\<close>, \<open>u32\<close> or \<open>u8\<close> field is a word of that width
  and an \<open>Ipv4Addr\<close> is its 32-bit value.
\<close>

type_synonym u8 = "8 word"
type_synonym u16 = "16 word"
type_synonym u32 = "32 word"
type_synonym u64 = "64 word"

datatype IpMethod = Dhcp | Static | Slaac | Inherit | Disabled

record IpConfig =
  ip_method :: IpMethod
  ip_addresses :: "string list"
  ip_gateway :: "string option"

definition default_ip :: IpConfig where
  "default_ip = \<lparr>ip_method = Disabled, ip_addresses = [], ip_gateway = None\<rparr>"

record VfConfig =
  vf_index :: u32
  vf_vlan :: "u16 option"
  vf_mac :: "string option"
  vf_trust :: "bool option"
  vf_spoof_check :: "bool option"

record InterfaceConfig =
  if_name :: string
  if_enabled :: bool
  if_ipv4 :: IpConfig
  if_ipv6 :: IpConfig
  if_mtu :: "u16 option"
  if_sriov_num_vfs :: "u32 option"
  if_vfs :: "VfConfig list"

datatype BondMode = Lacp | ActiveBackup | BalanceRr | BalanceXor

fun to_kernel :: "BondMode \<Rightarrow> string" where
  "to_kernel Lacp = ''802.3ad''"
| "to_kernel ActiveBackup = ''active-backup''"
| "to_kernel BalanceRr = ''balance-rr''"
| "to_kernel BalanceXor = ''balance-xor''"

record BondConfig =
  bond_name :: string
  bond_members :: "string list"
  bond_mode :: BondMode
  bond_ipv4 :: IpConfig
  bond_ipv6 :: IpConfig
  bond_mtu :: "u16 option"
  bond_inherit_member_mac :: bool

record VlanConfig =
  vlan_parent :: string
  vlan_id :: u16
  vlan_ipv4 :: IpConfig
  vlan_ipv6 :: IpConfig
  vlan_mtu :: "u16 option"

record DhcpRelayConfig =
  relay_server :: u32
  relay_upstream :: string

record BridgeConfig =
  bridge_name :: string
  bridge_members :: "string list"
  bridge_ipv4 :: IpConfig
  bridge_ipv6 :: IpConfig
  bridge_mtu :: "u16 option"
  bridge_stp :: bool
  bridge_forward_delay_s :: "u8 option"
  bridge_inherit_member_mac :: bool
  bridge_dhcp_relay :: "DhcpRelayConfig option"

definition inherit_ip :: IpConfig where
  "inherit_ip = \<lparr>ip_method = Inherit, ip_addresses = [], ip_gateway = None\<rparr>"

record MacvlanConfig =
  mv_name :: string
  mv_parent :: string
  mv_mode :: string
  mv_ipv4 :: IpConfig
  mv_mtu :: "u16 option"
  mv_routes :: "string list"

record NetworkConfig =
  interfaces :: "InterfaceConfig list"
  dns :: "string list"
  bonds :: "BondConfig list"
  vlans :: "VlanConfig list"
  bridges :: "BridgeConfig list"
  macvlans :: "MacvlanConfig list"

definition default_network :: NetworkConfig where
  "default_network = \<lparr>interfaces = [], dns = [], bonds = [], vlans = [], bridges = [], macvlans = []\<rparr>"

text \<open>The kernel name of a VLAN link, \<open>format!("{}.{}", parent, vlan_id)\<close>.\<close>

definition vlan_name :: "VlanConfig \<Rightarrow> string" where
  "vlan_name v = vlan_parent v @ ''.'' @ show_nat (unat (vlan_id v))"

end
