(* ===== verification/Layered.thy ===== *)
theory Layered
  imports Network_Types
begin

text \<open>
  The layered network model of \<open>nasty-system/src/network/layered.rs\<close>: the split of the
  flat configuration into links (L2) and addresses (L3), the converters in both
  directions, and the structural validator that decides which graphs NetworkManager may see.
\<close>

section \<open>Types\<close>

datatype LinkKind =
    Physical
  | Bond "string list" BondMode bool
  | Bridge "string list" bool "u8 option" bool "DhcpRelayConfig option"
  | Vlan string u16
  | Macvlan string string

record Link =
  link_name :: string
  link_enabled :: bool
  link_mtu :: "u16 option"
  link_mac :: "string option"
  link_sriov_num_vfs :: "u32 option"
  link_vfs :: "VfConfig list"
  link_kind :: LinkKind

datatype Family = V4 | V6

record Address =
  addr_link :: string
  addr_family :: Family
  addr_method :: IpMethod
  addr_cidr :: "string list"
  addr_gateway :: "string option"

record Route =
  route_table :: u32
  route_dst :: string
  route_via :: "string option"
  route_dev :: string
  route_metric :: "u32 option"

record Rule =
  rule_priority :: u32
  rule_table :: u32
  rule_from :: "string option"
  rule_to :: "string option"
  rule_iif :: "string option"
  rule_oif :: "string option"

record LayeredConfig =
  links :: "Link list"
  addresses :: "Address list"
  routes :: "Route list"
  rules :: "Rule list"
  layered_dns :: "string list"

section \<open>Converters\<close>

definition is_empty_ip :: "IpConfig \<Rightarrow> bool" where
  "is_empty_ip ip \<longleftrightarrow> ip_method ip = Disabled \<and> ip_addresses ip = [] \<and> ip_gateway ip = None"

definition address_row :: "string \<Rightarrow> Family \<Rightarrow> IpConfig \<Rightarrow> Address" where
  "address_row link fam ip =
     \<lparr>addr_link = link, addr_family = fam, addr_method = ip_method ip,
      addr_cidr = ip_addresses ip, addr_gateway = ip_gateway ip\<rparr>"

text \<open>\<open>push_addresses\<close> returns the rows the code appends to \<open>out\<close>.\<close>

definition push_addresses :: "string \<Rightarrow> IpConfig \<Rightarrow> IpConfig \<Rightarrow> Address list" where
  "push_addresses link v4 v6 =
     (if is_empty_ip v4 then [] else [address_row link V4 v4]) @
     (if is_empty_ip v6 then [] else [address_row link V6 v6])"

definition mk_link :: "string \<Rightarrow> bool \<Rightarrow> u16 option \<Rightarrow> LinkKind \<Rightarrow> Link" where
  "mk_link n en mtu k =
     \<lparr>link_name = n, link_enabled = en, link_mtu = mtu, link_mac = None,
      link_sriov_num_vfs = None, link_vfs = [], link_kind = k\<rparr>"

definition iface_link :: "InterfaceConfig \<Rightarrow> Link" where
  "iface_link i =
     (mk_link (if_name i) (if_enabled i) (if_mtu i) Physical)
       \<lparr>link_sriov_num_vfs := if_sriov_num_vfs i, link_vfs := if_vfs i\<rparr>"

definition bond_link :: "BondConfig \<Rightarrow> Link" where
  "bond_link b =
     mk_link (bond_name b) True (bond_mtu b)
       (Bond (bond_members b) (bond_mode b) (bond_inherit_member_mac b))"

definition bridge_link :: "BridgeConfig \<Rightarrow> Link" where
  "bridge_link b =
     mk_link (bridge_name b) True (bridge_mtu b)
       (Bridge (bridge_members b) (bridge_stp b) (bridge_forward_delay_s b)
          (bridge_inherit_member_mac b) (bridge_dhcp_relay b))"

definition vlan_link :: "VlanConfig \<Rightarrow> Link" where
  "vlan_link v = mk_link (vlan_name v) True (vlan_mtu v) (Vlan (vlan_parent v) (vlan_id v))"

definition macvlan_link :: "MacvlanConfig \<Rightarrow> Link" where
  "macvlan_link m = mk_link (mv_name m) True (mv_mtu m) (Macvlan (mv_parent m) (mv_mode m))"

definition macvlan_routes :: "MacvlanConfig \<Rightarrow> Route list" where
  "macvlan_routes m =
     map (\<lambda>dst. \<lparr>route_table = 254, route_dst = dst, route_via = None,
                  route_dev = mv_name m, route_metric = None\<rparr>) (mv_routes m)"

definition declared_links :: "NetworkConfig \<Rightarrow> Link list" where
  "declared_links c =
     map iface_link (interfaces c) @ map bond_link (bonds c) @ map bridge_link (bridges c) @
     map vlan_link (vlans c) @ map macvlan_link (macvlans c)"

text \<open>The members a bond or bridge enslaves; the loop skips every other kind.\<close>

fun kind_members :: "LinkKind \<Rightarrow> string list" where
  "kind_members (Bond ms _ _) = ms"
| "kind_members (Bridge ms _ _ _ _) = ms"
| "kind_members _ = []"

definition members :: "Link \<Rightarrow> string list" where
  "members l = kind_members (link_kind l)"

text \<open>
  Physical links for the members no top-level entry declares, each once, in the order of
  their first mention.
\<close>

fun synthesize :: "string list \<Rightarrow> string list \<Rightarrow> string list \<Rightarrow> Link list" where
  "synthesize declared seen [] = []"
| "synthesize declared seen (m # ms) =
     (if m \<in> set declared \<or> m \<in> set seen then synthesize declared seen ms
      else mk_link m True None Physical # synthesize declared (m # seen) ms)"

definition synthesized_links :: "NetworkConfig \<Rightarrow> Link list" where
  "synthesized_links c =
     (let ls = declared_links c
      in synthesize (map link_name ls) [] (concat (map members ls)))"

definition to_layered :: "NetworkConfig \<Rightarrow> LayeredConfig" where
  "to_layered c =
     \<lparr>links = declared_links c @ synthesized_links c,
      addresses =
        concat (map (\<lambda>i. push_addresses (if_name i) (if_ipv4 i) (if_ipv6 i)) (interfaces c)) @
        concat (map (\<lambda>b. push_addresses (bond_name b) (bond_ipv4 b) (bond_ipv6 b)) (bonds c)) @
        concat (map (\<lambda>b. push_addresses (bridge_name b) (bridge_ipv4 b) (bridge_ipv6 b)) (bridges c)) @
        concat (map (\<lambda>v. push_addresses (vlan_name v) (vlan_ipv4 v) (vlan_ipv6 v)) (vlans c)) @
        concat (map (\<lambda>m. push_addresses (mv_name m) (mv_ipv4 m) default_ip) (macvlans c)),
      routes = concat (map macvlan_routes (macvlans c)),
      rules = [],
      layered_dns = dns c\<rparr>"

text \<open>
  \<open>group_addresses\<close>: the rows of a link, folded into one pair of IP configurations; a
  later row of the same family overwrites an earlier one.
\<close>

definition row_ip :: "Address \<Rightarrow> IpConfig" where
  "row_ip a =
     \<lparr>ip_method = addr_method a, ip_addresses = addr_cidr a, ip_gateway = addr_gateway a\<rparr>"

definition set_family :: "Address \<Rightarrow> IpConfig \<times> IpConfig \<Rightarrow> IpConfig \<times> IpConfig" where
  "set_family a e = (case addr_family a of V4 \<Rightarrow> (row_ip a, snd e) | V6 \<Rightarrow> (fst e, row_ip a))"

definition or_default :: "(IpConfig \<times> IpConfig) option \<Rightarrow> IpConfig \<times> IpConfig" where
  "or_default e = (case e of None \<Rightarrow> (default_ip, default_ip) | Some p \<Rightarrow> p)"

fun group_addresses ::
  "(string \<times> IpConfig \<times> IpConfig) list \<Rightarrow> Address list \<Rightarrow> (string \<times> IpConfig \<times> IpConfig) list" where
  "group_addresses m [] = m"
| "group_addresses m (a # as) =
     group_addresses
       (AList.update (addr_link a) (set_family a (or_default (map_of m (addr_link a)))) m) as"

fun group_routes :: "(string \<times> string list) list \<Rightarrow> Route list \<Rightarrow> (string \<times> string list) list" where
  "group_routes m [] = m"
| "group_routes m (r # rs) =
     group_routes
       (AList.update (route_dev r)
          ((case map_of m (route_dev r) of None \<Rightarrow> [] | Some ds \<Rightarrow> ds) @ [route_dst r]) m) rs"

definition link_ips :: "LayeredConfig \<Rightarrow> Link \<Rightarrow> IpConfig \<times> IpConfig" where
  "link_ips c l = or_default (map_of (group_addresses [] (addresses c)) (link_name l))"

definition link_routes :: "LayeredConfig \<Rightarrow> Link \<Rightarrow> string list" where
  "link_routes c l =
     (case map_of (group_routes [] (routes c)) (link_name l) of None \<Rightarrow> [] | Some ds \<Rightarrow> ds)"

definition back_iface :: "LayeredConfig \<Rightarrow> Link \<Rightarrow> InterfaceConfig list" where
  "back_iface c l =
     (case link_kind l of
        Physical \<Rightarrow>
          [\<lparr>if_name = link_name l, if_enabled = link_enabled l,
            if_ipv4 = fst (link_ips c l), if_ipv6 = snd (link_ips c l), if_mtu = link_mtu l,
            if_sriov_num_vfs = link_sriov_num_vfs l, if_vfs = link_vfs l\<rparr>]
      | _ \<Rightarrow> [])"

definition back_bond :: "LayeredConfig \<Rightarrow> Link \<Rightarrow> BondConfig list" where
  "back_bond c l =
     (case link_kind l of
        Bond ms mode inh \<Rightarrow>
          [\<lparr>bond_name = link_name l, bond_members = ms, bond_mode = mode,
            bond_ipv4 = fst (link_ips c l), bond_ipv6 = snd (link_ips c l), bond_mtu = link_mtu l,
            bond_inherit_member_mac = inh\<rparr>]
      | _ \<Rightarrow> [])"

definition back_bridge :: "LayeredConfig \<Rightarrow> Link \<Rightarrow> BridgeConfig list" where
  "back_bridge c l =
     (case link_kind l of
        Bridge ms stp fd inh relay \<Rightarrow>
          [\<lparr>bridge_name = link_name l, bridge_members = ms,
            bridge_ipv4 = fst (link_ips c l), bridge_ipv6 = snd (link_ips c l),
            bridge_mtu = link_mtu l, bridge_stp = stp, bridge_forward_delay_s = fd,
            bridge_inherit_member_mac = inh, bridge_dhcp_relay = relay\<rparr>]
      | _ \<Rightarrow> [])"

definition back_vlan :: "LayeredConfig \<Rightarrow> Link \<Rightarrow> VlanConfig list" where
  "back_vlan c l =
     (case link_kind l of
        Vlan parent i \<Rightarrow>
          [\<lparr>vlan_parent = parent, vlan_id = i, vlan_ipv4 = fst (link_ips c l),
            vlan_ipv6 = snd (link_ips c l), vlan_mtu = link_mtu l\<rparr>]
      | _ \<Rightarrow> [])"

definition back_macvlan :: "LayeredConfig \<Rightarrow> Link \<Rightarrow> MacvlanConfig list" where
  "back_macvlan c l =
     (case link_kind l of
        Macvlan parent mode \<Rightarrow>
          [\<lparr>mv_name = link_name l, mv_parent = parent, mv_mode = mode,
            mv_ipv4 = fst (link_ips c l), mv_mtu = link_mtu l, mv_routes = link_routes c l\<rparr>]
      | _ \<Rightarrow> [])"

definition from_layered :: "LayeredConfig \<Rightarrow> NetworkConfig" where
  "from_layered c =
     \<lparr>interfaces = concat (map (back_iface c) (links c)),
      dns = layered_dns c,
      bonds = concat (map (back_bond c) (links c)),
      vlans = concat (map (back_vlan c) (links c)),
      bridges = concat (map (back_bridge c) (links c)),
      macvlans = concat (map (back_macvlan c) (links c))\<rparr>"

section \<open>Validation\<close>

datatype LayeredError =
    DuplicateLink string
  | EnslavesItself string
  | MissingMember string string
  | VlanOwnParent string
  | VlanMissingParent string string
  | MacvlanOwnParent string
  | MacvlanMissingParent string string
  | AddressMissingLink string
  | TwoMasters string string string
  | Cycle string
  | OutOfFuel \<comment> \<open>of the model only: \<open>validate\<close> never returns it (\<open>validate_not_OutOfFuel\<close>)\<close>

fun check_names :: "string list \<Rightarrow> Link list \<Rightarrow> LayeredError + string list" where
  "check_names names [] = Inr names"
| "check_names names (l # ls) =
     (if link_name l \<in> set names then Inl (DuplicateLink (link_name l))
      else check_names (link_name l # names) ls)"

definition check_member :: "string list \<Rightarrow> string \<Rightarrow> string \<Rightarrow> LayeredError + unit" where
  "check_member names n m =
     (if m = n then Inl (EnslavesItself n)
      else if m \<notin> set names then Inl (MissingMember n m)
      else Inr ())"

definition check_refs :: "string list \<Rightarrow> Link \<Rightarrow> LayeredError + unit" where
  "check_refs names l =
     (case link_kind l of
        Bond ms _ _ \<Rightarrow> try_all (check_member names (link_name l)) ms
      | Bridge ms _ _ _ _ \<Rightarrow> try_all (check_member names (link_name l)) ms
      | Vlan parent _ \<Rightarrow>
          if parent = link_name l then Inl (VlanOwnParent (link_name l))
          else if parent \<notin> set names then Inl (VlanMissingParent (link_name l) parent)
          else Inr ()
      | Macvlan parent _ \<Rightarrow>
          if parent = link_name l then Inl (MacvlanOwnParent (link_name l))
          else if parent \<notin> set names then Inl (MacvlanMissingParent (link_name l) parent)
          else Inr ()
      | Physical \<Rightarrow> Inr ())"

definition check_address :: "string list \<Rightarrow> Address \<Rightarrow> LayeredError + unit" where
  "check_address names a =
     guard (addr_link a \<in> set names) (AddressMissingLink (addr_link a))"

text \<open>\<open>master_of\<close> over the (member, master) pairs in link and member order.\<close>

fun check_masters :: "(string \<times> string) list \<Rightarrow> (string \<times> string) list \<Rightarrow> LayeredError + unit" where
  "check_masters master_of [] = Inr ()"
| "check_masters master_of ((m, n) # ps) =
     (case map_of master_of m of
        Some existing \<Rightarrow> Inl (TwoMasters m existing n)
      | None \<Rightarrow> check_masters (AList.update m n master_of) ps)"

definition member_pairs :: "Link list \<Rightarrow> (string \<times> string) list" where
  "member_pairs ls = concat (map (\<lambda>l. map (\<lambda>m. (m, link_name l)) (members l)) ls)"

datatype Color = Gray | Black

definition color_insert :: "(string \<rightharpoonup> Color) \<Rightarrow> string \<Rightarrow> Color \<Rightarrow> (string \<rightharpoonup> Color)" where
  "color_insert color n k = color(n \<mapsto> k)"

definition deps :: "Link \<Rightarrow> string list" where
  "deps l =
     (case link_kind l of
        Bond ms _ _ \<Rightarrow> ms
      | Bridge ms _ _ _ _ \<Rightarrow> ms
      | Vlan parent _ \<Rightarrow> [parent]
      | Macvlan parent _ \<Rightarrow> [parent]
      | Physical \<Rightarrow> [])"

text \<open>
  The depth-first search. The recursion of \<open>visit_for_cycles\<close> follows the colour map, so
  the model takes fuel that bounds its depth; \<open>detect_cycles\<close> gives one more than the
  number of links, which \<open>visit_fuel_enough\<close> shows to be enough. \<open>visit_deps\<close> is the
  loop over a list of nodes: the dependencies of a link, and all links at the top.
\<close>

fun visit_for_cycles ::
    "nat \<Rightarrow> (string \<rightharpoonup> Link) \<Rightarrow> string \<Rightarrow> (string \<rightharpoonup> Color) \<Rightarrow> LayeredError + (string \<rightharpoonup> Color)"
  and visit_deps ::
    "nat \<Rightarrow> (string \<rightharpoonup> Link) \<Rightarrow> string list \<Rightarrow> (string \<rightharpoonup> Color) \<Rightarrow> LayeredError + (string \<rightharpoonup> Color)"
where
  "visit_for_cycles 0 by_name node color = Inl OutOfFuel"
| "visit_for_cycles (Suc fuel) by_name node color =
     (case color node of
        Some Black \<Rightarrow> Inr color
      | Some Gray \<Rightarrow> Inl (Cycle node)
      | None \<Rightarrow>
          res_bind
            (visit_deps fuel by_name
               (case by_name node of None \<Rightarrow> [] | Some l \<Rightarrow> deps l) (color_insert color node Gray))
            (\<lambda>color'. Inr (color_insert color' node Black)))"
| "visit_deps fuel by_name [] color = Inr color"
| "visit_deps fuel by_name (d # ds) color =
     res_bind (visit_for_cycles fuel by_name d color) (visit_deps fuel by_name ds)"

text \<open>\<open>collect\<close> into a \<open>HashMap\<close>: a later link of the same name wins.\<close>

definition link_map :: "Link list \<Rightarrow> string \<rightharpoonup> Link" where
  "link_map ls = map_of (rev (map (\<lambda>l. (link_name l, l)) ls))"

definition detect_cycles :: "Link list \<Rightarrow> LayeredError + unit" where
  "detect_cycles ls =
     map_sum id (\<lambda>_. ())
       (visit_deps (length ls + 1) (link_map ls) (map link_name ls) Map.empty)"

definition validate :: "LayeredConfig \<Rightarrow> LayeredError + unit" where
  "validate c =
     res_bind (check_names [] (links c)) (\<lambda>names.
     res_bind (try_all (check_refs names) (links c)) (\<lambda>_.
     res_bind (try_all (check_address names) (addresses c)) (\<lambda>_.
     res_bind (check_masters [] (member_pairs (links c))) (\<lambda>_.
     detect_cycles (links c)))))"

section \<open>Cycle detection\<close>

text \<open>The edges the search follows, and the nodes it has not coloured yet.\<close>

definition dep_edges :: "(string \<rightharpoonup> Link) \<Rightarrow> (string \<times> string) set" where
  "dep_edges by_name = {(a, b). \<exists>l. by_name a = Some l \<and> b \<in> set (deps l)}"

definition uncolored :: "(string \<rightharpoonup> Link) \<Rightarrow> (string \<rightharpoonup> Color) \<Rightarrow> nat" where
  "uncolored by_name color = card (dom by_name - dom color)"

definition grays :: "(string \<rightharpoonup> Color) \<Rightarrow> string set" where
  "grays color = {n. color n = Some Gray}"

definition blacks :: "(string \<rightharpoonup> Color) \<Rightarrow> string set" where
  "blacks color = {n. color n = Some Black}"

lemma dom_grays_blacks: "dom color = grays color \<union> blacks color"
  by (auto simp: grays_def blacks_def) (metis Color.exhaust)

lemma grays_upd [simp]:
  "grays (color_insert color n Gray) = insert n (grays color)"
  "grays (color_insert color n Black) = grays color - {n}"
  by (auto simp: grays_def color_insert_def)

lemma blacks_upd [simp]:
  "blacks (color_insert color n Gray) = blacks color - {n}"
  "blacks (color_insert color n Black) = insert n (blacks color)"
  by (auto simp: blacks_def color_insert_def)

lemma visit_frame:
  "visit_for_cycles fuel G n color = Inr color' \<Longrightarrow>
     grays color' = grays color \<and> blacks color \<subseteq> blacks color' \<and> n \<in> blacks color'"
  "visit_deps fuel G ns color = Inr color' \<Longrightarrow>
     grays color' = grays color \<and> blacks color \<subseteq> blacks color' \<and> set ns \<subseteq> blacks color'"
proof (induction fuel G n color and fuel G ns color arbitrary: color' and color'
    rule: visit_for_cycles_visit_deps.induct)
  case (2 fuel G n color)
  show ?case
  proof (cases "color n")
    case None
    then obtain c where c: "visit_deps fuel G (case G n of None \<Rightarrow> [] | Some l \<Rightarrow> deps l)
        (color_insert color n Gray) = Inr c" "color' = color_insert c n Black"
      using "2.prems" by (auto simp: res_simps)
    from "2.IH" [OF None c(1)] have
      "grays c = insert n (grays color)" "blacks color - {n} \<subseteq> blacks c" by auto
    moreover have "n \<notin> grays color" "n \<notin> blacks color"
      using None by (auto simp: grays_def blacks_def)
    ultimately show ?thesis using c(2) by auto
  next
    case (Some k)
    with "2.prems" show ?thesis
      by (cases k) (auto simp: blacks_def)
  qed
next
  case (4 fuel G d ds color)
  then show ?case by (auto simp: res_simps) blast+
qed (simp_all)

lemma uncolored_visit:
  assumes "finite (dom G)" "grays color' = grays color" "blacks color \<subseteq> blacks color'"
  shows "uncolored G color' \<le> uncolored G color"
  unfolding uncolored_def dom_grays_blacks
  using assms by (intro card_mono) auto

lemma uncolored_gray:
  assumes "finite (dom G)" "G n = Some l" "color n = None"
  shows "Suc (uncolored G (color_insert color n Gray)) = uncolored G color"
proof -
  have "dom G - dom color = insert n (dom G - dom (color_insert color n Gray))"
    using assms by (auto simp: color_insert_def)
  moreover have "n \<notin> dom G - dom (color_insert color n Gray)" by (simp add: color_insert_def)
  ultimately show ?thesis
    unfolding uncolored_def using assms(1) by simp
qed

lemma visit_fuel_enough:
  "finite (dom G) \<Longrightarrow> uncolored G color < fuel \<Longrightarrow> visit_for_cycles fuel G n color \<noteq> Inl OutOfFuel"
  "finite (dom G) \<Longrightarrow> ns = [] \<or> uncolored G color < fuel \<Longrightarrow> visit_deps fuel G ns color \<noteq> Inl OutOfFuel"
proof (induction fuel G n color and fuel G ns color rule: visit_for_cycles_visit_deps.induct)
  case (2 fuel G n color)
  show ?case
  proof (cases "color n")
    case None
    let ?ds = "case G n of None \<Rightarrow> [] | Some l \<Rightarrow> deps l"
    have "?ds = [] \<or> uncolored G (color_insert color n Gray) < fuel"
      using uncolored_gray [of G n _ color] None "2.prems" by (cases "G n") force+
    from "2.IH" [OF None "2.prems"(1) this] None show ?thesis
      by (auto simp: res_simps)
  next
    case (Some k)
    then show ?thesis by (cases k) auto
  qed
next
  case (4 fuel G d ds color)
  have "uncolored G c < fuel" if "visit_for_cycles fuel G d color = Inr c" for c
    using uncolored_visit [OF "4.prems"(1), of c color] visit_frame(1) [OF that] "4.prems"(2)
    by simp
  with "4.IH" "4.prems" show ?case by (simp add: res_simps)
qed (simp_all)

text \<open>A search that reports an error has found a cycle.\<close>

lemma visit_error_cycle:
  "visit_for_cycles fuel G n color = Inl e \<Longrightarrow> e \<noteq> OutOfFuel \<Longrightarrow>
     (\<forall>g\<in>grays color. (g, n) \<in> (dep_edges G)\<^sup>+) \<Longrightarrow>
     \<exists>x. e = Cycle x \<and> (x, x) \<in> (dep_edges G)\<^sup>+"
  "visit_deps fuel G ns color = Inl e \<Longrightarrow> e \<noteq> OutOfFuel \<Longrightarrow>
     (\<forall>g\<in>grays color. \<forall>n\<in>set ns. (g, n) \<in> (dep_edges G)\<^sup>+) \<Longrightarrow>
     \<exists>x. e = Cycle x \<and> (x, x) \<in> (dep_edges G)\<^sup>+"
proof (induction fuel G n color and fuel G ns color rule: visit_for_cycles_visit_deps.induct)
  case (2 fuel G n color)
  show ?case
  proof (cases "color n")
    case None
    let ?ds = "case G n of None \<Rightarrow> [] | Some l \<Rightarrow> deps l"
    have "(n, d) \<in> dep_edges G" if "d \<in> set ?ds" for d
      using that by (cases "G n") (auto simp: dep_edges_def)
    then have "\<forall>g\<in>grays (color_insert color n Gray). \<forall>d\<in>set ?ds. (g, d) \<in> (dep_edges G)\<^sup>+"
      using "2.prems"(3) by (auto intro: trancl.intros)
    moreover have "visit_deps fuel G ?ds (color_insert color n Gray) = Inl e"
      using "2.prems"(1) None by (auto simp: res_simps)
    ultimately show ?thesis using "2.IH" [OF None] "2.prems"(2) by blast
  next
    case (Some k)
    with "2.prems" show ?thesis by (cases k) (auto simp: grays_def)
  qed
next
  case (4 fuel G d ds color)
  from "4.prems"(1) consider "visit_for_cycles fuel G d color = Inl e"
    | c where "visit_for_cycles fuel G d color = Inr c" "visit_deps fuel G ds c = Inl e"
    by (auto simp: res_simps)
  then show ?case
  proof cases
    case 1
    with "4.IH"(1) "4.prems"(2,3) show ?thesis by simp
  next
    case 2
    from visit_frame(1) [OF 2(1)] have "grays c = grays color" by simp
    with "4.IH"(2) [OF 2(2) "4.prems"(2)] "4.prems"(3) show ?thesis by simp
  qed
qed (simp_all)

text \<open>A search that succeeds leaves a black region closed under edges and free of cycles.\<close>

definition black_ok :: "(string \<rightharpoonup> Link) \<Rightarrow> (string \<rightharpoonup> Color) \<Rightarrow> bool" where
  "black_ok G color \<longleftrightarrow>
     (\<forall>a b. a \<in> blacks color \<longrightarrow> (a, b) \<in> dep_edges G \<longrightarrow> b \<in> blacks color) \<and>
     (\<forall>a\<in>blacks color. (a, a) \<notin> (dep_edges G)\<^sup>+)"

lemma closed_trancl:
  assumes "(a, b) \<in> R\<^sup>+" "a \<in> B" "\<And>x y. x \<in> B \<Longrightarrow> (x, y) \<in> R \<Longrightarrow> y \<in> B"
  shows "b \<in> B"
  using assms(1,2) by (induction rule: trancl_induct) (auto intro: assms(3))

lemma black_ok_insert:
  assumes ok: "black_ok G c" and n: "n \<notin> blacks c"
    and succ: "\<And>d. (n, d) \<in> dep_edges G \<Longrightarrow> d \<in> blacks c"
  shows "black_ok G (color_insert c n Black)"
proof -
  have cl: "\<And>x y. x \<in> blacks c \<Longrightarrow> (x, y) \<in> dep_edges G \<Longrightarrow> y \<in> blacks c"
    using ok by (auto simp: black_ok_def)
  have "(n, n) \<notin> (dep_edges G)\<^sup>+"
  proof
    assume "(n, n) \<in> (dep_edges G)\<^sup>+"
    then obtain d where "(n, d) \<in> dep_edges G" "(d, n) \<in> (dep_edges G)\<^sup>*"
      by (meson tranclD)
    with succ have "d \<in> blacks c" "d = n \<or> (d, n) \<in> (dep_edges G)\<^sup>+"
      by (auto simp: rtrancl_eq_or_trancl)
    with n closed_trancl [of d n "dep_edges G" "blacks c"] cl show False by blast
  qed
  with ok succ cl show ?thesis
    by (auto simp: black_ok_def)
qed

lemma visit_black_ok:
  "visit_for_cycles fuel G n color = Inr color' \<Longrightarrow> black_ok G color \<Longrightarrow> black_ok G color'"
  "visit_deps fuel G ns color = Inr color' \<Longrightarrow> black_ok G color \<Longrightarrow> black_ok G color'"
proof (induction fuel G n color and fuel G ns color arbitrary: color' and color'
    rule: visit_for_cycles_visit_deps.induct)
  case (2 fuel G n color)
  show ?case
  proof (cases "color n")
    case None
    let ?ds = "case G n of None \<Rightarrow> [] | Some l \<Rightarrow> deps l"
    obtain c where c: "visit_deps fuel G ?ds (color_insert color n Gray) = Inr c" "color' = color_insert c n Black"
      using "2.prems"(1) None by (auto simp: res_simps)
    have "black_ok G (color_insert color n Gray)"
      using "2.prems"(2) None by (auto simp: black_ok_def blacks_def color_insert_def)
    with "2.IH" [OF None c(1)] have ok: "black_ok G c" .
    from visit_frame(2) [OF c(1)] have "set ?ds \<subseteq> blacks c" "n \<in> grays c"
      by auto
    then show ?thesis
      unfolding c(2) using ok
      by (intro black_ok_insert) (auto simp: dep_edges_def grays_def blacks_def)
  next
    case (Some k)
    with "2.prems" show ?thesis by (cases k) auto
  qed
next
  case (4 fuel G d ds color)
  then show ?case by (auto simp: res_simps)
qed (simp_all)

lemma dom_link_map: "dom (link_map ls) = link_name ` set ls"
  by (auto simp: link_map_def dom_map_of_conv_image_fst image_image)

lemma finite_dom_link_map [simp]: "finite (dom (link_map ls))"
  by (simp add: dom_link_map)

lemma detect_cycles_not_OutOfFuel: "detect_cycles ls \<noteq> Inl OutOfFuel"
proof -
  have "uncolored (link_map ls) Map.empty \<le> length ls"
    using card_image_le [of "set ls" link_name] card_length [of ls]
    by (simp add: uncolored_def dom_link_map)
  then have "visit_deps (length ls + 1) (link_map ls) (map link_name ls) Map.empty \<noteq> Inl OutOfFuel"
    by (intro visit_fuel_enough(2)) auto
  then show ?thesis
    unfolding detect_cycles_def
    by (cases "visit_deps (length ls + 1) (link_map ls) (map link_name ls) Map.empty") auto
qed

lemma detect_cycles_ok_iff:
  "detect_cycles ls = Inr () \<longleftrightarrow> acyclic (dep_edges (link_map ls))"
proof (cases "visit_deps (length ls + 1) (link_map ls) (map link_name ls) Map.empty")
  case (Inl e)
  moreover have "e \<noteq> OutOfFuel"
    using detect_cycles_not_OutOfFuel [of ls] Inl by (auto simp: detect_cycles_def)
  ultimately have "\<exists>x. (x, x) \<in> (dep_edges (link_map ls))\<^sup>+"
    using visit_error_cycle(2) [OF Inl] by (auto simp: grays_def)
  then have "\<not> acyclic (dep_edges (link_map ls))" by (simp add: acyclic_def)
  with Inl show ?thesis by (simp add: detect_cycles_def)
next
  case (Inr c)
  have ok: "black_ok (link_map ls) c"
    using visit_black_ok(2) [OF Inr] by (simp add: black_ok_def blacks_def)
  have "(x, x) \<notin> (dep_edges (link_map ls))\<^sup>+" for x
  proof
    assume cyc: "(x, x) \<in> (dep_edges (link_map ls))\<^sup>+"
    then obtain z where "(x, z) \<in> dep_edges (link_map ls)" by (meson tranclD)
    then have "x \<in> dom (link_map ls)" by (auto simp: dep_edges_def)
    then have "x \<in> set (map link_name ls)" by (simp add: dom_link_map)
    with visit_frame(2) [OF Inr] have "x \<in> blacks c" by blast
    with ok cyc show False unfolding black_ok_def by metis
  qed
  then have "acyclic (dep_edges (link_map ls))" by (simp add: acyclic_def)
  with Inr show ?thesis by (simp add: detect_cycles_def)
qed

section \<open>What the validator accepts\<close>

definition ref_edges :: "Link list \<Rightarrow> (string \<times> string) set" where
  "ref_edges ls = {(link_name l, d) | l d. l \<in> set ls \<and> d \<in> set (deps l)}"

definition layered_ok :: "LayeredConfig \<Rightarrow> bool" where
  "layered_ok c \<longleftrightarrow>
     distinct (map link_name (links c)) \<and>
     (\<forall>l\<in>set (links c). set (deps l) \<subseteq> link_name ` set (links c)) \<and>
     (\<forall>a\<in>set (addresses c). addr_link a \<in> link_name ` set (links c)) \<and>
     distinct (concat (map members (links c))) \<and>
     acyclic (ref_edges (links c))"

lemma check_names_Inr:
  "check_names ns ls = Inr names \<longleftrightarrow>
     distinct (map link_name ls) \<and> link_name ` set ls \<inter> set ns = {} \<and> names = rev (map link_name ls) @ ns"
  by (induction ns ls rule: check_names.induct) auto

lemma check_masters_Inr:
  "check_masters ms ps = Inr u \<longleftrightarrow>
     distinct (map fst ps) \<and> fst ` set ps \<inter> dom (map_of ms) = {}"
proof (induction ms ps rule: check_masters.induct)
  case (2 ms m n ps)
  show ?case
  proof (cases "map_of ms m")
    case None
    then have "dom (map_of (AList.update m n ms)) = insert m (dom (map_of ms))"
      by (simp add: update_conv')
    with None 2 show ?thesis by auto
  next
    case (Some k)
    then show ?thesis by auto
  qed
qed simp

lemma fst_member_pairs: "map fst (member_pairs ls) = concat (map members ls)"
  by (induction ls) (auto simp: member_pairs_def comp_def)

lemma link_map_Some:
  "distinct (map link_name ls) \<Longrightarrow> link_map ls n = Some l \<longleftrightarrow> l \<in> set ls \<and> link_name l = n"
proof -
  assume d: "distinct (map link_name ls)"
  have "map fst (rev (map (\<lambda>l. (link_name l, l)) ls)) = rev (map link_name ls)"
    by (simp add: rev_map comp_def)
  with d have "distinct (map fst (rev (map (\<lambda>l. (link_name l, l)) ls)))" by simp
  from map_of_eq_Some_iff [OF this] show ?thesis
    by (auto simp: link_map_def)
qed

lemma dep_edges_link_map:
  "distinct (map link_name ls) \<Longrightarrow> dep_edges (link_map ls) = ref_edges ls"
  by (auto simp: dep_edges_def ref_edges_def link_map_Some)

lemma check_refs_Inr:
  "check_refs names l = Inr () \<longleftrightarrow>
     (\<forall>d\<in>set (deps l). d \<noteq> link_name l \<and> d \<in> set names)"
  by (cases "link_kind l")
    (auto simp: check_refs_def deps_def check_member_def res_simps split: if_splits)

lemma acyclic_no_self: "acyclic (ref_edges ls) \<Longrightarrow> l \<in> set ls \<Longrightarrow> link_name l \<notin> set (deps l)"
  unfolding acyclic_def ref_edges_def by blast

lemma validate_iff: "validate c = Inr () \<longleftrightarrow> layered_ok c"
proof (cases "distinct (map link_name (links c))")
  case True
  let ?names = "rev (map link_name (links c))"
  have "validate c = Inr () \<longleftrightarrow>
      (\<forall>l\<in>set (links c). check_refs ?names l = Inr ()) \<and>
      (\<forall>a\<in>set (addresses c). addr_link a \<in> link_name ` set (links c)) \<and>
      distinct (concat (map members (links c))) \<and> acyclic (ref_edges (links c))"
    using True
    by (auto simp: validate_def res_simps check_names_Inr check_masters_Inr fst_member_pairs
        detect_cycles_ok_iff dep_edges_link_map check_address_def)
  also have "\<dots> \<longleftrightarrow> layered_ok c"
    using True acyclic_no_self [of "links c"] unfolding layered_ok_def
    by (auto simp: check_refs_Inr)
  finally show ?thesis .
next
  case False
  then show ?thesis by (auto simp: validate_def layered_ok_def res_simps check_names_Inr)
qed

lemma check_refs_not_OutOfFuel: "check_refs names l \<noteq> Inl OutOfFuel"
proof
  assume "check_refs names l = Inl OutOfFuel"
  then show False
    by (cases "link_kind l")
      (auto simp: check_refs_def check_member_def split: if_splits dest!: try_all_eq_Inl)
qed

lemma validate_not_OutOfFuel: "validate c \<noteq> Inl OutOfFuel"
proof -
  have "check_names ns ls \<noteq> Inl OutOfFuel" for ns ls
    by (induction ns ls rule: check_names.induct) auto
  moreover have "check_masters ms ps \<noteq> Inl OutOfFuel" for ms ps
    by (induction ms ps rule: check_masters.induct) (auto split: option.splits)
  moreover have "try_all (check_refs names) (links c) \<noteq> Inl OutOfFuel" for names
    using check_refs_not_OutOfFuel by (auto dest!: try_all_eq_Inl)
  moreover have "try_all (check_address names) (addresses c) \<noteq> Inl OutOfFuel" for names
    by (auto simp: check_address_def res_simps dest!: try_all_eq_Inl)
  ultimately show ?thesis
    using detect_cycles_not_OutOfFuel by (auto simp: validate_def res_simps)
qed

section \<open>The converters\<close>

lemma synthesize_names:
  "link_name ` set (synthesize declared seen ms) = set ms - set declared - set seen"
  by (induction declared seen ms rule: synthesize.induct) (auto simp: mk_link_def)

lemma synthesize_distinct: "distinct (map link_name (synthesize declared seen ms))"
proof (induction declared seen ms rule: synthesize.induct)
  case (2 declared seen m ms)
  then show ?case
    using synthesize_names [of declared "m # seen" ms] by (auto simp: mk_link_def)
qed simp

lemma synthesize_kind: "l \<in> set (synthesize declared seen ms) \<Longrightarrow>
   \<exists>n. l = mk_link n True None Physical"
  by (induction declared seen ms rule: synthesize.induct) (auto split: if_splits)

lemma members_declared_resolved:
  assumes "l \<in> set (links (to_layered c))" "m \<in> set (members l)"
  shows "m \<in> link_name ` set (links (to_layered c))"
proof -
  have "l \<in> set (declared_links c)"
    using assms by (auto simp: to_layered_def synthesized_links_def Let_def members_def mk_link_def
        dest!: synthesize_kind)
  with assms(2) have "m \<in> set (concat (map members (declared_links c)))" by auto
  then show ?thesis
    using synthesize_names [of "map link_name (declared_links c)" "[]"
        "concat (map members (declared_links c))"]
    by (auto simp: to_layered_def synthesized_links_def Let_def)
qed

text \<open>Grouping by link name looks only at the rows of that link.\<close>

fun fold_rows :: "(IpConfig \<times> IpConfig) option \<Rightarrow> Address list \<Rightarrow> (IpConfig \<times> IpConfig) option" where
  "fold_rows e [] = e"
| "fold_rows e (a # as) = fold_rows (Some (set_family a (or_default e))) as"

lemma group_addresses_lookup:
  "map_of (group_addresses m as) n = fold_rows (map_of m n) (filter (\<lambda>a. addr_link a = n) as)"
  by (induction m as rule: group_addresses.induct) (auto simp: update_conv')

lemma group_routes_lookup:
  "(case map_of (group_routes m rs) n of None \<Rightarrow> [] | Some ds \<Rightarrow> ds) =
     (case map_of m n of None \<Rightarrow> [] | Some ds \<Rightarrow> ds) @
     map route_dst (filter (\<lambda>r. route_dev r = n) rs)"
  by (induction m rs rule: group_routes.induct) (auto simp: update_conv' split: option.splits)

text \<open>The declarations of a configuration: name and the two IP configurations, in order.\<close>

type_synonym decl = "string \<times> IpConfig \<times> IpConfig"

definition decls :: "NetworkConfig \<Rightarrow> decl list" where
  "decls c =
     map (\<lambda>i. (if_name i, if_ipv4 i, if_ipv6 i)) (interfaces c) @
     map (\<lambda>b. (bond_name b, bond_ipv4 b, bond_ipv6 b)) (bonds c) @
     map (\<lambda>b. (bridge_name b, bridge_ipv4 b, bridge_ipv6 b)) (bridges c) @
     map (\<lambda>v. (vlan_name v, vlan_ipv4 v, vlan_ipv6 v)) (vlans c) @
     map (\<lambda>m. (mv_name m, mv_ipv4 m, default_ip)) (macvlans c)"

definition decl_rows :: "decl \<Rightarrow> Address list" where
  "decl_rows d = push_addresses (fst d) (fst (snd d)) (snd (snd d))"

lemma addresses_decls: "addresses (to_layered c) = concat (map decl_rows (decls c))"
  by (simp add: to_layered_def decls_def decl_rows_def comp_def)

lemma link_names_decls: "map link_name (declared_links c) = map fst (decls c)"
  by (simp add: declared_links_def decls_def comp_def iface_link_def bond_link_def bridge_link_def
      vlan_link_def macvlan_link_def mk_link_def)

lemma decl_rows_link: "a \<in> set (decl_rows d) \<Longrightarrow> addr_link a = fst d"
  by (auto simp: decl_rows_def push_addresses_def address_row_def split: if_splits)

lemma filter_decl_rows:
  "filter (\<lambda>a. addr_link a = n) (decl_rows d) = (if fst d = n then decl_rows d else [])"
  using decl_rows_link by (auto simp: filter_id_conv filter_empty_conv)

lemma filter_rows_notin:
  "n \<notin> fst ` set ds \<Longrightarrow> filter (\<lambda>a. addr_link a = n) (concat (map decl_rows ds)) = []"
  by (induction ds) (auto simp: filter_decl_rows)

lemma filter_rows_in:
  "distinct (map fst ds) \<Longrightarrow> d \<in> set ds \<Longrightarrow>
     filter (\<lambda>a. addr_link a = fst d) (concat (map decl_rows ds)) = decl_rows d"
proof (induction ds)
  case (Cons x ds)
  then show ?case
    using filter_rows_notin [of "fst d" ds] by (auto simp: filter_decl_rows)
qed simp

lemma is_empty_ip_default: "is_empty_ip ip \<longleftrightarrow> ip = default_ip"
  by (cases ip) (auto simp: is_empty_ip_def default_ip_def)

lemma row_ip_address_row [simp]: "row_ip (address_row n f ip) = ip"
  by (simp add: row_ip_def address_row_def)

lemma fold_decl_rows: "or_default (fold_rows None (decl_rows d)) = snd d"
  by (auto simp: decl_rows_def push_addresses_def set_family_def or_default_def
      is_empty_ip_default address_row_def row_ip_def prod_eq_iff)

lemma link_ips_in:
  assumes "distinct (map fst (decls c))" "d \<in> set (decls c)" "link_name l = fst d"
  shows "link_ips (to_layered c) l = snd d"
  using assms
  by (simp add: link_ips_def group_addresses_lookup addresses_decls filter_rows_in fold_decl_rows)

lemma link_ips_notin:
  "link_name l \<notin> fst ` set (decls c) \<Longrightarrow> link_ips (to_layered c) l = (default_ip, default_ip)"
  by (simp add: link_ips_def group_addresses_lookup addresses_decls filter_rows_notin or_default_def)

lemma macvlan_routes_dst: "map route_dst (macvlan_routes m) = mv_routes m"
  by (simp add: macvlan_routes_def comp_def)

lemma macvlan_routes_in:
  "distinct (map mv_name ms) \<Longrightarrow> m \<in> set ms \<Longrightarrow>
     map route_dst (filter (\<lambda>r. route_dev r = mv_name m) (concat (map macvlan_routes ms))) = mv_routes m"
proof (induction ms)
  case (Cons x ms)
  have other: "filter (\<lambda>r. route_dev r = n) (concat (map macvlan_routes ys)) = []"
    if "n \<notin> mv_name ` set ys" for n ys
    using that by (auto simp: filter_empty_conv macvlan_routes_def)
  have own: "filter (\<lambda>r. route_dev r = mv_name x) (macvlan_routes x) = macvlan_routes x"
    by (auto simp: filter_id_conv macvlan_routes_def)
  have skip: "filter (\<lambda>r. route_dev r = n) (macvlan_routes x) = []" if "n \<noteq> mv_name x" for n
    using that by (auto simp: filter_empty_conv macvlan_routes_def)
  show ?case
  proof (cases "m = x")
    case True
    with Cons.prems other [of "mv_name x" ms] own show ?thesis
      by (simp add: macvlan_routes_dst)
  next
    case False
    with Cons have "m \<in> set ms" by simp
    moreover have "mv_name m \<noteq> mv_name x"
      using \<open>m \<in> set ms\<close> Cons.prems(1) by (simp, metis imageI)
    ultimately show ?thesis using Cons skip by simp
  qed
qed simp

definition bare_iface :: "string \<Rightarrow> InterfaceConfig" where
  "bare_iface n =
     \<lparr>if_name = n, if_enabled = True, if_ipv4 = default_ip, if_ipv6 = default_ip,
      if_mtu = None, if_sriov_num_vfs = None, if_vfs = []\<rparr>"

definition undeclared_members :: "NetworkConfig \<Rightarrow> string list" where
  "undeclared_members c = map link_name (synthesized_links c)"

lemma concat_map_single:
  "(\<And>x. x \<in> set xs \<Longrightarrow> f x = [h x]) \<Longrightarrow> concat (map f xs) = map h xs"
  by (induction xs) auto

lemma concat_map_nil [simp]: "concat (map (\<lambda>_. []) xs) = []"
  by (induction xs) auto

lemma synthesized_eq: "synthesized_links c = map (\<lambda>n. mk_link n True None Physical) (undeclared_members c)"
proof -
  have "\<forall>l\<in>set (synthesized_links c). mk_link (link_name l) True None Physical = l"
    unfolding synthesized_links_def Let_def
    by (auto simp: mk_link_def dest!: synthesize_kind)
  then show ?thesis
    by (simp add: undeclared_members_def comp_def map_idI)
qed

lemma undeclared_notin: "n \<in> set (undeclared_members c) \<Longrightarrow> n \<notin> fst ` set (decls c)"
proof -
  assume "n \<in> set (undeclared_members c)"
  then have "n \<notin> set (map link_name (declared_links c))"
    using synthesize_names [of "map link_name (declared_links c)" "[]"
        "concat (map members (declared_links c))"]
    by (auto simp: undeclared_members_def synthesized_links_def Let_def)
  then show ?thesis by (simp add: link_names_decls)
qed

lemmas link_of_defs = iface_link_def bond_link_def bridge_link_def vlan_link_def macvlan_link_def
  mk_link_def

lemmas back_defs = back_iface_def back_bond_def back_bridge_def back_vlan_def back_macvlan_def

definition names_distinct :: "NetworkConfig \<Rightarrow> bool" where
  "names_distinct c \<longleftrightarrow> distinct (map link_name (declared_links c))"

lemma names_distinct_decls: "names_distinct c \<longleftrightarrow> distinct (map fst (decls c))"
  by (simp add: names_distinct_def link_names_decls)

lemma back_iface_own:
  "names_distinct c \<Longrightarrow> i \<in> set (interfaces c) \<Longrightarrow> back_iface (to_layered c) (iface_link i) = [i]"
  using link_ips_in [of c "(if_name i, if_ipv4 i, if_ipv6 i)"]
  by (simp add: names_distinct_decls back_iface_def link_of_defs decls_def)

lemma back_bond_own:
  "names_distinct c \<Longrightarrow> b \<in> set (bonds c) \<Longrightarrow> back_bond (to_layered c) (bond_link b) = [b]"
  using link_ips_in [of c "(bond_name b, bond_ipv4 b, bond_ipv6 b)"]
  by (simp add: names_distinct_decls back_bond_def link_of_defs decls_def)

lemma back_bridge_own:
  "names_distinct c \<Longrightarrow> b \<in> set (bridges c) \<Longrightarrow> back_bridge (to_layered c) (bridge_link b) = [b]"
  using link_ips_in [of c "(bridge_name b, bridge_ipv4 b, bridge_ipv6 b)"]
  by (simp add: names_distinct_decls back_bridge_def link_of_defs decls_def)

lemma back_vlan_own:
  "names_distinct c \<Longrightarrow> v \<in> set (vlans c) \<Longrightarrow> back_vlan (to_layered c) (vlan_link v) = [v]"
  using link_ips_in [of c "(vlan_name v, vlan_ipv4 v, vlan_ipv6 v)"]
  by (simp add: names_distinct_decls back_vlan_def link_of_defs decls_def)

lemma link_routes_own:
  "names_distinct c \<Longrightarrow> m \<in> set (macvlans c) \<Longrightarrow> link_name l = mv_name m \<Longrightarrow>
     link_routes (to_layered c) l = mv_routes m"
  using macvlan_routes_in [of "macvlans c" m]
  by (simp add: names_distinct_decls link_routes_def group_routes_lookup to_layered_def decls_def comp_def)

lemma back_macvlan_own:
  "names_distinct c \<Longrightarrow> m \<in> set (macvlans c) \<Longrightarrow> back_macvlan (to_layered c) (macvlan_link m) = [m]"
  using link_ips_in [of c "(mv_name m, mv_ipv4 m, default_ip)"] link_routes_own [of c m]
  by (simp add: names_distinct_decls back_macvlan_def link_of_defs decls_def)

lemma back_skip:
  "back_iface lc (bond_link b) = []" "back_iface lc (bridge_link br) = []"
  "back_iface lc (vlan_link v) = []" "back_iface lc (macvlan_link m) = []"
  "back_bond lc (iface_link i) = []" "back_bond lc (bridge_link br) = []"
  "back_bond lc (vlan_link v) = []" "back_bond lc (macvlan_link m) = []"
  "back_bridge lc (iface_link i) = []" "back_bridge lc (bond_link b) = []"
  "back_bridge lc (vlan_link v) = []" "back_bridge lc (macvlan_link m) = []"
  "back_vlan lc (iface_link i) = []" "back_vlan lc (bond_link b) = []"
  "back_vlan lc (bridge_link br) = []" "back_vlan lc (macvlan_link m) = []"
  "back_macvlan lc (iface_link i) = []" "back_macvlan lc (bond_link b) = []"
  "back_macvlan lc (bridge_link br) = []" "back_macvlan lc (vlan_link v) = []"
  "back_bond lc (mk_link n e mtu Physical) = []" "back_bridge lc (mk_link n e mtu Physical) = []"
  "back_vlan lc (mk_link n e mtu Physical) = []" "back_macvlan lc (mk_link n e mtu Physical) = []"
  by (simp_all add: back_defs link_of_defs)

lemmas back_own = back_iface_own back_bond_own back_bridge_own back_vlan_own back_macvlan_own

lemma back_iface_synthesized:
  "n \<in> set (undeclared_members c) \<Longrightarrow>
     back_iface (to_layered c) (mk_link n True None Physical) = [bare_iface n]"
  using undeclared_notin [of n c] link_ips_notin [of "mk_link n True None Physical" c]
  by (simp add: back_iface_def bare_iface_def mk_link_def)

lemma links_to_layered:
  "links (to_layered c) =
     map iface_link (interfaces c) @ map bond_link (bonds c) @ map bridge_link (bridges c) @
     map vlan_link (vlans c) @ map macvlan_link (macvlans c) @
     map (\<lambda>n. mk_link n True None Physical) (undeclared_members c)"
  by (simp add: to_layered_def declared_links_def synthesized_eq)

lemma from_layered_to_layered:
  assumes "names_distinct c"
  shows "from_layered (to_layered c) =
     c\<lparr>interfaces := interfaces c @ map bare_iface (undeclared_members c)\<rparr>"
proof -
  let ?l = "to_layered c"
  note own = back_own [OF assms]
  have "concat (map (back_iface ?l) (links ?l)) =
      interfaces c @ map bare_iface (undeclared_members c)"
    using own(1) back_iface_synthesized [of _ c]
    by (simp add: links_to_layered back_skip comp_def concat_map_single [where h = "\<lambda>x. x"]
        concat_map_single [where h = bare_iface])
  moreover have "concat (map (back_bond ?l) (links ?l)) = bonds c"
    using own(2) by (simp add: links_to_layered back_skip comp_def concat_map_single [where h = "\<lambda>x. x"])
  moreover have "concat (map (back_bridge ?l) (links ?l)) = bridges c"
    using own(3) by (simp add: links_to_layered back_skip comp_def concat_map_single [where h = "\<lambda>x. x"])
  moreover have "concat (map (back_vlan ?l) (links ?l)) = vlans c"
    using own(4) by (simp add: links_to_layered back_skip comp_def concat_map_single [where h = "\<lambda>x. x"])
  moreover have "concat (map (back_macvlan ?l) (links ?l)) = macvlans c"
    using own(5) by (simp add: links_to_layered back_skip comp_def concat_map_single [where h = "\<lambda>x. x"])
  ultimately show ?thesis
    by (simp add: from_layered_def) (simp add: to_layered_def)
qed

section \<open>Properties\<close>

text \<open>
  C17. \<open>validate\<close> accepts a layered configuration exactly when link names are unique, every
  member, parent and address refers to a declared link, no link has two masters, and the
  reference graph has no cycle.
\<close>

theorem validate_accepts_exactly: "validate c = Inr () \<longleftrightarrow> layered_ok c"
  by (rule validate_iff)

text \<open>
  C35. The recursion of the cycle search always ends within the fuel the model gives it: the
  validator returns a verdict of the source for every configuration.
\<close>

theorem validate_total: "validate c \<noteq> Inl OutOfFuel"
  by (rule validate_not_OutOfFuel)

text \<open>
  C18. Converting a flat configuration with unique link names to the layered shape and back
  gives it back unchanged, except that every bond or bridge member without an entry of its
  own has gained a bare, enabled interface entry at the end of the interface list.
\<close>

theorem layered_round_trip:
  "names_distinct c \<Longrightarrow>
     from_layered (to_layered c) =
       c\<lparr>interfaces := interfaces c @ map bare_iface (undeclared_members c)\<rparr>"
  by (rule from_layered_to_layered)

definition example_bridge :: BridgeConfig where
  "example_bridge =
     \<lparr>bridge_name = ''br0'', bridge_members = [''enp1s0''], bridge_ipv4 = inherit_ip,
      bridge_ipv6 = default_ip, bridge_mtu = None, bridge_stp = False,
      bridge_forward_delay_s = None, bridge_inherit_member_mac = True, bridge_dhcp_relay = None\<rparr>"

theorem layered_round_trip_witness:
  "names_distinct (default_network\<lparr>bridges := [example_bridge]\<rparr>) \<and>
   interfaces (from_layered (to_layered (default_network\<lparr>bridges := [example_bridge]\<rparr>))) =
     [bare_iface ''enp1s0'']"
proof -
  let ?c = "default_network\<lparr>bridges := [example_bridge]\<rparr>"
  have h: "names_distinct ?c"
    by (simp add: names_distinct_def declared_links_def default_network_def)
  have "undeclared_members ?c = [''enp1s0'']"
    by (simp add: undeclared_members_def synthesized_links_def declared_links_def default_network_def
        example_bridge_def bridge_link_def mk_link_def members_def)
  then have "interfaces ?c @ map bare_iface (undeclared_members ?c) = [bare_iface ''enp1s0'']"
    by (simp add: default_network_def)
  with h layered_round_trip [OF h] show ?thesis by simp
qed

lemma check_refs_missing:
  "check_refs names l = Inl (MissingMember n m) \<Longrightarrow> m \<in> set (members l) \<and> m \<notin> set names"
  by (cases "link_kind l")
    (auto simp: check_refs_def check_member_def members_def split: if_splits dest!: try_all_eq_Inl)

lemma not_MissingMember:
  "check_names ns ls \<noteq> Inl (MissingMember n m)"
  "check_address names a \<noteq> Inl (MissingMember n m)"
  "check_masters ms ps \<noteq> Inl (MissingMember n m)"
proof -
  show "check_names ns ls \<noteq> Inl (MissingMember n m)"
    by (induction ns ls rule: check_names.induct) auto
  show "check_address names a \<noteq> Inl (MissingMember n m)"
    by (simp add: check_address_def res_simps)
  show "check_masters ms ps \<noteq> Inl (MissingMember n m)"
    by (induction ms ps rule: check_masters.induct) (auto split: option.splits)
qed

lemma try_all_address_not_MissingMember:
  "try_all (check_address names) as \<noteq> Inl (MissingMember n m)"
proof
  assume "try_all (check_address names) as = Inl (MissingMember n m)"
  from try_all_eq_Inl [OF this] show False by (auto simp: not_MissingMember(2))
qed

lemma visit_not_MissingMember:
  "visit_for_cycles fuel G x color \<noteq> Inl (MissingMember n m)"
  "visit_deps fuel G xs color \<noteq> Inl (MissingMember n m)"
proof (induction fuel G x color and fuel G xs color rule: visit_for_cycles_visit_deps.induct)
  case (2 fuel G node color)
  then show ?case
    by (cases "color node") (auto simp: res_simps split: Color.splits)
next
  case (4 fuel G d ds color)
  then show ?case by (simp add: res_simps)
qed simp_all

lemma detect_cycles_not_MissingMember: "detect_cycles ls \<noteq> Inl (MissingMember n m)"
  unfolding detect_cycles_def
  using visit_not_MissingMember(2) [of "length ls + 1" "link_map ls" "map link_name ls" Map.empty n m]
  by (cases "visit_deps (length ls + 1) (link_map ls) (map link_name ls) Map.empty") auto

lemma validate_Inl:
  "validate c = Inl e \<Longrightarrow>
     check_names [] (links c) = Inl e \<or>
     (\<exists>names. check_names [] (links c) = Inr names \<and> try_all (check_refs names) (links c) = Inl e) \<or>
     (\<exists>names. try_all (check_address names) (addresses c) = Inl e) \<or>
     check_masters [] (member_pairs (links c)) = Inl e \<or> detect_cycles (links c) = Inl e"
  by (auto simp: validate_def res_bind_eq_Inl)

text \<open>
  A bond or bridge over a live NIC that has no entry of its own is never refused for a
  missing member: the conversion declares it.
\<close>

theorem members_never_missing: "validate (to_layered c) \<noteq> Inl (MissingMember n m)"
proof
  let ?ls = "links (to_layered c)"
  assume "validate (to_layered c) = Inl (MissingMember n m)"
  from validate_Inl [OF this] obtain names where names: "check_names [] ?ls = Inr names"
      "try_all (check_refs names) ?ls = Inl (MissingMember n m)"
    by (elim disjE exE conjE)
      (simp_all add: not_MissingMember detect_cycles_not_MissingMember try_all_address_not_MissingMember)
  then have "try_all (check_refs (rev (map link_name ?ls))) ?ls = Inl (MissingMember n m)"
    by (simp only: check_names_Inr append_Nil2)
  then obtain l where l: "l \<in> set ?ls" "check_refs (rev (map link_name ?ls)) l = Inl (MissingMember n m)"
    by (blast dest: try_all_eq_Inl)
  have "m \<in> set (members l)" "m \<notin> link_name ` set ?ls"
    using check_refs_missing [OF l(2)] by simp_all
  with members_declared_resolved [OF l(1)] show False by blast
qed

end
