(* ===== verification/Net_Std.thy ===== *)
theory Net_Std
  imports Prelude
begin

text \<open>
  The parts of Rust's \<open>std::net\<close> the code uses: the textual forms of \<open>Ipv4Addr\<close> and
  \<open>IpAddr\<close> as \<open>core::net::parser\<close> reads them, and the display form of an IPv4 address. A
  reader returns the value and the rest of the input; \<open>None\<close> consumes nothing.
\<close>

section \<open>Readers\<close>

fun read_digits :: "nat \<Rightarrow> nat \<Rightarrow> nat \<Rightarrow> nat \<Rightarrow> nat \<Rightarrow> string \<Rightarrow> (nat \<times> nat \<times> string) option" where
  "read_digits radix mx maxd acc cnt [] = Some (acc, cnt, [])"
| "read_digits radix mx maxd acc cnt (c # cs) =
     (case digit_val radix c of
        None \<Rightarrow> Some (acc, cnt, c # cs)
      | Some d \<Rightarrow>
          if mx < acc * radix + d \<or> maxd < Suc cnt then None
          else read_digits radix mx maxd (acc * radix + d) (Suc cnt) cs)"

definition read_number :: "nat \<Rightarrow> nat \<Rightarrow> nat \<Rightarrow> bool \<Rightarrow> string \<Rightarrow> (nat \<times> string) option" where
  "read_number radix mx maxd allow_zero_prefix s =
     (case read_digits radix mx maxd 0 0 s of
        None \<Rightarrow> None
      | Some (v, cnt, rest) \<Rightarrow>
          if cnt = 0 then None
          else if \<not> allow_zero_prefix \<and> hd s = CHR ''0'' \<and> 1 < cnt then None
          else Some (v, rest))"

definition read_octet :: "string \<Rightarrow> (nat \<times> string) option" where
  "read_octet = read_number 10 255 3 False"

definition read_char_then :: "char \<Rightarrow> (string \<Rightarrow> ('a \<times> string) option) \<Rightarrow> string \<Rightarrow> ('a \<times> string) option" where
  "read_char_then c p s =
     (case s of [] \<Rightarrow> None | x # xs \<Rightarrow> if x = c then p xs else None)"

definition read_ipv4_addr :: "string \<Rightarrow> ((nat \<times> nat \<times> nat \<times> nat) \<times> string) option" where
  "read_ipv4_addr s =
     Option.bind (read_octet s) (\<lambda>(a, s1).
     Option.bind (read_char_then CHR ''.'' read_octet s1) (\<lambda>(b, s2).
     Option.bind (read_char_then CHR ''.'' read_octet s2) (\<lambda>(c, s3).
     Option.bind (read_char_then CHR ''.'' read_octet s3) (\<lambda>(d, s4).
     Some ((a, b, c, d), s4)))))"

definition read_separator :: "nat \<Rightarrow> (string \<Rightarrow> ('a \<times> string) option) \<Rightarrow> string \<Rightarrow> ('a \<times> string) option" where
  "read_separator i p s = (if i = 0 then p s else read_char_then CHR '':'' p s)"

text \<open>
  \<open>read_groups i k s\<close> reads up to \<open>k\<close> more groups, the first with index \<open>i\<close>; a trailing
  IPv4 address counts as two and is tried where two groups are left.
\<close>

fun read_groups :: "nat \<Rightarrow> nat \<Rightarrow> string \<Rightarrow> nat list \<times> bool \<times> string" where
  "read_groups i 0 s = ([], False, s)"
| "read_groups i (Suc k) s =
     (case (if 0 < k then read_separator i read_ipv4_addr s else None) of
        Some ((a, b, c, d), rest) \<Rightarrow> ([a * 256 + b, c * 256 + d], True, rest)
      | None \<Rightarrow>
          (case read_separator i (read_number 16 65535 4 True) s of
             None \<Rightarrow> ([], False, s)
           | Some (g, rest) \<Rightarrow>
               (case read_groups (Suc i) k rest of (gs, v4, r) \<Rightarrow> (g # gs, v4, r))))"

definition read_tail :: "nat list \<Rightarrow> string \<Rightarrow> (nat list \<times> string) option" where
  "read_tail head rest =
     (case rest of
        x # y # rest' \<Rightarrow>
          if x = CHR '':'' \<and> y = CHR '':'' then
            (case read_groups 0 (8 - (length head + 1)) rest' of
               (tail, _, rest'') \<Rightarrow>
                 Some (head @ replicate (8 - length head - length tail) 0 @ tail, rest''))
          else None
      | _ \<Rightarrow> None)"

definition read_ipv6_addr :: "string \<Rightarrow> (nat list \<times> string) option" where
  "read_ipv6_addr s =
     (case read_groups 0 8 s of
        (head, v4, rest) \<Rightarrow>
          if length head = 8 then Some (head, rest)
          else if v4 then None
          else read_tail head rest)"

section \<open>Addresses\<close>

datatype IpAddr = IpV4 nat nat nat nat | IpV6 "nat list"

definition parse_ip :: "string \<Rightarrow> IpAddr option" where
  "parse_ip s =
     (case read_ipv4_addr s of
        Some ((a, b, c, d), rest) \<Rightarrow> if rest = [] then Some (IpV4 a b c d) else None
      | None \<Rightarrow>
          (case read_ipv6_addr s of
             Some (gs, rest) \<Rightarrow> if rest = [] then Some (IpV6 gs) else None
           | None \<Rightarrow> None))"

definition ipv4_word :: "nat \<times> nat \<times> nat \<times> nat \<Rightarrow> 32 word" where
  "ipv4_word q = (case q of (a, b, c, d) \<Rightarrow> of_nat (((a * 256 + b) * 256 + c) * 256 + d))"

definition parse_ipv4 :: "string \<Rightarrow> 32 word option" where
  "parse_ipv4 s =
     (if 15 < length s then None
      else case read_ipv4_addr s of
             Some (q, rest) \<Rightarrow> if rest = [] then Some (ipv4_word q) else None
           | None \<Rightarrow> None)"

definition octet :: "nat \<Rightarrow> 32 word \<Rightarrow> nat" where
  "octet i ip = unat ip div 2 ^ (24 - 8 * i) mod 256"

definition show_ipv4 :: "32 word \<Rightarrow> string" where
  "show_ipv4 ip =
     show_nat (octet 0 ip) @ ''.'' @ show_nat (octet 1 ip) @ ''.'' @
     show_nat (octet 2 ip) @ ''.'' @ show_nat (octet 3 ip)"

section \<open>What a parsed address consists of\<close>

definition ip_char :: "char \<Rightarrow> bool" where
  "ip_char c \<longleftrightarrow> is_ascii_hexdigit c \<or> c = CHR ''.'' \<or> c = CHR '':''"

definition eats :: "string \<Rightarrow> string \<Rightarrow> bool" where
  "eats s rest \<longleftrightarrow> (\<exists>p. s = p @ rest \<and> list_all ip_char p)"

lemma eats_refl [simp]: "eats s s"
  by (simp add: eats_def)

lemma eats_trans: "eats a b \<Longrightarrow> eats b c \<Longrightarrow> eats a c"
  by (auto simp: eats_def)

lemma eats_Cons: "ip_char c \<Longrightarrow> eats cs r \<Longrightarrow> eats (c # cs) r"
  unfolding eats_def by (metis append_Cons list.pred_inject(2))

lemma eats_Nil: "eats s [] \<longleftrightarrow> list_all ip_char s"
  by (simp add: eats_def)

lemma digit_val_ip_char: "digit_val radix c = Some d \<Longrightarrow> radix \<le> 16 \<Longrightarrow> ip_char c"
  by (auto simp: ip_char_def is_ascii_hexdigit_def digit_val_def Let_def split: if_splits)

lemma read_digits_eats:
  "read_digits radix mx maxd acc cnt s = Some (v, n, rest) \<Longrightarrow> radix \<le> 16 \<Longrightarrow> eats s rest"
  by (induction radix mx maxd acc cnt s rule: read_digits.induct)
    (auto split: option.splits if_splits intro: eats_Cons digit_val_ip_char)

lemma read_number_eats:
  "read_number radix mx maxd z s = Some (v, rest) \<Longrightarrow> radix \<le> 16 \<Longrightarrow> eats s rest"
  by (auto simp: read_number_def split: option.splits if_splits intro: read_digits_eats)

lemma read_octet_eats: "read_octet s = Some (v, rest) \<Longrightarrow> eats s rest"
  by (auto simp: read_octet_def intro: read_number_eats)

lemma read_char_then_eats:
  "read_char_then c p s = Some (v, rest) \<Longrightarrow> ip_char c \<Longrightarrow>
     (\<And>s v rest. p s = Some (v, rest) \<Longrightarrow> eats s rest) \<Longrightarrow> eats s rest"
  by (auto simp: read_char_then_def split: list.splits if_splits intro: eats_Cons)

lemma ip_char_sep [simp]: "ip_char CHR ''.''" "ip_char CHR '':''"
  by (simp_all add: ip_char_def)

lemma read_dot_octet_eats: "read_char_then CHR ''.'' read_octet s = Some (v, rest) \<Longrightarrow> eats s rest"
  by (erule read_char_then_eats) (auto intro: read_octet_eats)

lemma read_ipv4_addr_eats:
  assumes "read_ipv4_addr s = Some (q, rest)"
  shows "eats s rest"
proof -
  obtain a s1 b s2 c s3 d where
    "read_octet s = Some (a, s1)" "read_char_then CHR ''.'' read_octet s1 = Some (b, s2)"
    "read_char_then CHR ''.'' read_octet s2 = Some (c, s3)"
    "read_char_then CHR ''.'' read_octet s3 = Some (d, rest)"
    using assms by (auto simp: read_ipv4_addr_def bind_eq_Some_conv)
  then have "eats s s1" "eats s1 s2" "eats s2 s3" "eats s3 rest"
    by (auto intro: read_octet_eats read_dot_octet_eats)
  then show ?thesis by (meson eats_trans)
qed

lemma read_separator_eats:
  "read_separator i p s = Some (v, rest) \<Longrightarrow>
     (\<And>s v rest. p s = Some (v, rest) \<Longrightarrow> eats s rest) \<Longrightarrow> eats s rest"
  by (auto simp: read_separator_def split: if_splits intro: read_char_then_eats)

lemma read_groups_length: "length (fst (read_groups i k s)) \<le> k"
proof (induction i k s rule: read_groups.induct)
  case (2 i k s)
  show ?case
  proof (cases "if 0 < k then read_separator i read_ipv4_addr s else None")
    case None
    then show ?thesis using 2 by (auto split: option.splits prod.splits)
  next
    case (Some r)
    moreover from Some have "0 < k" by (auto split: if_splits)
    ultimately show ?thesis by (auto split: prod.splits)
  qed
qed simp

lemma read_tail_length:
  assumes "read_tail h r = Some (gs, rest)" "length h < 8"
  shows "length gs = 8"
proof -
  obtain x t v where g: "read_groups 0 (8 - (length h + 1)) x = (t, v, rest)"
    and gs: "gs = h @ replicate (8 - length h - length t) 0 @ t"
    using assms(1) by (auto simp: read_tail_def split: if_splits list.splits prod.splits)
  have "length t \<le> 8 - (length h + 1)" using read_groups_length [of 0 "8 - (length h + 1)" x] g by simp
  then show ?thesis using gs assms(2) by simp
qed

lemma read_ipv6_addr_length:
  assumes "read_ipv6_addr s = Some (gs, rest)"
  shows "length gs = 8"
proof -
  obtain h v r where h: "read_groups 0 8 s = (h, v, r)" by (cases "read_groups 0 8 s")
  have "length h \<le> 8" using read_groups_length [of 0 8 s] h by simp
  then show ?thesis
    using assms h read_tail_length [of h r gs rest] by (auto simp: read_ipv6_addr_def split: if_splits)
qed

lemma read_groups_eats: "read_groups i k s = (gs, v4, rest) \<Longrightarrow> eats s rest"
proof (induction i k s arbitrary: gs v4 rest rule: read_groups.induct)
  case (2 i k s)
  have v4: "eats s r" if "read_separator i read_ipv4_addr s = Some (q, r)" for q r
    using that by (rule read_separator_eats) (rule read_ipv4_addr_eats)
  have num: "eats s r" if "read_separator i (read_number 16 65535 4 True) s = Some (g, r)" for g r
    using that by (rule read_separator_eats) (auto intro: read_number_eats)
  show ?case
  proof (cases "if 0 < k then read_separator i read_ipv4_addr s else None")
    case None
    show ?thesis
    proof (cases "read_separator i (read_number 16 65535 4 True) s")
      case (Some gr)
      obtain g r where gr: "gr = (g, r)" by (cases gr)
      obtain gs' v r' where rec: "read_groups (Suc i) k r = (gs', v, r')"
        by (cases "read_groups (Suc i) k r")
      with "2.IH" None Some gr have "eats r r'" by blast
      moreover have "r' = rest" using "2.prems" None Some gr rec by simp
      ultimately show ?thesis using num Some gr eats_trans by metis
    qed (use "2.prems" None in simp)
  next
    case (Some qr)
    obtain a b c d r where qr: "qr = ((a, b, c, d), r)" by (metis prod.exhaust)
    with Some have "eats s r" by (auto split: if_splits intro: v4)
    moreover have "r = rest" using "2.prems" Some qr by simp
    ultimately show ?thesis by simp
  qed
qed simp

lemma read_tail_eats: "read_tail head s = Some (gs, rest) \<Longrightarrow> eats s rest"
  by (auto simp: read_tail_def split: list.splits if_splits prod.splits
      dest!: read_groups_eats intro!: eats_Cons)

lemma read_ipv6_addr_eats: "read_ipv6_addr s = Some (gs, rest) \<Longrightarrow> eats s rest"
  unfolding read_ipv6_addr_def
  by (auto split: prod.splits if_splits dest!: read_groups_eats read_tail_eats intro: eats_trans)

lemma parse_ip_chars: "parse_ip s = Some ip \<Longrightarrow> list_all ip_char s"
  unfolding eats_Nil [symmetric] parse_ip_def
  by (auto split: option.splits if_splits dest: read_ipv4_addr_eats read_ipv6_addr_eats)

lemma parse_ipv4_chars: "parse_ipv4 s = Some ip \<Longrightarrow> list_all ip_char s"
  unfolding eats_Nil [symmetric] parse_ipv4_def
  by (auto split: option.splits if_splits dest: read_ipv4_addr_eats)

section \<open>Display and parse of an IPv4 address\<close>

lemma digit_val_digit: "is_ascii_digit c \<Longrightarrow> digit_val 10 c = Some (byte c - 48)"
  by (auto simp: is_ascii_digit_def digit_val_def Let_def)

lemma digits_value_ge: "acc \<le> digits_value acc ds"
proof (induction ds arbitrary: acc)
  case (Cons d ds)
  then have "acc * 10 + (byte d - 48) \<le> digits_value acc (d # ds)" by simp
  then show ?case by linarith
qed simp

definition not_digit_first :: "string \<Rightarrow> bool" where
  "not_digit_first s \<longleftrightarrow> (case s of [] \<Rightarrow> True | c # _ \<Rightarrow> digit_val 10 c = None)"

lemma read_digits_all:
  "list_all is_ascii_digit ds \<Longrightarrow> not_digit_first rest \<Longrightarrow> digits_value acc ds \<le> mx \<Longrightarrow> cnt + length ds \<le> maxd \<Longrightarrow>
     read_digits 10 mx maxd acc cnt (ds @ rest) = Some (digits_value acc ds, cnt + length ds, rest)"
proof (induction ds arbitrary: acc cnt)
  case Nil
  then show ?case by (cases rest) (auto simp: not_digit_first_def)
next
  case (Cons d ds)
  have "acc * 10 + (byte d - 48) \<le> mx" using Cons.prems(3) digits_value_ge order_trans by fastforce
  then show ?case using Cons by (simp add: digit_val_digit)
qed

lemma length_show_nat: "n < 10 ^ k \<Longrightarrow> 0 < k \<Longrightarrow> length (show_nat n) \<le> k"
proof (induction n arbitrary: k rule: show_nat.induct)
  case (1 n)
  show ?case
  proof (cases "n < 10")
    case True
    then show ?thesis using 1(3) by (subst show_nat.simps) simp
  next
    case False
    have "k \<noteq> 1" using 1(2) False by auto
    then obtain j where k: "k = Suc j" "0 < j" using 1(3) by (cases k) auto
    then have "n div 10 < 10 ^ j" using 1(2) by (simp add: less_mult_imp_div_less mult.commute)
    then show ?thesis using 1(1) [OF False _ k(2)] False k(1) by (subst show_nat.simps) simp
  qed
qed

lemma hd_show_nat: "hd (show_nat n) = CHR ''0'' \<Longrightarrow> n = 0"
proof (induction n rule: show_nat.induct)
  case (1 n)
  show ?case
  proof (cases "n < 10")
    case True
    then have "byte (hd (show_nat n)) = 48 + n" by (subst show_nat.simps) simp
    then show ?thesis using 1(2) by (simp add: byte_def)
  next
    case False
    then have "hd (show_nat n) = hd (show_nat (n div 10))" by (subst show_nat.simps) (simp add: hd_append)
    then have "n div 10 = 0" using 1 False by simp
    then show ?thesis using False by simp
  qed
qed

lemma read_octet_show: "n < 256 \<Longrightarrow> not_digit_first rest \<Longrightarrow> read_octet (show_nat n @ rest) = Some (n, rest)"
proof -
  assume n: "n < 256" "not_digit_first rest"
  have l: "length (show_nat n) \<le> 3" using n(1) length_show_nat [of n 3] by simp
  then have r: "read_digits 10 255 3 0 0 (show_nat n @ rest) = Some (n, length (show_nat n), rest)"
    using read_digits_all [OF show_nat_digits n(2), of 0 n 255 0 3] n(1) by (simp add: digits_value_show_nat)
  have "\<not> (hd (show_nat n @ rest) = CHR ''0'' \<and> 1 < length (show_nat n))"
    using hd_show_nat [of n] by (auto simp: show_nat.simps [of 0])
  then show ?thesis using r by (simp add: read_octet_def read_number_def)
qed

lemma not_digit_first_simps [simp]: "not_digit_first []" "not_digit_first (CHR ''.'' # s)"
  by (simp_all add: not_digit_first_def digit_val_def byte_def is_ascii_digit_def Let_def)

lemma word_nat_cast_inverse: "of_nat (unat w) = w"
  by simp

lemma ipv4_word_octets: "ipv4_word (octet 0 ip, octet 1 ip, octet 2 ip, octet 3 ip) = ip"
proof -
  let ?n = "unat ip"
  have "?n < 2 ^ 32" using unsigned_less [of ip] by simp
  then have "?n div 2 ^ 24 mod 256 = ?n div 2 ^ 24" by (simp add: less_mult_imp_div_less)
  moreover have "?n div 2 ^ 24 * 256 + ?n div 2 ^ 16 mod 256 = ?n div 2 ^ 16"
    using div_mult_mod_eq [of "?n div 2 ^ 16" 256] by (simp add: div_mult2_eq [symmetric])
  moreover have "?n div 2 ^ 16 * 256 + ?n div 2 ^ 8 mod 256 = ?n div 2 ^ 8"
    using div_mult_mod_eq [of "?n div 2 ^ 8" 256] by (simp add: div_mult2_eq [symmetric])
  moreover have "?n div 2 ^ 8 * 256 + ?n mod 256 = ?n" by simp
  ultimately have "((octet 0 ip * 256 + octet 1 ip) * 256 + octet 2 ip) * 256 + octet 3 ip = ?n"
    by (simp add: octet_def)
  then show ?thesis unfolding ipv4_word_def prod.case by (simp only: word_nat_cast_inverse)
qed

lemma octet_less: "octet i ip < 256"
  by (simp add: octet_def)

lemma parse_ipv4_show: "parse_ipv4 (show_ipv4 ip) = Some ip"
proof -
  have "length (show_nat (octet i ip)) \<le> 3" for i
    using length_show_nat [of "octet i ip" 3] octet_less [of i ip] by simp
  note l = this [of 0] this [of 1] this [of 2] this [of 3]
  have "\<not> 15 < length (show_ipv4 ip)" using l by (simp add: show_ipv4_def)
  moreover have "read_ipv4_addr (show_ipv4 ip) = Some ((octet 0 ip, octet 1 ip, octet 2 ip, octet 3 ip), [])"
    using read_octet_show [OF octet_less, of "[]" 3 ip]
    by (simp add: show_ipv4_def read_ipv4_addr_def read_octet_show octet_less read_char_then_def)
  ultimately show ?thesis using ipv4_word_octets [of ip] by (simp add: parse_ipv4_def)
qed

text \<open>Evaluation of the readers on literals by the simplifier.\<close>

lemmas eval_ip = parse_ip_def parse_ipv4_def read_ipv4_addr_def read_octet_def read_number_def
  read_char_then_def ipv4_word_def digit_val_def byte_def split_once_def parse_uint_def
  is_ascii_digit_def is_ascii_alphabetic_def is_ascii_alphanumeric_def octet_def

end
