(* ===== verification/Dhcp_Relay.thy ===== *)
theory Dhcp_Relay
  imports Network_Types Net_Std
begin

unbundle bit_operations_syntax

text \<open>
  The managed DHCPv4 relay of \<open>nasty-system/src/network/dhcp_relay.rs\<close>: which bridge
  configurations a relay may run on, the dnsmasq configuration and firewall commands
  rendered for them, and the reconciliation of the daemon and the \<open>dhcp_relay\<close> chain with
  them.
\<close>

section \<open>Addresses and subnets\<close>

definition relay_name_char :: "char \<Rightarrow> bool" where
  "relay_name_char c \<longleftrightarrow> is_ascii_alphanumeric c \<or> c \<in> set ''_-.:''"

definition interface_name :: "string \<Rightarrow> bool" where
  "interface_name n \<longleftrightarrow> n \<noteq> [] \<and> length n \<le> 15 \<and> list_all relay_name_char n"

definition unicast :: "u32 \<Rightarrow> bool" where
  "unicast ip \<longleftrightarrow>
     ip \<noteq> 0 \<and> octet 0 ip \<noteq> 127 \<and> \<not> (224 \<le> octet 0 ip \<and> octet 0 ip \<le> 239) \<and> ip \<noteq> - 1 \<and>
     \<not> (octet 0 ip = 169 \<and> octet 1 ip = 254) \<and> 1 \<le> octet 0 ip \<and> octet 0 ip < 224"

datatype RelayError =
    NeedsPrefix
  | NotIpv4
  | InvalidPrefix
  | InvalidIpv4Prefix
  | PrefixRange
  | NotUsableHost
  | BadNames
  | HasMembers string
  | NotOneStaticAddress
  | ServerNotOutside
  | SubnetsOverlap
  | OverlapsAddress string
  | UpstreamNotStandalone string

text \<open>\<open>u32::MAX.checked_shl(32 - prefix).unwrap_or(0)\<close>\<close>

definition prefix_mask :: "nat \<Rightarrow> u32" where
  "prefix_mask p = (if 32 - p < 32 then push_bit (32 - p) (- 1) else 0)"

lemma prefix_mask_code [code]: "prefix_mask p = (if 32 - p < 32 then - (2 ^ (32 - p)) else 0)"
  by (simp add: prefix_mask_def push_bit_eq_mult)

definition cidr_parts :: "string \<Rightarrow> RelayError + (u32 \<times> u32 \<times> u32 \<times> nat)" where
  "cidr_parts cidr =
     (case split_once CHR ''/'' cidr of
        None \<Rightarrow> Inl NeedsPrefix
      | Some (address, prefix) \<Rightarrow>
          (case parse_ipv4 address of
             None \<Rightarrow> Inl NotIpv4
           | Some ip \<Rightarrow>
               (case parse_uint 255 prefix of
                  None \<Rightarrow> Inl InvalidPrefix
                | Some p \<Rightarrow>
                    if 32 < p then Inl InvalidIpv4Prefix
                    else Inr (ip, ip AND prefix_mask p, prefix_mask p, p))))"

definition subnet :: "string \<Rightarrow> RelayError + (u32 \<times> u32 \<times> u32)" where
  "subnet cidr =
     res_bind (cidr_parts cidr) (\<lambda>(ip, network, msk, p).
       if \<not> (1 \<le> p \<and> p \<le> 30) then Inl PrefixRange
       else if \<not> unicast ip \<or> ip = network \<or> ip = network OR NOT msk then Inl NotUsableHost
       else Inr (ip, network, msk))"

section \<open>Rendering\<close>

text \<open>The test the code makes for two subnets that share an address.\<close>

definition overlaps :: "u32 \<Rightarrow> u32 \<Rightarrow> u32 \<times> u32 \<Rightarrow> bool" where
  "overlaps network msk other \<longleftrightarrow>
     network AND snd other = fst other \<or> fst other AND msk = network"

definition other_cidrs :: "NetworkConfig \<Rightarrow> BridgeConfig \<Rightarrow> string list" where
  "other_cidrs c b =
     concat (map (\<lambda>i. ip_addresses (if_ipv4 i)) (interfaces c)) @
     concat (map (\<lambda>b. ip_addresses (bond_ipv4 b)) (bonds c)) @
     concat (map (\<lambda>v. ip_addresses (vlan_ipv4 v)) (vlans c)) @
     concat (map (\<lambda>b'. ip_addresses (bridge_ipv4 b'))
       (filter (\<lambda>b'. bridge_name b' \<noteq> bridge_name b) (bridges c)))"

definition check_other_cidr :: "u32 \<Rightarrow> u32 \<Rightarrow> string \<Rightarrow> RelayError + unit" where
  "check_other_cidr network msk cidr =
     (case cidr_parts cidr of
        Inl _ \<Rightarrow> Inr ()
      | Inr (_, other_network, other_mask, _) \<Rightarrow>
          guard (\<not> overlaps network msk (other_network, other_mask)) (OverlapsAddress cidr))"

definition check_relay ::
  "NetworkConfig \<Rightarrow> (u32 \<times> u32) list \<Rightarrow> BridgeConfig \<Rightarrow> DhcpRelayConfig \<Rightarrow>
   RelayError + (u32 \<times> u32 \<times> u32)" where
  "check_relay c subnets b relay =
     (if \<not> interface_name (bridge_name b) \<or> \<not> interface_name (relay_upstream relay) \<or>
         bridge_name b = relay_upstream relay
      then Inl BadNames
      else if bridge_members b \<noteq> [] then Inl (HasMembers (bridge_name b))
      else case ip_addresses (bridge_ipv4 b) of
             [cidr] \<Rightarrow>
               if ip_method (bridge_ipv4 b) \<noteq> Static \<or> ip_gateway (bridge_ipv4 b) \<noteq> None
               then Inl NotOneStaticAddress
               else res_bind (subnet cidr) (\<lambda>(local, network, msk).
                 if \<not> unicast (relay_server relay) \<or> relay_server relay AND msk = network
                 then Inl ServerNotOutside
                 else if list_ex (overlaps network msk) subnets then Inl SubnetsOverlap
                 else res_bind (try_all (check_other_cidr network msk) (other_cidrs c b))
                        (\<lambda>_. Inr (local, network, msk)))
           | _ \<Rightarrow> Inl NotOneStaticAddress)"

definition newline :: string where
  "newline = [CHR 0x0A]"

definition quote :: "string \<Rightarrow> string" where
  "quote s = CHR 0x22 # s @ [CHR 0x22]"

definition conf_lines :: "BridgeConfig \<Rightarrow> DhcpRelayConfig \<Rightarrow> u32 \<Rightarrow> string" where
  "conf_lines b relay local =
     ''interface='' @ bridge_name b @ newline @
     ''dhcp-relay='' @ show_ipv4 local @ '','' @ show_ipv4 (relay_server relay) @ '','' @
     relay_upstream relay @ newline"

definition rule_lines :: "BridgeConfig \<Rightarrow> DhcpRelayConfig \<Rightarrow> string" where
  "rule_lines b relay =
     ''add rule inet nasty dhcp_relay iifname '' @ quote (bridge_name b) @
       '' udp sport 68 udp dport 67 accept'' @ newline @
     ''add rule inet nasty dhcp_relay iifname '' @ quote (relay_upstream relay) @
       '' ip saddr '' @ show_ipv4 (relay_server relay) @
       '' udp sport 67 udp dport 67 accept'' @ newline"

fun render_loop ::
  "NetworkConfig \<Rightarrow> string \<Rightarrow> string \<Rightarrow> (u32 \<times> u32) list \<Rightarrow> BridgeConfig list \<Rightarrow>
   RelayError + (string \<times> string)" where
  "render_loop c conf rules subnets [] = Inr (conf, rules)"
| "render_loop c conf rules subnets (b # bs) =
     (case bridge_dhcp_relay b of
        None \<Rightarrow> render_loop c conf rules subnets bs
      | Some relay \<Rightarrow>
          res_bind (check_relay c subnets b relay) (\<lambda>(local, network, msk).
            render_loop c (conf @ conf_lines b relay local) (rules @ rule_lines b relay)
              (subnets @ [(network, msk)]) bs))"

definition conf_head :: string where
  "conf_head = ''port=0'' @ newline @ ''bind-dynamic'' @ newline @ ''log-dhcp'' @ newline"

definition render :: "NetworkConfig \<Rightarrow> RelayError + (string \<times> string)" where
  "render c =
     res_bind (render_loop c conf_head [] [] (bridges c)) (\<lambda>(conf, rules).
       Inr (if rules = [] then [] else conf, rules))"

definition validate_upstreams :: "NetworkConfig \<Rightarrow> string list \<Rightarrow> RelayError + unit" where
  "validate_upstreams c live =
     try_all (\<lambda>b.
       case bridge_dhcp_relay b of
         None \<Rightarrow> Inr ()
       | Some relay \<Rightarrow>
           guard
             (\<not> (relay_upstream relay \<notin> set live \<or>
                  list_ex (\<lambda>b'. bridge_name b' = relay_upstream relay \<or>
                               relay_upstream relay \<in> set (bridge_members b')) (bridges c) \<or>
                  list_ex (\<lambda>b'. relay_upstream relay \<in> set (bond_members b')) (bonds c)))
             (UpstreamNotStandalone (relay_upstream relay)))
       (bridges c)"

section \<open>Reconciliation\<close>

text \<open>
  The artifacts of the relay: the dnsmasq configuration and the persisted firewall policy
  (absent or with contents), the rules in the live \<open>dhcp_relay\<close> chain, and the daemon. A
  failed external call changes nothing: \<open>nft\<close> applies a batch as one transaction and a
  file is replaced by renaming.
\<close>

record relay_world =
  conf_file :: "string option"
  policy_file :: "string option"
  chain_rules :: string
  daemon :: bool
  calls :: nat

datatype ReconcileError =
    RenderFailed RelayError
  | IoFailed string
  | NoForwarding
  | NotRouted u32 string
  | MissingAddress string string

type_synonym 'a relay_io = "(relay_world, ReconcileError, 'a) io"

definition call :: "outcomes \<Rightarrow> (relay_world \<Rightarrow> relay_world) \<Rightarrow> unit relay_io" where
  "call out f w =
     (case out (calls w) of
        Some e \<Rightarrow> (Inl (IoFailed e), w\<lparr>calls := Suc (calls w)\<rparr>)
      | None \<Rightarrow> (Inr (), (f w)\<lparr>calls := Suc (calls w)\<rparr>))"

definition contents :: "string option \<Rightarrow> string" where
  "contents f = (case f of None \<Rightarrow> [] | Some s \<Rightarrow> s)"

definition policy :: "outcomes \<Rightarrow> string relay_io" where
  "policy out = io_bind (call out id) (\<lambda>_. io_get (\<lambda>w. contents (policy_file w)))"

definition systemctl :: "outcomes \<Rightarrow> bool \<Rightarrow> unit relay_io" where
  "systemctl out running = call out (\<lambda>w. w\<lparr>daemon := running\<rparr>)"

definition write_policy :: "outcomes \<Rightarrow> string \<Rightarrow> unit relay_io" where
  "write_policy out s = call out (\<lambda>w. w\<lparr>policy_file := Some s\<rparr>)"

definition nft_chain :: "outcomes \<Rightarrow> string \<Rightarrow> unit relay_io" where
  "nft_chain out rules = call out (\<lambda>w. w\<lparr>chain_rules := rules\<rparr>)"

text \<open>
  What one look at the running system reports: the forwarding switch (absent when it cannot be
  read), the routes \<open>ip route get\<close> gives for a server and the local addresses \<open>ip addr show\<close> gives
  for a device, each with the success of the command, absent when its output is no JSON list. A
  route is its device and its type.
\<close>

record runtime =
  rt_forward :: "string option"
  rt_route :: "u32 \<Rightarrow> (bool \<times> (string option \<times> string option) list) option"
  rt_addr :: "string \<Rightarrow> (bool \<times> string list) option"

definition validate_relay_runtime :: "runtime \<Rightarrow> BridgeConfig \<Rightarrow> ReconcileError + unit" where
  "validate_relay_runtime rt b =
     (case bridge_dhcp_relay b of
        None \<Rightarrow> Inr ()
      | Some r \<Rightarrow>
          res_bind
            (case rt_route rt (relay_server r) of
               None \<Rightarrow> Inl (IoFailed ''DHCP server route lookup failed'')
             | Some (success, routes) \<Rightarrow>
                 guard (success \<and> list_ex (\<lambda>(dev, ty). dev = Some (relay_upstream r) \<and> ty \<noteq> Some ''local'') routes)
                   (NotRouted (relay_server r) (relay_upstream r))) (\<lambda>_.
          let local' = hd (split_char CHR ''/'' (hd (ip_addresses (bridge_ipv4 b)))) in
          case rt_addr rt (bridge_name b) of
            None \<Rightarrow> Inl (IoFailed ''DHCP relay bridge is not active'')
          | Some (success, addrs) \<Rightarrow>
              guard (success \<and> local' \<in> set addrs) (MissingAddress (bridge_name b) local')))"

definition validate_runtime :: "NetworkConfig \<Rightarrow> runtime \<Rightarrow> ReconcileError + unit" where
  "validate_runtime c rt =
     res_bind
       (if list_ex (\<lambda>b. bridge_dhcp_relay b \<noteq> None) (bridges c)
        then (case rt_forward rt of
                None \<Rightarrow> Inl (IoFailed ''read IPv4 forwarding state'')
              | Some s \<Rightarrow> guard (trim s = ''1'') NoForwarding)
        else Inr ())
       (\<lambda>_. try_all (validate_relay_runtime rt) (bridges c))"

text \<open>
  The wait with its deadline: \<open>rts\<close> is what each attempt sees, the last one the attempt after
  which the deadline has passed; there is at least one attempt.
\<close>

fun wait_runtime :: "NetworkConfig \<Rightarrow> runtime \<Rightarrow> runtime list \<Rightarrow> ReconcileError + unit" where
  "wait_runtime c rt [] = validate_runtime c rt"
| "wait_runtime c rt (rt' # rts) =
     (case validate_runtime c rt of Inr _ \<Rightarrow> Inr () | Inl _ \<Rightarrow> wait_runtime c rt' rts)"

type_synonym probes = "runtime \<times> runtime list"

definition deploy :: "outcomes \<Rightarrow> probes \<Rightarrow> NetworkConfig \<Rightarrow> string \<Rightarrow> string \<Rightarrow> string \<Rightarrow> unit relay_io" where
  "deploy out rts c old conf rules =
     io_bind (if conf \<noteq> old \<or> conf = [] then systemctl out False else io_return ()) (\<lambda>_.
     io_bind (io_lift (wait_runtime c (fst rts) (snd rts))) (\<lambda>_.
     io_bind (call out id) (\<lambda>_.
     io_bind (nft_chain out rules) (\<lambda>_.
     io_bind (write_policy out rules) (\<lambda>_.
     io_bind (call out (\<lambda>w. w\<lparr>conf_file := Some conf\<rparr>)) (\<lambda>_.
     if conf \<noteq> [] then systemctl out True else io_return ()))))))"

definition reconcile_locked :: "outcomes \<Rightarrow> probes \<Rightarrow> NetworkConfig \<Rightarrow> string \<Rightarrow> string \<Rightarrow> unit relay_io" where
  "reconcile_locked out rts c conf rules =
     io_bind (io_bind (call out id) (\<lambda>_. io_get (\<lambda>w. contents (conf_file w)))) (\<lambda>old.
     if conf = [] \<and> old = [] then
       io_bind (policy out) (\<lambda>p.
         if p = [] then io_return () else deploy out rts c old conf rules)
     else deploy out rts c old conf rules)"

definition ignore :: "unit relay_io \<Rightarrow> unit relay_io" where
  "ignore m = io_case m (\<lambda>_. io_return ()) (\<lambda>_. io_return ())"

definition cleanup :: "outcomes \<Rightarrow> unit relay_io" where
  "cleanup out =
     io_bind (ignore (systemctl out False)) (\<lambda>_.
     io_bind (ignore (nft_chain out [])) (\<lambda>_.
     ignore (write_policy out [])))"

definition reconcile :: "outcomes \<Rightarrow> probes \<Rightarrow> NetworkConfig \<Rightarrow> unit relay_io" where
  "reconcile out rts c =
     (case render c of
        Inl e \<Rightarrow> io_fail (RenderFailed e)
      | Inr (conf, rules) \<Rightarrow>
          io_case (reconcile_locked out rts c conf rules)
            (\<lambda>e. io_bind (cleanup out) (\<lambda>_. io_fail e))
            io_return)"

section \<open>Subnets as sets of addresses\<close>

definition addr_set :: "u32 \<times> u32 \<Rightarrow> u32 set" where
  "addr_set s = {x. x AND snd s = fst s}"

definition is_subnet :: "u32 \<times> u32 \<Rightarrow> bool" where
  "is_subnet s \<longleftrightarrow> (\<exists>p\<le>32. snd s = prefix_mask p) \<and> fst s AND snd s = fst s"

lemma bit_prefix_mask: "bit (prefix_mask p) n \<longleftrightarrow> n < 32 \<and> 32 - p \<le> n"
  by (auto simp: prefix_mask_def bit_not_iff bit_mask_iff not_le)

lemma prefix_mask_nested: "p \<le> q \<Longrightarrow> prefix_mask p AND prefix_mask q = prefix_mask p"
  by (rule bit_eqI) (auto simp: bit_and_iff bit_prefix_mask)

text \<open>The overlap test finds every pair of subnets that share an address.\<close>

lemma overlaps_complete:
  assumes "is_subnet (n, m)" "is_subnet s" "x \<in> addr_set (n, m)" "x \<in> addr_set s"
  shows "overlaps n m s"
proof -
  obtain n' m' where s: "s = (n', m')" by (cases s)
  obtain p q where pq: "m = prefix_mask p" "m' = prefix_mask q"
    using assms(1,2) s by (auto simp: is_subnet_def)
  have x: "x AND m = n" "x AND m' = n'"
    using assms(3,4) s by (simp_all add: addr_set_def)
  show ?thesis
  proof (cases "p \<le> q")
    case True
    then have "m' AND m = m" using prefix_mask_nested pq by (simp add: and.commute)
    then have "n' AND m = n" using x by (metis and.assoc)
    then show ?thesis by (simp add: overlaps_def s)
  next
    case False
    then have "m AND m' = m'" using prefix_mask_nested [of q p] pq by (simp add: and.commute)
    then have "n AND m' = n'" using x by (metis and.assoc)
    then show ?thesis by (simp add: overlaps_def s)
  qed
qed

lemma cidr_parts_subnet:
  "cidr_parts cidr = Inr (ip, n, m, p) \<Longrightarrow> is_subnet (n, m) \<and> ip \<in> addr_set (n, m)"
  by (auto simp: cidr_parts_def is_subnet_def addr_set_def and.assoc not_less
      split: option.splits if_splits prod.splits)

lemma subnet_Inr:
  assumes "subnet cidr = Inr (ip, n, m)"
  shows "is_subnet (n, m)" "ip \<in> addr_set (n, m)" "unicast ip" "ip \<noteq> n" "ip \<noteq> n OR NOT m"
  using assms cidr_parts_subnet [of cidr]
  by (auto simp: subnet_def res_simps split: if_splits)

section \<open>Accepted relays\<close>

definition relay_bridges :: "BridgeConfig list \<Rightarrow> BridgeConfig list" where
  "relay_bridges bs = filter (\<lambda>b. bridge_dhcp_relay b \<noteq> None) bs"

definition the_relay :: "BridgeConfig \<Rightarrow> DhcpRelayConfig" where
  "the_relay b = the (bridge_dhcp_relay b)"

definition guest_net :: "BridgeConfig \<Rightarrow> (u32 \<times> u32 \<times> u32) option" where
  "guest_net b =
     (case ip_addresses (bridge_ipv4 b) of
        [cidr] \<Rightarrow> (case subnet cidr of Inl _ \<Rightarrow> None | Inr t \<Rightarrow> Some t)
      | _ \<Rightarrow> None)"

definition guest_addrs :: "BridgeConfig \<Rightarrow> u32 set" where
  "guest_addrs b = (case guest_net b of None \<Rightarrow> {} | Some (_, n, m) \<Rightarrow> addr_set (n, m))"

text \<open>
  What a relay bridge must be: valid distinct names, no members, one usable static address in
  its guest subnet, a unicast server outside of it, and no other configured address whose
  subnet shares an address with it.
\<close>

definition relay_ok :: "NetworkConfig \<Rightarrow> BridgeConfig \<Rightarrow> bool" where
  "relay_ok c b \<longleftrightarrow>
     interface_name (bridge_name b) \<and> interface_name (relay_upstream (the_relay b)) \<and>
     bridge_name b \<noteq> relay_upstream (the_relay b) \<and> bridge_members b = [] \<and>
     ip_method (bridge_ipv4 b) = Static \<and> ip_gateway (bridge_ipv4 b) = None \<and>
     (\<exists>ip n m. guest_net b = Some (ip, n, m) \<and> ip \<in> guest_addrs b \<and> unicast ip \<and>
        ip \<noteq> n \<and> ip \<noteq> n OR NOT m) \<and>
     unicast (relay_server (the_relay b)) \<and> relay_server (the_relay b) \<notin> guest_addrs b \<and>
     (\<forall>cidr\<in>set (other_cidrs c b). \<forall>ip n m p. cidr_parts cidr = Inr (ip, n, m, p) \<longrightarrow>
        guest_addrs b \<inter> addr_set (n, m) = {})"

lemma check_other_cidr_Inr:
  assumes "check_other_cidr n m cidr = Inr ()" "is_subnet (n, m)" "cidr_parts cidr = Inr (ip, n', m', p)"
  shows "addr_set (n, m) \<inter> addr_set (n', m') = {}"
  using assms cidr_parts_subnet [OF assms(3)] overlaps_complete [of n m "(n', m')"]
  by (auto simp: check_other_cidr_def res_simps)

lemma check_relay_Inr:
  assumes chk: "check_relay c subs b r = Inr (ip, n, m)" and r: "bridge_dhcp_relay b = Some r"
  shows "guest_net b = Some (ip, n, m)" "is_subnet (n, m)" "relay_ok c b"
    "\<not> list_ex (overlaps n m) subs"
proof -
  obtain cidr where a: "ip_addresses (bridge_ipv4 b) = [cidr]"
    using chk by (auto simp: check_relay_def split: if_splits list.splits)
  have sn: "subnet cidr = Inr (ip, n, m)"
    using chk a by (auto simp: check_relay_def res_simps split: if_splits)
  have oth: "\<forall>cidr\<in>set (other_cidrs c b). check_other_cidr n m cidr = Inr ()"
    using chk a sn by (auto simp: check_relay_def res_simps split: if_splits)
  show gn: "guest_net b = Some (ip, n, m)" by (simp add: guest_net_def a sn)
  then have ga: "guest_addrs b = addr_set (n, m)" by (simp add: guest_addrs_def)
  show isn: "is_subnet (n, m)" using subnet_Inr(1) [OF sn] .
  show "\<not> list_ex (overlaps n m) subs"
    using chk a sn by (auto simp: check_relay_def res_simps split: if_splits)
  have base: "interface_name (bridge_name b)" "interface_name (relay_upstream r)"
    "bridge_name b \<noteq> relay_upstream r" "bridge_members b = []"
    "ip_method (bridge_ipv4 b) = Static" "ip_gateway (bridge_ipv4 b) = None"
    using chk a by (auto simp: check_relay_def split: if_splits)
  have srv: "unicast (relay_server r)" "relay_server r \<notin> addr_set (n, m)"
    using chk a sn by (auto simp: check_relay_def res_simps addr_set_def split: if_splits)
  have "\<forall>cidr\<in>set (other_cidrs c b). \<forall>ip n' m' p. cidr_parts cidr = Inr (ip, n', m', p) \<longrightarrow>
      addr_set (n, m) \<inter> addr_set (n', m') = {}"
    using oth check_other_cidr_Inr [OF _ isn] by blast
  with base srv gn subnet_Inr [OF sn] show "relay_ok c b"
    by (simp add: relay_ok_def the_relay_def r ga)
qed

lemma render_loop_sound:
  assumes "render_loop c conf rules subs bs = Inr res" "\<forall>s\<in>set subs. is_subnet s"
  shows "(\<forall>b\<in>set (relay_bridges bs). relay_ok c b \<and> (\<forall>s\<in>set subs. guest_addrs b \<inter> addr_set s = {})) \<and>
     sorted_wrt (\<lambda>a b. guest_addrs a \<inter> guest_addrs b = {}) (relay_bridges bs)"
  using assms
proof (induction c conf rules subs bs rule: render_loop.induct)
  case (2 c conf rules subs b bs)
  show ?case
  proof (cases "bridge_dhcp_relay b")
    case None
    with 2 show ?thesis by (simp add: relay_bridges_def)
  next
    case (Some r)
    obtain ip n m where chk: "check_relay c subs b r = Inr (ip, n, m)"
      and rec: "render_loop c (conf @ conf_lines b r ip) (rules @ rule_lines b r) (subs @ [(n, m)]) bs = Inr res"
      using "2.prems"(1) Some by (auto simp: res_simps)
    note b = check_relay_Inr [OF chk Some]
    have ga: "guest_addrs b = addr_set (n, m)" using b(1) by (simp add: guest_addrs_def)
    have dj: "\<forall>s\<in>set subs. guest_addrs b \<inter> addr_set s = {}"
      using overlaps_complete [OF b(2)] "2.prems"(2) b(4) unfolding ga list_ex_iff by blast
    have IH: "(\<forall>b'\<in>set (relay_bridges bs). relay_ok c b' \<and>
          (\<forall>s\<in>set (subs @ [(n, m)]). guest_addrs b' \<inter> addr_set s = {})) \<and>
        sorted_wrt (\<lambda>a b. guest_addrs a \<inter> guest_addrs b = {}) (relay_bridges bs)"
      by (rule "2.IH"(2) [OF Some rec]) (use "2.prems"(2) b(2) in simp)
    with b(3) dj Some ga show ?thesis by (auto simp: relay_bridges_def)
  qed
qed (simp add: relay_bridges_def)

lemma render_loop_text:
  "render_loop c conf rules subs bs = Inr (conf', rules') \<Longrightarrow>
     rules' = rules @ concat (map (\<lambda>b. rule_lines b (the_relay b)) (relay_bridges bs)) \<and>
     (\<exists>extra. conf' = conf @ extra)"
proof (induction c conf rules subs bs rule: render_loop.induct)
  case (2 c conf rules subs b bs)
  show ?case
  proof (cases "bridge_dhcp_relay b")
    case None
    with 2 show ?thesis by (simp add: relay_bridges_def)
  next
    case (Some r)
    obtain ip n m where chk: "check_relay c subs b r = Inr (ip, n, m)"
      and rec: "render_loop c (conf @ conf_lines b r ip) (rules @ rule_lines b r) (subs @ [(n, m)]) bs = Inr (conf', rules')"
      using "2.prems"(1) Some by (auto simp: res_simps)
    from "2.IH"(2) [OF Some rec] Some show ?thesis
      by (auto simp: relay_bridges_def the_relay_def)
  qed
qed (simp add: relay_bridges_def)

lemma render_Inr:
  assumes "render c = Inr (conf, rules)"
  shows "rules = concat (map (\<lambda>b. rule_lines b (the_relay b)) (relay_bridges (bridges c)))"
    "conf = [] \<longleftrightarrow> relay_bridges (bridges c) = []"
    "rules = [] \<longleftrightarrow> relay_bridges (bridges c) = []"
proof -
  obtain conf' where l: "render_loop c conf_head [] [] (bridges c) = Inr (conf', rules)"
    and conf: "conf = (if rules = [] then [] else conf')"
    using assms by (auto simp: render_def res_simps)
  from render_loop_text [OF l] show rules:
      "rules = concat (map (\<lambda>b. rule_lines b (the_relay b)) (relay_bridges (bridges c)))"
    by simp
  then show e: "rules = [] \<longleftrightarrow> relay_bridges (bridges c) = []"
    by (cases "relay_bridges (bridges c)") (auto simp: rule_lines_def)
  obtain extra where "conf' = conf_head @ extra" using render_loop_text [OF l] by blast
  then have "conf' \<noteq> []" by (simp add: conf_head_def)
  with conf e show "conf = [] \<longleftrightarrow> relay_bridges (bridges c) = []" by simp
qed

lemma newline_not_name: "interface_name n \<Longrightarrow> CHR 0x0A \<notin> set n"
  by (auto simp: interface_name_def list_all_iff relay_name_char_def is_ascii_alphanumeric_def
      is_ascii_digit_def is_ascii_alphabetic_def byte_def)

lemma newline_not_show_nat: "CHR 0x0A \<notin> set (show_nat n)"
  using show_nat_digits [of n] by (auto simp: list_all_iff is_ascii_digit_def byte_def)

lemma newline_not_ipv4: "CHR 0x0A \<notin> set (show_ipv4 ip)"
  by (simp add: show_ipv4_def newline_not_show_nat)

lemma count_notin: "x \<notin> set xs \<Longrightarrow> count_list xs x = 0"
  by (induction xs) auto

lemma count_list_append [simp]: "count_list (xs @ ys) x = count_list xs x + count_list ys x"
  by (induction xs) auto

lemma rule_lines_count:
  "interface_name (bridge_name b) \<Longrightarrow> interface_name (relay_upstream r) \<Longrightarrow>
     count_list (rule_lines b r) (CHR 0x0A) = 2"
  by (simp add: rule_lines_def quote_def newline_def newline_not_name newline_not_ipv4 count_notin)

lemma render_sound:
  assumes "render c = Inr res"
  shows "(\<forall>b\<in>set (relay_bridges (bridges c)). relay_ok c b) \<and>
     sorted_wrt (\<lambda>a b. guest_addrs a \<inter> guest_addrs b = {}) (relay_bridges (bridges c))"
proof -
  obtain conf rules where l: "render_loop c conf_head [] [] (bridges c) = Inr (conf, rules)"
    using assms by (auto simp: render_def res_simps)
  from render_loop_sound [OF l] show ?thesis by simp
qed

lemma render_count:
  assumes "render c = Inr (conf, rules)"
  shows "count_list rules (CHR 0x0A) = 2 * length (relay_bridges (bridges c))"
proof -
  have "count_list (concat (map (\<lambda>b. rule_lines b (the_relay b)) bs)) (CHR 0x0A) = 2 * length bs"
    if "\<forall>b\<in>set bs. relay_ok c b" for bs
    using that by (induction bs) (simp_all add: rule_lines_count relay_ok_def)
  with render_sound [OF assms] render_Inr(1) [OF assms] show ?thesis by simp
qed

section \<open>Properties\<close>

text \<open>
  C20. When rendering succeeds, every relay bridge is sound (one usable static address, a
  unicast DHCP server outside the guest subnet, no other configured interface, bond, VLAN or
  bridge address sharing an address with it) and the guest subnets of any two relay bridges
  are disjoint sets of addresses.
\<close>

theorem relay_subnets_disjoint:
  "render c = Inr res \<Longrightarrow>
     (\<forall>b\<in>set (relay_bridges (bridges c)). relay_ok c b) \<and>
     sorted_wrt (\<lambda>a b. guest_addrs a \<inter> guest_addrs b = {}) (relay_bridges (bridges c))"
  by (rule render_sound)

definition example_relay_bridge :: "string \<Rightarrow> string \<Rightarrow> BridgeConfig" where
  "example_relay_bridge n cidr =
     \<lparr>bridge_name = n, bridge_members = [],
      bridge_ipv4 = \<lparr>ip_method = Static, ip_addresses = [cidr], ip_gateway = None\<rparr>,
      bridge_ipv6 = default_ip, bridge_mtu = None, bridge_stp = False,
      bridge_forward_delay_s = None, bridge_inherit_member_mac = True,
      bridge_dhcp_relay = Some \<lparr>relay_server = 0xC0A80101, relay_upstream = ''eth0''\<rparr>\<rparr>"

definition example_relays :: NetworkConfig where
  "example_relays =
     default_network\<lparr>bridges :=
       [example_relay_bridge ''br1'' ''10.1.0.1/24'', example_relay_bridge ''br2'' ''10.2.0.1/24'']\<rparr>"

lemma example_cidrs:
  "cidr_parts ''10.1.0.1/24'' = Inr (0x0A010001, 0x0A010000, 0xFFFFFF00, 24)"
  "cidr_parts ''10.2.0.1/24'' = Inr (0x0A020001, 0x0A020000, 0xFFFFFF00, 24)"
  by (simp_all add: cidr_parts_def eval_ip prefix_mask_code)

lemma example_subnets:
  "subnet ''10.1.0.1/24'' = Inr (0x0A010001, 0x0A010000, 0xFFFFFF00)"
  "subnet ''10.2.0.1/24'' = Inr (0x0A020001, 0x0A020000, 0xFFFFFF00)"
  by (simp_all add: subnet_def example_cidrs unicast_def octet_def)

lemma example_names: "interface_name ''br1''" "interface_name ''br2''" "interface_name ''eth0''"
  by (simp_all add: interface_name_def relay_name_char_def eval_ip)

lemma example_relays_render: "is_ok (render example_relays)"
  by (simp add: render_def example_relays_def default_network_def example_relay_bridge_def
      check_relay_def example_names example_subnets example_cidrs unicast_def octet_def overlaps_def
      other_cidrs_def check_other_cidr_def)

theorem relay_subnets_disjoint_witness:
  "is_ok (render example_relays) \<and> length (relay_bridges (bridges example_relays)) = 2 \<and>
   guest_addrs (example_relay_bridge ''br1'' ''10.1.0.1/24'') \<inter>
     guest_addrs (example_relay_bridge ''br2'' ''10.2.0.1/24'') = {}"
proof -
  obtain res where r: "render example_relays = Inr res"
    using example_relays_render by (auto simp: is_ok_def split: sum.splits)
  have bs: "relay_bridges (bridges example_relays) =
      [example_relay_bridge ''br1'' ''10.1.0.1/24'', example_relay_bridge ''br2'' ''10.2.0.1/24'']"
    by (simp add: example_relays_def relay_bridges_def example_relay_bridge_def)
  from relay_subnets_disjoint [OF r] r show ?thesis by (simp add: bs)
qed

text \<open>
  The firewall commands are exactly two lines for each relay bridge, in configuration
  order: no name or address in the configuration can add a command to the batch.
\<close>

theorem relay_rules_no_injection:
  "render c = Inr (conf, rules) \<Longrightarrow>
     rules = concat (map (\<lambda>b. rule_lines b (the_relay b)) (relay_bridges (bridges c))) \<and>
     count_list rules (CHR 0x0A) = 2 * length (relay_bridges (bridges c)) \<and>
     (conf = [] \<longleftrightarrow> relay_bridges (bridges c) = [])"
  using render_Inr(1,2) render_count by blast

theorem relay_rules_no_injection_witness:
  "\<exists>conf rules. render example_relays = Inr (conf, rules) \<and> count_list rules (CHR 0x0A) = 4 \<and> conf \<noteq> []"
proof -
  obtain conf rules where r: "render example_relays = Inr (conf, rules)"
    using example_relays_render by (auto simp: is_ok_def split: sum.splits)
  have "length (relay_bridges (bridges example_relays)) = 2"
    by (simp add: example_relays_def relay_bridges_def example_relay_bridge_def)
  with relay_rules_no_injection [OF r] r show ?thesis by auto
qed

text \<open>
  C19. Reconciliation fails closed: when it ends with an error, either the configuration did
  not render and nothing was touched, or, whether a command failed or the running system never
  became ready, the daemon stop, the flush of the chain and the emptying of the persisted policy
  have each been attempted, and each holds unless its own command failed.
\<close>

theorem reconcile_fails_closed:
  assumes "reconcile out rts c w = (Inl e, w')"
  shows "(\<exists>re. render c = Inl re \<and> e = RenderFailed re \<and> w' = w) \<or>
    (\<exists>conf rules w1. render c = Inr (conf, rules) \<and> reconcile_locked out rts c conf rules w = (Inl e, w1) \<and>
      (out (calls w1) = None \<longrightarrow> \<not> daemon w') \<and>
      (out (calls w1 + 1) = None \<longrightarrow> chain_rules w' = []) \<and>
      (out (calls w1 + 2) = None \<longrightarrow> policy_file w' = Some []))"
proof (cases "render c")
  case (Inl re)
  then show ?thesis using assms by (simp add: reconcile_def io_simps)
next
  case (Inr rendered)
  then obtain conf rules where r: "render c = Inr (conf, rules)" by (cases rendered) auto
  obtain w1 where w1: "reconcile_locked out rts c conf rules w = (Inl e, w1)"
    and w': "w' = snd (cleanup out w1)"
    using assms r
    by (cases "reconcile_locked out rts c conf rules w")
      (auto simp: reconcile_def io_simps cleanup_def ignore_def call_def systemctl_def
        nft_chain_def write_policy_def split: sum.splits option.splits)
  have "(out (calls w1) = None \<longrightarrow> \<not> daemon w') \<and>
    (out (calls w1 + 1) = None \<longrightarrow> chain_rules w' = []) \<and>
    (out (calls w1 + 2) = None \<longrightarrow> policy_file w' = Some [])"
    unfolding w'
    by (auto simp: io_simps cleanup_def ignore_def call_def systemctl_def
        nft_chain_def write_policy_def split: option.splits)
  with r w1 show ?thesis by (intro disjI2 exI [of _ conf] exI [of _ rules] exI [of _ w1]) simp
qed

definition example_world :: relay_world where
  "example_world = \<lparr>conf_file = None, policy_file = None, chain_rules = [], daemon = True, calls = 0\<rparr>"

definition fail_at :: "nat \<Rightarrow> outcomes" where
  "fail_at k n = (if n = k then Some ''failed'' else None)"

lemmas relay_steps = reconcile_def reconcile_locked_def deploy_def policy_def systemctl_def
  nft_chain_def write_policy_def call_def cleanup_def ignore_def contents_def

lemma example_relays_conf: "\<exists>conf rules. render example_relays = Inr (conf, rules) \<and> conf \<noteq> []"
proof -
  obtain conf rules where r: "render example_relays = Inr (conf, rules)"
    using example_relays_render by (auto simp: is_ok_def split: sum.splits)
  moreover have "relay_bridges (bridges example_relays) \<noteq> []"
    by (simp add: example_relays_def relay_bridges_def example_relay_bridge_def)
  ultimately show ?thesis using render_Inr(2) [OF r] by auto
qed

definition example_probes :: probes where
  "example_probes =
     (\<lparr>rt_forward = Some ''1'',
       rt_route = (\<lambda>_. Some (True, [(Some ''eth0'', None)])),
       rt_addr = (\<lambda>n. Some (True, [if n = ''br1'' then ''10.1.0.1'' else ''10.2.0.1'']))\<rparr>, [])"

lemma example_ready: "wait_runtime example_relays (fst example_probes) (snd example_probes) = Inr ()"
  by code_simp

theorem reconcile_fails_closed_witness:
  "\<exists>w'. reconcile (fail_at 2) example_probes example_relays example_world = (Inl (IoFailed ''failed''), w') \<and>
     \<not> daemon w' \<and> chain_rules w' = [] \<and> policy_file w' = Some []"
proof -
  obtain conf rules where r: "render example_relays = Inr (conf, rules)" "conf \<noteq> []"
    using example_relays_conf by blast
  obtain w' where w': "reconcile (fail_at 2) example_probes example_relays example_world = (Inl (IoFailed ''failed''), w')"
    using r by (simp add: relay_steps io_simps fail_at_def example_world_def example_ready)
  have "snd (reconcile_locked (fail_at 2) example_probes example_relays conf rules example_world) =
      example_world\<lparr>daemon := False, calls := 3\<rparr>"
    using r by (simp add: relay_steps io_simps fail_at_def example_world_def example_ready)
  with reconcile_fails_closed [OF w'] r(1) w' show ?thesis by (auto simp: fail_at_def)
qed

lemma deploy_ok:
  assumes "deploy out rts c old conf rules w = (Inr (), w')"
  shows "conf_file w' = Some conf \<and> policy_file w' = Some rules \<and> chain_rules w' = rules \<and>
    (conf = [] \<longrightarrow> \<not> daemon w') \<and> (conf \<noteq> [] \<longrightarrow> daemon w')"
  using assms
  by (auto simp: deploy_def io_simps call_def systemctl_def nft_chain_def write_policy_def
      split: option.splits if_splits sum.splits prod.splits)

text \<open>
  C29. When reconciliation succeeds, the persisted dnsmasq configuration and firewall policy
  are the rendered ones (an absent file counts as empty). If there is a relay, its rules are the
  live chain and the daemon runs. If there is none, the chain is empty and the daemon stopped, or
  both files were empty before and chain and daemon are as they were.
\<close>

theorem reconcile_deploys:
  assumes "reconcile out rts c w = (Inr (), w')"
  shows "\<exists>conf rules. render c = Inr (conf, rules) \<and> contents (conf_file w') = conf \<and>
    contents (policy_file w') = rules \<and>
    (if relay_bridges (bridges c) \<noteq> [] then chain_rules w' = rules \<and> daemon w'
     else chain_rules w' = [] \<and> \<not> daemon w' \<or>
       contents (conf_file w) = [] \<and> contents (policy_file w) = [] \<and>
       chain_rules w' = chain_rules w \<and> daemon w' = daemon w)"
proof -
  obtain conf rules where r: "render c = Inr (conf, rules)"
    using assms by (auto simp: reconcile_def io_simps split: sum.splits)
  then have "reconcile_locked out rts c conf rules w = (Inr (), w')"
    using assms
    by (cases "reconcile_locked out rts c conf rules w")
      (auto simp: reconcile_def io_simps split: sum.splits prod.splits)
  then consider old w1 where "deploy out rts c old conf rules w1 = (Inr (), w')"
    | "conf = []" "contents (conf_file w) = []" "contents (policy_file w) = []"
      "w' = w\<lparr>calls := calls w'\<rparr>"
    by (auto simp: reconcile_locked_def policy_def io_simps call_def
        split: option.splits if_splits sum.splits prod.splits)
  then show ?thesis
  proof cases
    case 1
    from deploy_ok [OF this] r render_Inr(2,3) [OF r] show ?thesis by (simp add: contents_def)
  next
    case 2
    obtain n where "w' = w\<lparr>calls := n\<rparr>" using 2(4) by blast
    with 2 r render_Inr(2,3) [OF r] show ?thesis by simp
  qed
qed

text \<open>Taking the last relay out of a deployed configuration stops the daemon and empties the chain.\<close>

theorem reconcile_deploys_witness:
  "\<exists>w' w''. reconcile (\<lambda>_. None) example_probes example_relays example_world = (Inr (), w') \<and>
     daemon w' \<and> chain_rules w' = contents (policy_file w') \<and>
     reconcile (\<lambda>_. None) example_probes default_network w' = (Inr (), w'') \<and> \<not> daemon w'' \<and> chain_rules w'' = []"
proof -
  obtain conf rules where r: "render example_relays = Inr (conf, rules)" "conf \<noteq> []"
    using example_relays_conf by blast
  have none: "render default_network = Inr ([], [])" by code_simp
  have ready: "wait_runtime default_network (fst example_probes) (snd example_probes) = Inr ()"
    by (simp add: example_probes_def validate_runtime_def default_network_def)
  obtain w' where w': "reconcile (\<lambda>_. None) example_probes example_relays example_world = (Inr (), w')"
    using r by (simp add: relay_steps io_simps example_world_def example_ready)
  moreover have "relay_bridges (bridges example_relays) \<noteq> []"
    by (simp add: example_relays_def relay_bridges_def example_relay_bridge_def)
  ultimately have d: "daemon w'" "chain_rules w' = contents (policy_file w')" "contents (conf_file w') = conf"
    using reconcile_deploys [OF w'] r by auto
  obtain w'' where w'': "reconcile (\<lambda>_. None) example_probes default_network w' = (Inr (), w'')"
    using none d(3) r(2) by (simp add: relay_steps io_simps ready)
  have "relay_bridges (bridges default_network) = []" by (simp add: default_network_def relay_bridges_def)
  then have "\<not> daemon w'' \<and> chain_rules w'' = []" using reconcile_deploys [OF w''] d(3) r(2) by auto
  then show ?thesis using w' w'' d by blast
qed

end
