(* ===== verification/Network_Checks.thy ===== *)
theory Network_Checks
  imports Layered Dhcp_Relay
begin

text \<open>
  The pure decisions of \<open>nasty-system/src/network.rs\<close>: input validation of an update, the
  resolution of inherited L3 settings, the takeover of stale entries, and the classifier that
  decides whether a change needs the confirm-or-rollback safety net. A \<open>HashMap\<close> that is
  only looked up is a partial function.
\<close>

section \<open>Live state\<close>

record LiveInterface =
  lv_name :: string
  lv_mac :: string
  lv_kind :: string
  lv_sriov_total_vfs :: "u32 option"

record LiveTopology =
  addrs_v4 :: "string \<rightharpoonup> string list"
  addrs_v6 :: "string \<rightharpoonup> string list"
  default_via_v4 :: "string \<rightharpoonup> string"
  default_via_v6 :: "string \<rightharpoonup> string"
  dhcp_managed_v4 :: "string list"

definition live_addrs :: "LiveTopology \<Rightarrow> string \<Rightarrow> bool \<Rightarrow> string list" where
  "live_addrs t iface v6 =
     (case (if v6 then addrs_v6 t else addrs_v4 t) iface of None \<Rightarrow> [] | Some as \<Rightarrow> as)"

definition live_default_via :: "LiveTopology \<Rightarrow> string \<Rightarrow> bool \<Rightarrow> string option" where
  "live_default_via t iface v6 = (if v6 then default_via_v6 t else default_via_v4 t) iface"

definition is_dhcp_managed_v4 :: "LiveTopology \<Rightarrow> string \<Rightarrow> bool" where
  "is_dhcp_managed_v4 t iface \<longleftrightarrow> iface \<in> set (dhcp_managed_v4 t)"

text \<open>\<open>collect\<close> of name and value pairs into a \<open>HashMap\<close>: the last one wins.\<close>

definition by_name :: "('a \<Rightarrow> string) \<Rightarrow> ('a \<Rightarrow> 'b) \<Rightarrow> 'a list \<Rightarrow> string \<rightharpoonup> 'b" where
  "by_name n f xs = map_of (rev (map (\<lambda>x. (n x, f x)) xs))"

definition is_docker_bridge :: "string \<Rightarrow> bool" where
  "is_docker_bridge n \<longleftrightarrow>
     take 3 n = ''br-'' \<and> length (drop 3 n) = 12 \<and>
     list_all (\<lambda>c. is_ascii_digit c \<or> (97 \<le> byte c \<and> byte c \<le> 102)) (drop 3 n)"

definition starts_with :: "string \<Rightarrow> string \<Rightarrow> bool" where
  "starts_with s p \<longleftrightarrow> take (length p) s = p"

definition classify_kind :: "string \<Rightarrow> bool \<Rightarrow> string \<Rightarrow> string \<Rightarrow> bool \<Rightarrow> string" where
  "classify_kind n has_bonding_dir tun_flags dev_type has_bridge_dir =
     (if has_bonding_dir then ''bond''
      else if tun_flags \<noteq> [] \<or> starts_with n ''tun'' \<or> starts_with n ''tap'' \<or>
              starts_with n ''tailscale'' \<or> starts_with n ''wg'' then ''tunnel''
      else if dev_type = ''32'' then ''infiniband''
      else if dev_type = ''772'' then ''vlan''
      else if has_bridge_dir then ''bridge''
      else ''physical'')"

section \<open>Input validation\<close>

datatype NetError =
    TxnPending string
  | SnapshotPending
  | StaticNeedsAddress string
  | BondNoMembers string
  | VlanIdInvalid u16
  | BridgeNameRequired
  | Relay RelayError
  | MacvlanNameParentRequired
  | MacvlanOnManagement string
  | InfinibandInBond string string
  | InfinibandInBridge string string
  | InfinibandVlan string
  | InfinibandMacvlan string
  | TooManyVfs string u32 u32
  | NotSriovCapable string
  | VfsWithoutCount string
  | VfIndexOutOfRange string u32 u32
  | DuplicateVf string u32
  | VfVlanInvalid u32 string u16
  | VfMacInvalid u32 string string
  | Rejected LayeredError
  | NetIo string
  | UnknownTxn string
  | RollbackInProgress string

definition validate_ip_config :: "IpConfig \<Rightarrow> string \<Rightarrow> NetError + unit" where
  "validate_ip_config ip label =
     guard (\<not> (ip_method ip = Static \<and> ip_addresses ip = [])) (StaticNeedsAddress label)"

definition is_valid_mac :: "string \<Rightarrow> bool" where
  "is_valid_mac mac \<longleftrightarrow>
     (let parts = split_char CHR '':'' mac
      in length parts = 6 \<and>
         list_all (\<lambda>p. length p = 2 \<and> list_all is_ascii_hexdigit p) parts)"

definition check_vf :: "InterfaceConfig \<Rightarrow> u32 \<Rightarrow> u32 list \<Rightarrow> VfConfig \<Rightarrow> NetError + unit" where
  "check_vf iface count seen vf =
     (if count \<le> vf_index vf then Inl (VfIndexOutOfRange (if_name iface) count (vf_index vf))
      else if vf_index vf \<in> set seen then Inl (DuplicateVf (if_name iface) (vf_index vf))
      else case vf_vlan vf of
             Some v \<Rightarrow>
               if \<not> (1 \<le> v \<and> v \<le> 4094) then Inl (VfVlanInvalid (vf_index vf) (if_name iface) v)
               else (case vf_mac vf of
                       Some m \<Rightarrow> guard (is_valid_mac m) (VfMacInvalid (vf_index vf) (if_name iface) m)
                     | None \<Rightarrow> Inr ())
           | None \<Rightarrow>
               (case vf_mac vf of
                  Some m \<Rightarrow> guard (is_valid_mac m) (VfMacInvalid (vf_index vf) (if_name iface) m)
                | None \<Rightarrow> Inr ()))"

fun check_vfs :: "InterfaceConfig \<Rightarrow> u32 \<Rightarrow> u32 list \<Rightarrow> VfConfig list \<Rightarrow> NetError + unit" where
  "check_vfs iface count seen [] = Inr ()"
| "check_vfs iface count seen (vf # vfs) =
     res_bind (check_vf iface count seen vf) (\<lambda>_. check_vfs iface count (vf_index vf # seen) vfs)"

definition validate_vf_properties :: "InterfaceConfig \<Rightarrow> NetError + unit" where
  "validate_vf_properties iface =
     (if if_vfs iface = [] then Inr ()
      else case if_sriov_num_vfs iface of
             None \<Rightarrow> Inl (VfsWithoutCount (if_name iface))
           | Some count \<Rightarrow> check_vfs iface count [] (if_vfs iface))"

definition check_sriov :: "(string \<rightharpoonup> u32 option) \<Rightarrow> InterfaceConfig \<Rightarrow> NetError + unit" where
  "check_sriov live_caps iface =
     res_bind (validate_vf_properties iface) (\<lambda>_.
       case if_sriov_num_vfs iface of
         None \<Rightarrow> Inr ()
       | Some n \<Rightarrow>
           (case live_caps (if_name iface) of
              Some (Some tot) \<Rightarrow> guard (n \<le> tot) (TooManyVfs (if_name iface) tot n)
            | Some None \<Rightarrow> Inl (NotSriovCapable (if_name iface))
            | None \<Rightarrow> Inr ()))"

definition validate_sriov :: "NetworkConfig \<Rightarrow> (string \<rightharpoonup> u32 option) \<Rightarrow> NetError + unit" where
  "validate_sriov c live_caps = try_all (check_sriov live_caps) (interfaces c)"

definition reject_infiniband_refs :: "NetworkConfig \<Rightarrow> (string \<rightharpoonup> string) \<Rightarrow> NetError + unit" where
  "reject_infiniband_refs c live_kinds =
     (let is_ib = (\<lambda>n. live_kinds n = Some ''infiniband'')
      in res_bind (try_all (\<lambda>b. case find is_ib (bond_members b) of
                                  Some m \<Rightarrow> Inl (InfinibandInBond m (bond_name b)) | None \<Rightarrow> Inr ())
                   (bonds c)) (\<lambda>_.
         res_bind (try_all (\<lambda>b. case find is_ib (bridge_members b) of
                                  Some m \<Rightarrow> Inl (InfinibandInBridge m (bridge_name b)) | None \<Rightarrow> Inr ())
                   (bridges c)) (\<lambda>_.
         res_bind (try_all (\<lambda>v. guard (\<not> is_ib (vlan_parent v)) (InfinibandVlan (vlan_parent v)))
                   (vlans c)) (\<lambda>_.
         try_all (\<lambda>m. guard (\<not> is_ib (mv_parent m)) (InfinibandMacvlan (mv_parent m)))
                   (macvlans c)))))"

text \<open>The checks of \<open>update\<close> before the inherited settings are resolved.\<close>

definition validate_update :: "NetworkConfig \<Rightarrow> string option \<Rightarrow> NetError + unit" where
  "validate_update c mgmt =
     res_bind (try_all (\<lambda>i.
       res_bind (validate_ip_config (if_ipv4 i) ''IPv4'') (\<lambda>_.
       validate_ip_config (if_ipv6 i) ''IPv6'')) (interfaces c)) (\<lambda>_.
     res_bind (try_all (\<lambda>b.
       res_bind (guard (bond_members b \<noteq> []) (BondNoMembers (bond_name b))) (\<lambda>_.
       res_bind (validate_ip_config (bond_ipv4 b) ''IPv4'') (\<lambda>_.
       validate_ip_config (bond_ipv6 b) ''IPv6''))) (bonds c)) (\<lambda>_.
     res_bind (try_all (\<lambda>v.
       res_bind (guard (\<not> (vlan_id v = 0 \<or> 4094 < vlan_id v)) (VlanIdInvalid (vlan_id v))) (\<lambda>_.
       res_bind (validate_ip_config (vlan_ipv4 v) ''IPv4'') (\<lambda>_.
       validate_ip_config (vlan_ipv6 v) ''IPv6''))) (vlans c)) (\<lambda>_.
     res_bind (try_all (\<lambda>b.
       res_bind (guard (bridge_name b \<noteq> []) BridgeNameRequired) (\<lambda>_.
       res_bind (validate_ip_config (bridge_ipv4 b) ''IPv4'') (\<lambda>_.
       validate_ip_config (bridge_ipv6 b) ''IPv6''))) (bridges c)) (\<lambda>_.
     res_bind (map_sum Relay (\<lambda>_. ()) (render c)) (\<lambda>_.
     try_all (\<lambda>m.
       res_bind (guard (\<not> (mv_name m = [] \<or> mv_parent m = [])) MacvlanNameParentRequired) (\<lambda>_.
       res_bind (guard (mgmt \<noteq> Some (mv_parent m)) (MacvlanOnManagement (mv_parent m))) (\<lambda>_.
       validate_ip_config (mv_ipv4 m) ''IPv4''))) (macvlans c))))))"

section \<open>Inherited settings\<close>

definition dhcp_ip :: IpConfig where
  "dhcp_ip = \<lparr>ip_method = Dhcp, ip_addresses = [], ip_gateway = None\<rparr>"

definition slaac_ip :: IpConfig where
  "slaac_ip = \<lparr>ip_method = Slaac, ip_addresses = [], ip_gateway = None\<rparr>"

text \<open>What the prior top-level entry of a member gives; \<open>None\<close> falls through.\<close>

definition inherit_prev :: "NetworkConfig \<Rightarrow> string \<Rightarrow> bool \<Rightarrow> IpConfig option" where
  "inherit_prev prev member v6 =
     (case find (\<lambda>i. if_name i = member) (interfaces prev) of
        None \<Rightarrow> None
      | Some prev_iface \<Rightarrow>
          (let prev_ip = (if v6 then if_ipv6 prev_iface else if_ipv4 prev_iface)
           in case ip_method prev_ip of
                Dhcp \<Rightarrow> Some dhcp_ip
              | Static \<Rightarrow> if ip_addresses prev_ip \<noteq> [] then Some prev_ip else None
              | Slaac \<Rightarrow> if v6 then Some slaac_ip else None
              | _ \<Rightarrow> None))"

fun resolve_inherit_one :: "string list \<Rightarrow> NetworkConfig \<Rightarrow> LiveTopology \<Rightarrow> bool \<Rightarrow> IpConfig" where
  "resolve_inherit_one [] prev live v6 = default_ip"
| "resolve_inherit_one (member # rest) prev live v6 =
     (case inherit_prev prev member v6 of
        Some ip \<Rightarrow> ip
      | None \<Rightarrow>
          if \<not> v6 \<and> is_dhcp_managed_v4 live member then dhcp_ip
          else if live_addrs live member v6 \<noteq> [] then
            \<lparr>ip_method = Static, ip_addresses = live_addrs live member v6,
             ip_gateway = live_default_via live member v6\<rparr>
          else resolve_inherit_one rest prev live v6)"

definition resolve_bridge :: "NetworkConfig \<Rightarrow> LiveTopology \<Rightarrow> BridgeConfig \<Rightarrow> BridgeConfig" where
  "resolve_bridge prev live b =
     (let b4 = (if ip_method (bridge_ipv4 b) = Inherit
                then b\<lparr>bridge_ipv4 := resolve_inherit_one (bridge_members b) prev live False\<rparr> else b)
      in if ip_method (bridge_ipv6 b4) = Inherit
         then b4\<lparr>bridge_ipv6 := resolve_inherit_one (bridge_members b4) prev live True\<rparr> else b4)"

definition resolve_inherit :: "NetworkConfig \<Rightarrow> NetworkConfig \<Rightarrow> LiveTopology \<Rightarrow> NetworkConfig" where
  "resolve_inherit c prev live = c\<lparr>bridges := map (resolve_bridge prev live) (bridges c)\<rparr>"

section \<open>Stale entries\<close>

definition virtual_names :: "NetworkConfig \<Rightarrow> string list" where
  "virtual_names c =
     map bond_name (bonds c) @ map bridge_name (bridges c) @ map mv_name (macvlans c) @
     map vlan_name (vlans c)"

definition superseded :: "NetworkConfig \<Rightarrow> string list \<Rightarrow> string list" where
  "superseded c live =
     map if_name
       (filter (\<lambda>i. if_name i \<in> set (virtual_names c) \<and> if_name i \<notin> set live) (interfaces c))"

definition supersede_absent_physical_entries :: "NetworkConfig \<Rightarrow> string list \<Rightarrow> NetworkConfig" where
  "supersede_absent_physical_entries c live =
     (if superseded c live \<noteq> []
      then c\<lparr>interfaces := filter (\<lambda>i. if_name i \<notin> set (superseded c live)) (interfaces c)\<rparr>
      else c)"

section \<open>Risk classification\<close>

datatype Risk =
    MgmtUnknown
  | EnslavedIntoBridge string string
  | EnslavedIntoBond string string
  | IpChanging string
  | MtuChanging string
  | BeingDisabled string
  | BeingRemoved string
  | BridgeRemoved string
  | ReleasedFromBridge string string
  | BondRemoved string
  | ReleasedFromBond string string
  | ExplicitConfirm
  | RollbackFailed NetError

fun first_some :: "('a \<Rightarrow> 'b option) \<Rightarrow> 'a list \<Rightarrow> 'b option" where
  "first_some f [] = None"
| "first_some f (x # xs) = (case f x of Some y \<Rightarrow> Some y | None \<Rightarrow> first_some f xs)"

definition bridge_enslave :: "NetworkConfig \<Rightarrow> string \<Rightarrow> BridgeConfig \<Rightarrow> Risk option" where
  "bridge_enslave prev mgmt next_br =
     (let was_member = (case by_name bridge_name id (bridges prev) (bridge_name next_br) of
                          None \<Rightarrow> False | Some prev_br \<Rightarrow> mgmt \<in> set (bridge_members prev_br));
          is_member = mgmt \<in> set (bridge_members next_br)
      in if is_member \<and> \<not> was_member then Some (EnslavedIntoBridge mgmt (bridge_name next_br)) else None)"

definition bond_enslave :: "NetworkConfig \<Rightarrow> string \<Rightarrow> BondConfig \<Rightarrow> Risk option" where
  "bond_enslave prev mgmt next_bond =
     (let was_member = (case by_name bond_name id (bonds prev) (bond_name next_bond) of
                          None \<Rightarrow> False | Some prev_bond \<Rightarrow> mgmt \<in> set (bond_members prev_bond));
          is_member = mgmt \<in> set (bond_members next_bond)
      in if is_member \<and> \<not> was_member then Some (EnslavedIntoBond mgmt (bond_name next_bond)) else None)"

definition iface_change :: "NetworkConfig \<Rightarrow> NetworkConfig \<Rightarrow> string \<Rightarrow> Risk option" where
  "iface_change prev nxt mgmt =
     (case (find (\<lambda>i. if_name i = mgmt) (interfaces prev), find (\<lambda>i. if_name i = mgmt) (interfaces nxt)) of
        (Some p, Some n) \<Rightarrow>
          if if_ipv4 p \<noteq> if_ipv4 n \<or> if_ipv6 p \<noteq> if_ipv6 n then Some (IpChanging mgmt)
          else if if_mtu p \<noteq> if_mtu n then Some (MtuChanging mgmt)
          else if if_enabled p \<and> \<not> if_enabled n then Some (BeingDisabled mgmt)
          else None
      | (Some _, None) \<Rightarrow> Some (BeingRemoved mgmt)
      | _ \<Rightarrow> None)"

definition bridge_release :: "NetworkConfig \<Rightarrow> string \<Rightarrow> BridgeConfig \<Rightarrow> Risk option" where
  "bridge_release nxt mgmt prev_br =
     (if bridge_name prev_br \<in> bridge_name ` set (bridges nxt) then None
      else if bridge_name prev_br = mgmt then Some (BridgeRemoved mgmt)
      else if mgmt \<in> set (bridge_members prev_br) then Some (ReleasedFromBridge mgmt (bridge_name prev_br))
      else None)"

definition bond_release :: "NetworkConfig \<Rightarrow> string \<Rightarrow> BondConfig \<Rightarrow> Risk option" where
  "bond_release nxt mgmt prev_bond =
     (if bond_name prev_bond \<in> bond_name ` set (bonds nxt) then None
      else if bond_name prev_bond = mgmt then Some (BondRemoved mgmt)
      else if mgmt \<in> set (bond_members prev_bond) then Some (ReleasedFromBond mgmt (bond_name prev_bond))
      else None)"

definition or_else :: "'a option \<Rightarrow> 'a option \<Rightarrow> 'a option" where
  "or_else a b = (case a of Some x \<Rightarrow> Some x | None \<Rightarrow> b)"

definition classify_risk :: "NetworkConfig \<Rightarrow> NetworkConfig \<Rightarrow> string option \<Rightarrow> Risk option" where
  "classify_risk prev nxt mgmt_iface =
     (case mgmt_iface of
        None \<Rightarrow>
          if bonds prev \<noteq> bonds nxt \<or> bridges prev \<noteq> bridges nxt \<or> vlans prev \<noteq> vlans nxt
          then Some MgmtUnknown else None
      | Some mgmt \<Rightarrow>
          or_else (first_some (bridge_enslave prev mgmt) (bridges nxt))
         (or_else (first_some (bond_enslave prev mgmt) (bonds nxt))
         (or_else (iface_change prev nxt mgmt)
         (or_else (first_some (bridge_release nxt mgmt) (bridges prev))
                  (first_some (bond_release nxt mgmt) (bonds prev))))))"

section \<open>Inherited settings are resolved\<close>

definition concrete_ip :: "IpConfig \<Rightarrow> bool" where
  "concrete_ip ip \<longleftrightarrow> ip_method ip \<noteq> Inherit \<and> (ip_method ip = Static \<longrightarrow> ip_addresses ip \<noteq> [])"

lemma inherit_prev_concrete: "inherit_prev prev m v6 = Some ip \<Longrightarrow> concrete_ip ip"
  by (auto simp: inherit_prev_def concrete_ip_def dhcp_ip_def slaac_ip_def Let_def
      split: option.splits IpMethod.splits if_splits)

lemma resolve_inherit_one_concrete: "concrete_ip (resolve_inherit_one ms prev live v6)"
  by (induction ms)
    (auto simp: inherit_prev_concrete concrete_ip_def [of dhcp_ip] concrete_ip_def [of default_ip]
      concrete_ip_def dhcp_ip_def default_ip_def split: option.splits dest: inherit_prev_concrete)

lemma resolve_bridge_methods:
  "ip_method (bridge_ipv4 (resolve_bridge prev live b)) \<noteq> Inherit"
  "ip_method (bridge_ipv6 (resolve_bridge prev live b)) \<noteq> Inherit"
  using resolve_inherit_one_concrete by (auto simp: resolve_bridge_def Let_def concrete_ip_def)

lemma resolve_bridge_id:
  "ip_method (bridge_ipv4 b) \<noteq> Inherit \<Longrightarrow> ip_method (bridge_ipv6 b) \<noteq> Inherit \<Longrightarrow> resolve_bridge prev live b = b"
  by (simp add: resolve_bridge_def)

text \<open>
  Resolving inherited settings leaves no bridge that inherits, gives no bridge a static
  method without an address unless it came in that way, and is final: resolving the result
  again, against any prior configuration and live state, changes nothing, so what is stored is
  what a reboot applies.
\<close>
theorem resolve_inherit_final:
  "list_all (\<lambda>b. ip_method (bridge_ipv4 b) \<noteq> Inherit \<and> ip_method (bridge_ipv6 b) \<noteq> Inherit)
     (bridges (resolve_inherit c prev live)) \<and>
   list_all2 (\<lambda>b b'. (concrete_ip (bridge_ipv4 b') \<or> bridge_ipv4 b' = bridge_ipv4 b) \<and>
                     (concrete_ip (bridge_ipv6 b') \<or> bridge_ipv6 b' = bridge_ipv6 b))
     (bridges c) (bridges (resolve_inherit c prev live)) \<and>
   resolve_inherit (resolve_inherit c prev live) prev' live' = resolve_inherit c prev live"
proof -
  have "(concrete_ip (bridge_ipv4 (resolve_bridge prev live b)) \<or> bridge_ipv4 (resolve_bridge prev live b) = bridge_ipv4 b) \<and>
      (concrete_ip (bridge_ipv6 (resolve_bridge prev live b)) \<or> bridge_ipv6 (resolve_bridge prev live b) = bridge_ipv6 b)" for b
    by (simp add: resolve_bridge_def Let_def resolve_inherit_one_concrete)
  then show ?thesis
    by (simp add: resolve_inherit_def list_all_iff resolve_bridge_methods resolve_bridge_id comp_def
        list_all2_map2 list_all2_same)
qed

text \<open>What the first member with something to inherit gives the bridge: no earlier member has a
  stored setting, a lease or a live address.\<close>

definition nothing_to_inherit :: "NetworkConfig \<Rightarrow> LiveTopology \<Rightarrow> bool \<Rightarrow> string \<Rightarrow> bool" where
  "nothing_to_inherit prev live v6 m \<longleftrightarrow>
     inherit_prev prev m v6 = None \<and> (\<not> v6 \<longrightarrow> \<not> is_dhcp_managed_v4 live m) \<and> live_addrs live m v6 = []"

lemma resolve_first:
  assumes "\<forall>x\<in>set pre. nothing_to_inherit prev live v6 x"
  shows "resolve_inherit_one (pre @ ms) prev live v6 = resolve_inherit_one ms prev live v6"
  using assms by (induction pre) (auto simp: nothing_to_inherit_def)

lemma inherit_prev_Static:
  "inherit_prev prev m False = Some ip \<Longrightarrow> ip_method ip = Static \<Longrightarrow>
     \<exists>i. find (\<lambda>i. if_name i = m) (interfaces prev) = Some i \<and> ip = if_ipv4 i"
  by (auto simp: inherit_prev_def Let_def dhcp_ip_def slaac_ip_def split: option.splits IpMethod.splits if_splits)

lemma resolve_static_source:
  "ip_method (resolve_inherit_one ms prev live False) = Static \<Longrightarrow>
     \<exists>m\<in>set ms.
       (\<exists>i. find (\<lambda>i. if_name i = m) (interfaces prev) = Some i \<and>
            resolve_inherit_one ms prev live False = if_ipv4 i) \<or>
       \<not> is_dhcp_managed_v4 live m \<and>
       ip_addresses (resolve_inherit_one ms prev live False) = live_addrs live m False \<and>
       ip_gateway (resolve_inherit_one ms prev live False) = live_default_via live m False"
proof (induction ms)
  case (Cons m ms)
  show ?case
  proof (cases "inherit_prev prev m False")
    case None
    with Cons show ?thesis by (auto simp: dhcp_ip_def split: if_splits)
  next
    case (Some ip)
    with Cons.prems inherit_prev_Static [of prev m ip] show ?thesis by auto
  qed
qed (simp add: default_ip_def)

text \<open>
  C30. An inheriting bridge never turns an IPv4 lease into a static address: when its resolved
  IPv4 method is static, the setting is the stored one of a member, or its addresses and gateway
  are the live ones of a member whose addresses the live topology does not report as leased.
  When the first member that has no stored setting and nothing live before it is leased, the
  bridge takes its own lease instead. IPv6 has no such check, as \<open>inherit_bakes_live_v6\<close> shows.
\<close>
theorem inherit_bakes_no_ipv4_lease:
  assumes "b \<in> set (bridges c)" "ip_method (bridge_ipv4 b) = Inherit"
  shows "\<exists>b'\<in>set (bridges (resolve_inherit c prev live)). bridge_name b' = bridge_name b \<and>
    (ip_method (bridge_ipv4 b') = Static \<longrightarrow>
      (\<exists>m\<in>set (bridge_members b).
        (\<exists>i. find (\<lambda>i. if_name i = m) (interfaces prev) = Some i \<and> bridge_ipv4 b' = if_ipv4 i) \<or>
        \<not> is_dhcp_managed_v4 live m \<and> ip_addresses (bridge_ipv4 b') = live_addrs live m False \<and>
        ip_gateway (bridge_ipv4 b') = live_default_via live m False)) \<and>
    (\<forall>pre m post. bridge_members b = pre @ m # post \<and> (\<forall>x\<in>set pre. nothing_to_inherit prev live False x) \<and>
        find (\<lambda>i. if_name i = m) (interfaces prev) = None \<and> is_dhcp_managed_v4 live m \<longrightarrow>
      bridge_ipv4 b' = \<lparr>ip_method = Dhcp, ip_addresses = [], ip_gateway = None\<rparr>)"
proof -
  let ?b = "resolve_bridge prev live b"
  have v4: "bridge_ipv4 ?b = resolve_inherit_one (bridge_members b) prev live False" "bridge_name ?b = bridge_name b"
    using assms(2) by (simp_all add: resolve_bridge_def Let_def)
  have "?b \<in> set (bridges (resolve_inherit c prev live))" using assms(1) by (simp add: resolve_inherit_def)
  moreover have "bridge_ipv4 ?b = dhcp_ip"
    if "bridge_members b = pre @ m # post" "\<forall>x\<in>set pre. nothing_to_inherit prev live False x"
      "find (\<lambda>i. if_name i = m) (interfaces prev) = None" "is_dhcp_managed_v4 live m" for pre m post
    using that resolve_first [of pre prev live False] by (simp add: v4 inherit_prev_def)
  ultimately show ?thesis
    using resolve_static_source [of "bridge_members b" prev live] v4
    by (intro bexI [of _ ?b]) (auto simp: dhcp_ip_def)
qed

definition example_topology :: LiveTopology where
  "example_topology =
     \<lparr>addrs_v4 = [''eth0'' \<mapsto> [''10.0.0.7/24''], ''eth1'' \<mapsto> [''192.168.1.4/24'']], addrs_v6 = Map.empty,
      default_via_v4 = [''eth1'' \<mapsto> ''192.168.1.1''], default_via_v6 = Map.empty, dhcp_managed_v4 = [''eth0'']\<rparr>"

definition example_inherit :: "string list \<Rightarrow> BridgeConfig" where
  "example_inherit ms =
     \<lparr>bridge_name = ''br0'', bridge_members = ms,
      bridge_ipv4 = \<lparr>ip_method = Inherit, ip_addresses = [], ip_gateway = None\<rparr>, bridge_ipv6 = default_ip,
      bridge_mtu = None, bridge_stp = False, bridge_forward_delay_s = None,
      bridge_inherit_member_mac = True, bridge_dhcp_relay = None\<rparr>"

theorem inherit_bakes_no_ipv4_lease_witness:
  "map (\<lambda>b. ip_method (bridge_ipv4 b)) (bridges (resolve_inherit
     (default_network\<lparr>bridges := [example_inherit [''eth0'', ''eth1'']]\<rparr>) default_network example_topology)) = [Dhcp]"
proof -
  let ?c = "default_network\<lparr>bridges := [example_inherit [''eth0'', ''eth1'']]\<rparr>"
  have b: "example_inherit [''eth0'', ''eth1''] \<in> set (bridges ?c)"
    "ip_method (bridge_ipv4 (example_inherit [''eth0'', ''eth1''])) = Inherit"
    by (simp_all add: example_inherit_def)
  have h: "bridge_members (example_inherit [''eth0'', ''eth1'']) = [] @ ''eth0'' # [''eth1'']"
    "(\<forall>x\<in>set []. nothing_to_inherit default_network example_topology False x)"
    "find (\<lambda>i. if_name i = ''eth0'') (interfaces default_network) = None" "is_dhcp_managed_v4 example_topology ''eth0''"
    by (simp_all add: example_inherit_def default_network_def is_dhcp_managed_v4_def example_topology_def)
  obtain b' where b': "b' \<in> set (bridges (resolve_inherit ?c default_network example_topology))"
    "bridge_ipv4 b' = \<lparr>ip_method = Dhcp, ip_addresses = [], ip_gateway = None\<rparr>"
    using inherit_bakes_no_ipv4_lease [OF b, of default_network example_topology] h by blast
  have "bridges (resolve_inherit ?c default_network example_topology) = [b']"
    using b'(1) by (simp add: resolve_inherit_def)
  with b'(2) show ?thesis by simp
qed

text \<open>For IPv6 the live addresses are taken over whatever assigned them, a DHCPv6 server included.\<close>

lemma inherit_bakes_live_v6:
  assumes "ip_method (bridge_ipv6 b) = Inherit" "bridge_members b = m # ms"
    and "find (\<lambda>i. if_name i = m) (interfaces prev) = None" "live_addrs live m True \<noteq> []"
  shows "bridge_ipv6 (resolve_bridge prev live b) =
    \<lparr>ip_method = Static, ip_addresses = live_addrs live m True, ip_gateway = live_default_via live m True\<rparr>"
  using assms by (simp add: resolve_bridge_def Let_def inherit_prev_def)

section \<open>Stale entries\<close>

text \<open>
  Superseding drops exactly the interface entries whose name a bond, bridge, VLAN or macvlan
  of the configuration takes and whose device is absent, keeps the order of the others, and
  changes nothing else of the configuration.
\<close>
theorem supersede_drops_exactly:
  "supersede_absent_physical_entries c live =
     c\<lparr>interfaces := filter (\<lambda>i. \<not> (if_name i \<in> set (virtual_names c) \<and> if_name i \<notin> set live)) (interfaces c)\<rparr>"
proof (cases "superseded c live = []")
  case True
  then have "filter (\<lambda>i. \<not> (if_name i \<in> set (virtual_names c) \<and> if_name i \<notin> set live)) (interfaces c) = interfaces c"
    by (auto simp: superseded_def filter_id_conv filter_empty_conv)
  with True show ?thesis by (simp add: supersede_absent_physical_entries_def)
next
  case False
  have "filter (\<lambda>i. if_name i \<notin> set (superseded c live)) (interfaces c) =
      filter (\<lambda>i. \<not> (if_name i \<in> set (virtual_names c) \<and> if_name i \<notin> set live)) (interfaces c)"
    by (rule filter_cong) (auto simp: superseded_def)
  with False show ?thesis by (simp add: supersede_absent_physical_entries_def)
qed

section \<open>SR-IOV\<close>

definition vf_ok :: "u32 \<Rightarrow> VfConfig \<Rightarrow> bool" where
  "vf_ok count vf \<longleftrightarrow>
     vf_index vf < count \<and>
     (case vf_vlan vf of None \<Rightarrow> True | Some v \<Rightarrow> 1 \<le> v \<and> v \<le> 4094) \<and>
     (case vf_mac vf of None \<Rightarrow> True | Some m \<Rightarrow> is_valid_mac m)"

definition sriov_ok :: "(string \<rightharpoonup> u32 option) \<Rightarrow> InterfaceConfig \<Rightarrow> bool" where
  "sriov_ok live_caps i \<longleftrightarrow>
     (case if_sriov_num_vfs i of
        None \<Rightarrow> if_vfs i = []
      | Some n \<Rightarrow>
          list_all (vf_ok n) (if_vfs i) \<and> distinct (map vf_index (if_vfs i)) \<and>
          (case live_caps (if_name i) of
             None \<Rightarrow> True
           | Some None \<Rightarrow> False
           | Some (Some limit) \<Rightarrow> n \<le> limit))"

lemma check_vf_Inr:
  "check_vf i count seen vf = Inr () \<longleftrightarrow> vf_ok count vf \<and> vf_index vf \<notin> set seen"
  by (auto simp: check_vf_def vf_ok_def res_simps split: option.splits)

lemma check_vfs_Inr:
  "check_vfs i count seen vfs = Inr () \<longleftrightarrow>
     list_all (vf_ok count) vfs \<and> distinct (map vf_index vfs) \<and> vf_index ` set vfs \<inter> set seen = {}"
  by (induction vfs arbitrary: seen) (auto simp: res_simps check_vf_Inr)

text \<open>
  The SR-IOV check accepts exactly the configurations in which every interface with
  per-VF settings creates VFs, every VF index is below the count and used once, VLAN ids are
  between 1 and 4094, MACs are well formed, and the count is within what the live device
  offers; an absent device passes.
\<close>
theorem validate_sriov_accepts_exactly:
  "validate_sriov c live_caps = Inr () \<longleftrightarrow> list_all (sriov_ok live_caps) (interfaces c)"
proof -
  have "check_sriov live_caps i = Inr () \<longleftrightarrow> sriov_ok live_caps i" for i
    by (auto simp: check_sriov_def validate_vf_properties_def sriov_ok_def check_vfs_Inr res_simps
        split: option.splits)
  then show ?thesis by (simp add: validate_sriov_def res_simps list_all_iff)
qed

section \<open>What the classifier lets through\<close>

lemma or_else_None: "or_else a b = None \<longleftrightarrow> a = None \<and> b = None"
  by (simp add: or_else_def split: option.splits)

lemma first_some_None: "first_some f xs = None \<longleftrightarrow> (\<forall>x\<in>set xs. f x = None)"
  by (induction xs) (auto split: option.splits)

lemma by_name_Some: "by_name n f xs k = Some v \<Longrightarrow> \<exists>x\<in>set xs. n x = k \<and> f x = v"
  by (auto simp: by_name_def dest!: map_of_SomeD)

lemma by_name_distinct:
  assumes "distinct (map n xs)" "x \<in> set xs"
  shows "by_name n f xs (n x) = Some (f x)"
proof -
  have "distinct (map fst (rev (map (\<lambda>x. (n x, f x)) xs)))"
    using assms(1) by (simp add: rev_map [symmetric] comp_def)
  then show ?thesis using assms(2) by (simp add: by_name_def)
qed

lemma bridge_enslave_None:
  "bridge_enslave prev m b = None \<Longrightarrow> m \<in> set (bridge_members b) \<Longrightarrow>
     \<exists>b'\<in>set (bridges prev). bridge_name b' = bridge_name b \<and> m \<in> set (bridge_members b')"
  by (auto simp: bridge_enslave_def Let_def split: if_splits option.splits dest!: by_name_Some)

lemma bond_enslave_None:
  "bond_enslave prev m b = None \<Longrightarrow> m \<in> set (bond_members b) \<Longrightarrow>
     \<exists>b'\<in>set (bonds prev). bond_name b' = bond_name b \<and> m \<in> set (bond_members b')"
  by (auto simp: bond_enslave_def Let_def split: if_splits option.splits dest!: by_name_Some)

text \<open>What a verdict without risk says of an interface that no bridge or bond held before.\<close>

lemma unflagged_interface:
  assumes "classify_risk prev nxt (Some m) = None" "find (\<lambda>i. if_name i = m) (interfaces prev) = Some i"
    and "\<forall>b\<in>set (bridges prev). m \<notin> set (bridge_members b)" "\<forall>b\<in>set (bonds prev). m \<notin> set (bond_members b)"
  shows "\<exists>i'. find (\<lambda>i. if_name i = m) (interfaces nxt) = Some i' \<and> if_ipv4 i' = if_ipv4 i \<and>
      if_ipv6 i' = if_ipv6 i \<and> if_mtu i' = if_mtu i \<and> (if_enabled i \<longrightarrow> if_enabled i')"
    and "\<forall>b\<in>set (bridges nxt). m \<notin> set (bridge_members b)"
    and "\<forall>b\<in>set (bonds nxt). m \<notin> set (bond_members b)"
proof -
  have c: "\<forall>b\<in>set (bridges nxt). bridge_enslave prev m b = None"
    "\<forall>b\<in>set (bonds nxt). bond_enslave prev m b = None" "iface_change prev nxt m = None"
    using assms(1) by (simp_all add: classify_risk_def or_else_None first_some_None)
  show "\<exists>i'. find (\<lambda>i. if_name i = m) (interfaces nxt) = Some i' \<and> if_ipv4 i' = if_ipv4 i \<and>
      if_ipv6 i' = if_ipv6 i \<and> if_mtu i' = if_mtu i \<and> (if_enabled i \<longrightarrow> if_enabled i')"
    using c(3) assms(2) by (auto simp: iface_change_def split: option.splits if_splits)
  show "\<forall>b\<in>set (bridges nxt). m \<notin> set (bridge_members b)" using c(1) assms(3) bridge_enslave_None by blast
  show "\<forall>b\<in>set (bonds nxt). m \<notin> set (bond_members b)" using c(2) assms(4) bond_enslave_None by blast
qed

definition example_mgmt :: NetworkConfig where
  "example_mgmt = default_network
     \<lparr>interfaces := [bare_iface ''eth0''], bridges := [example_bridge\<lparr>bridge_members := [''eth0'']\<rparr>]\<rparr>"

text \<open>
  C34. The classifier does not see changes to a bridge's own settings: readdressing every bridge
  or changing its MTU is let through for every management interface, also when the management
  interface is one of those bridges.
\<close>
theorem bridge_readdressing_not_flagged:
  assumes "distinct (map bridge_name (bridges c))" "distinct (map bond_name (bonds c))"
  shows "classify_risk c (c\<lparr>bridges := map (\<lambda>b. b\<lparr>bridge_ipv4 := f b, bridge_ipv6 := g b, bridge_mtu := h b\<rparr>) (bridges c)\<rparr>)
    (Some m) = None"
proof -
  let ?c = "c\<lparr>bridges := map (\<lambda>b. b\<lparr>bridge_ipv4 := f b, bridge_ipv6 := g b, bridge_mtu := h b\<rparr>) (bridges c)\<rparr>"
  have be: "bridge_enslave c m (b\<lparr>bridge_ipv4 := x, bridge_ipv6 := y, bridge_mtu := z\<rparr>) = None"
    if "b \<in> set (bridges c)" for b x y z
    using by_name_distinct [OF assms(1) that, of id] by (simp add: bridge_enslave_def)
  have bo: "bond_enslave c m b = None" if "b \<in> set (bonds c)" for b
    using by_name_distinct [OF assms(2) that, of id] by (simp add: bond_enslave_def)
  have br: "bridge_release ?c m b = None" if "b \<in> set (bridges c)" for b
    using that by (auto simp: bridge_release_def image_image)
  have bd: "bond_release ?c m b = None" if "b \<in> set (bonds c)" for b
    using that by (force simp: bond_release_def)
  have "iface_change c ?c m = None"
    by (simp add: iface_change_def split: option.splits)
  with be bo br bd show ?thesis
    by (auto simp: classify_risk_def or_else_None first_some_None)
qed

theorem bridge_readdressing_not_flagged_witness:
  "classify_risk example_mgmt
     (example_mgmt\<lparr>bridges := map (\<lambda>b. b\<lparr>bridge_ipv4 := default_ip, bridge_ipv6 := default_ip, bridge_mtu := None\<rparr>)
                                (bridges example_mgmt)\<rparr>) (Some ''br0'') = None"
  by (rule bridge_readdressing_not_flagged) (simp_all add: example_mgmt_def default_network_def)

end
