(* ===== verification/Nm.thy ===== *)
theory Nm
  imports Layered Net_Std "HOL-Library.Char_ord" "HOL-Library.List_Lexorder" "HOL-Library.Sublist"
begin

text \<open>
  \<open>nasty-system/src/network/nm.rs\<close>: the projection of a layered configuration to
  NetworkManager connection profiles, and the two views of a profile, the inspectable
  keyfile and the D-Bus settings dictionary. UUIDv5 is code of the \<open>uuid\<close> crate and is the
  parameter \<open>uuid5\<close>. A \<open>HashMap\<close> that is only looked up is a partial function; the settings
  dictionary is an association list with distinct keys, built in insertion order.
\<close>

section \<open>Types\<close>

datatype NmConnectionType = Ethernet | Infiniband | BondConn | BridgeConn | VlanConn | MacvlanConn

fun conn_type_str :: "NmConnectionType \<Rightarrow> string" where
  "conn_type_str Ethernet = ''802-3-ethernet''"
| "conn_type_str Infiniband = ''infiniband''"
| "conn_type_str BondConn = ''bond''"
| "conn_type_str BridgeConn = ''bridge''"
| "conn_type_str VlanConn = ''vlan''"
| "conn_type_str MacvlanConn = ''macvlan''"

datatype NmIpMethod = Auto | Manual | LinkLocal | NmDisabled | Ignore

fun ip_method_str :: "NmIpMethod \<Rightarrow> string" where
  "ip_method_str Auto = ''auto''"
| "ip_method_str Manual = ''manual''"
| "ip_method_str LinkLocal = ''link-local''"
| "ip_method_str NmDisabled = ''disabled''"
| "ip_method_str Ignore = ''ignore''"

record NmIpSettings =
  nm_method :: NmIpMethod
  nm_addresses :: "string list"
  nm_gateway :: "string option"
  nm_dns :: "string list"
  nm_routes :: "string list"

definition nm_ip_default :: NmIpSettings where
  "nm_ip_default = \<lparr>nm_method = NmDisabled, nm_addresses = [], nm_gateway = None, nm_dns = [], nm_routes = []\<rparr>"

datatype NmTypeSpecific =
    NoSpecific
  | BondSpec string
  | BridgeSpec bool "u8 option"
  | VlanSpec string u16
  | MacvlanSpec string string

record NmConnection =
  nm_id :: string
  nm_uuid :: string
  nm_conn_type :: NmConnectionType
  nm_interface_name :: string
  nm_controller :: "string option"
  nm_port_type :: "string option"
  nm_mtu :: "u16 option"
  nm_sriov_num_vfs :: "u32 option"
  nm_vfs :: "VfConfig list"
  nm_mac :: "string option"
  nm_autoconnect :: bool
  nm_ipv4 :: NmIpSettings
  nm_ipv6 :: NmIpSettings
  nm_type_specific :: NmTypeSpecific

record MacContext =
  live_macs :: "string \<rightharpoonup> string"
  mgmt_iface :: "string option"
  infiniband_ifaces :: "string list"

definition mac_context_default :: MacContext where
  "mac_context_default = \<lparr>live_macs = Map.empty, mgmt_iface = None, infiniband_ifaces = []\<rparr>"

section \<open>Converter\<close>

fun address_method_to_nm :: "IpMethod \<Rightarrow> Family \<Rightarrow> NmIpMethod" where
  "address_method_to_nm Dhcp f = Auto"
| "address_method_to_nm Static f = Manual"
| "address_method_to_nm Slaac V4 = Auto"
| "address_method_to_nm Slaac V6 = Auto"
| "address_method_to_nm Disabled f = NmDisabled"
| "address_method_to_nm Inherit f = Auto"

definition address_to_nm_settings :: "Address \<Rightarrow> NmIpSettings" where
  "address_to_nm_settings a =
     \<lparr>nm_method = address_method_to_nm (addr_method a) (addr_family a),
      nm_addresses = addr_cidr a, nm_gateway = addr_gateway a, nm_dns = [], nm_routes = []\<rparr>"

type_synonym ip_pair = "NmIpSettings \<times> NmIpSettings"

definition default_ip_pair :: ip_pair where
  "default_ip_pair = (nm_ip_default, nm_ip_default)"

definition add_address :: "Address \<Rightarrow> (string \<rightharpoonup> ip_pair) \<Rightarrow> (string \<rightharpoonup> ip_pair)" where
  "add_address a m =
     (let entry = (case m (addr_link a) of None \<Rightarrow> default_ip_pair | Some p \<Rightarrow> p)
      in m(addr_link a \<mapsto>
           (case addr_family a of
              V4 \<Rightarrow> (address_to_nm_settings a, snd entry)
            | V6 \<Rightarrow> (fst entry, address_to_nm_settings a))))"

definition addrs_by_link :: "Address list \<Rightarrow> string \<rightharpoonup> ip_pair" where
  "addrs_by_link as = fold add_address as Map.empty"

definition enslave :: "string \<Rightarrow> string \<Rightarrow> string list \<Rightarrow> (string \<rightharpoonup> string \<times> string) \<Rightarrow> (string \<rightharpoonup> string \<times> string)" where
  "enslave master port ms m = fold (\<lambda>x m. m(x \<mapsto> (master, port))) ms m"

definition add_master :: "Link \<Rightarrow> (string \<rightharpoonup> string \<times> string) \<Rightarrow> (string \<rightharpoonup> string \<times> string)" where
  "add_master l m =
     (case link_kind l of
        Bond ms _ _ \<Rightarrow> enslave (link_name l) ''bond'' ms m
      | Bridge ms _ _ _ _ \<Rightarrow> enslave (link_name l) ''bridge'' ms m
      | _ \<Rightarrow> m)"

definition master_of :: "Link list \<Rightarrow> string \<rightharpoonup> string \<times> string" where
  "master_of ls = fold add_master ls Map.empty"

definition add_route :: "Route \<Rightarrow> (string \<rightharpoonup> string list \<times> string list) \<Rightarrow> (string \<rightharpoonup> string list \<times> string list)" where
  "add_route r m =
     (let (v4, v6) = (case m (route_dev r) of None \<Rightarrow> ([], []) | Some p \<Rightarrow> p)
      in m(route_dev r \<mapsto>
           (if CHR '':'' \<in> set (route_dst r) then (v4, v6 @ [route_dst r]) else (v4 @ [route_dst r], v6))))"

definition routes_by_dev :: "Route list \<Rightarrow> string \<rightharpoonup> string list \<times> string list" where
  "routes_by_dev rs = fold add_route rs Map.empty"

fun inherits_member_mac :: "LinkKind \<Rightarrow> bool" where
  "inherits_member_mac (Bond _ _ b) = b"
| "inherits_member_mac (Bridge _ _ _ b _) = b"
| "inherits_member_mac _ = False"

definition pick_among :: "string list \<Rightarrow> MacContext \<Rightarrow> string option" where
  "pick_among ms ctx =
     (case mgmt_iface ctx of
        Some mgmt \<Rightarrow> if mgmt \<in> set ms then Some mgmt else (case ms of [] \<Rightarrow> None | m # _ \<Rightarrow> Some m)
      | None \<Rightarrow> (case ms of [] \<Rightarrow> None | m # _ \<Rightarrow> Some m))"

definition pick_primary_member :: "LinkKind \<Rightarrow> MacContext \<Rightarrow> string option" where
  "pick_primary_member k ctx =
     (case k of
        Bond ms _ _ \<Rightarrow> pick_among ms ctx
      | Bridge ms _ _ _ _ \<Rightarrow> pick_among ms ctx
      | _ \<Rightarrow> None)"

definition split_dns_by_family :: "string list \<Rightarrow> string list \<times> string list" where
  "split_dns_by_family ds =
     fold (\<lambda>s (v4, v6). if CHR '':'' \<in> set s then (v4, v6 @ [s]) else (v4 @ [s], v6)) ds ([], [])"

fun type_specific :: "MacContext \<Rightarrow> string \<Rightarrow> LinkKind \<Rightarrow> NmConnectionType \<times> NmTypeSpecific" where
  "type_specific ctx n Physical =
     (if n \<in> set (infiniband_ifaces ctx) then (Infiniband, NoSpecific) else (Ethernet, NoSpecific))"
| "type_specific ctx n (Bond _ mode _) = (BondConn, BondSpec (to_kernel mode))"
| "type_specific ctx n (Bridge _ stp fd _ _) = (BridgeConn, BridgeSpec stp fd)"
| "type_specific ctx n (Vlan parent i) = (VlanConn, VlanSpec parent i)"
| "type_specific ctx n (Macvlan parent mode) = (MacvlanConn, MacvlanSpec parent mode)"

definition profile_for_link ::
  "(string \<Rightarrow> string) \<Rightarrow> Link \<Rightarrow> (string \<rightharpoonup> ip_pair) \<Rightarrow> (string \<rightharpoonup> string \<times> string) \<Rightarrow> MacContext \<Rightarrow> NmConnection" where
  "profile_for_link uuid5 l addrs masters ctx =
     (let master = masters (link_name l);
          ips = (if master \<noteq> None then (nm_ip_default, nm_ip_default)
                 else case addrs (link_name l) of Some p \<Rightarrow> p | None \<Rightarrow> default_ip_pair);
          ts = type_specific ctx (link_name l) (link_kind l)
      in \<lparr>nm_id = ''nasty-'' @ link_name l, nm_uuid = uuid5 (link_name l),
          nm_conn_type = fst ts, nm_interface_name = link_name l,
          nm_controller = map_option fst master, nm_port_type = map_option snd master,
          nm_mtu = link_mtu l, nm_sriov_num_vfs = link_sriov_num_vfs l, nm_vfs = link_vfs l,
          nm_mac = link_mac l, nm_autoconnect = link_enabled l,
          nm_ipv4 = fst ips, nm_ipv6 = snd ips, nm_type_specific = snd ts\<rparr>)"

definition set_dns :: "string list \<times> string list \<Rightarrow> NmConnection \<Rightarrow> NmConnection" where
  "set_dns ds conn =
     (if nm_controller conn = None
      then conn\<lparr>nm_ipv4 := (nm_ipv4 conn)\<lparr>nm_dns := fst ds\<rparr>, nm_ipv6 := (nm_ipv6 conn)\<lparr>nm_dns := snd ds\<rparr>\<rparr>
      else conn)"

definition set_routes :: "(string list \<times> string list) option \<Rightarrow> NmConnection \<Rightarrow> NmConnection" where
  "set_routes rs conn =
     (case rs of
        None \<Rightarrow> conn
      | Some (v4, v6) \<Rightarrow>
          conn\<lparr>nm_ipv4 := (nm_ipv4 conn)\<lparr>nm_routes := v4\<rparr>, nm_ipv6 := (nm_ipv6 conn)\<lparr>nm_routes := v6\<rparr>\<rparr>)"

definition set_inherited_mac :: "MacContext \<Rightarrow> LinkKind \<Rightarrow> NmConnection \<Rightarrow> NmConnection" where
  "set_inherited_mac ctx k conn =
     (if inherits_member_mac k
      then (case pick_primary_member k ctx of
              Some member \<Rightarrow>
                (case live_macs ctx member of Some mac \<Rightarrow> conn\<lparr>nm_mac := Some mac\<rparr> | None \<Rightarrow> conn)
            | None \<Rightarrow> conn)
      else conn)"

definition to_nm_profiles_with_macs :: "(string \<Rightarrow> string) \<Rightarrow> LayeredConfig \<Rightarrow> MacContext \<Rightarrow> NmConnection list" where
  "to_nm_profiles_with_macs uuid5 c ctx =
     (let addrs = addrs_by_link (addresses c);
          masters = master_of (links c);
          rts = routes_by_dev (routes c);
          ds = split_dns_by_family (layered_dns c)
      in map (\<lambda>l. set_inherited_mac ctx (link_kind l)
                    (set_routes (rts (link_name l))
                      (set_dns ds (profile_for_link uuid5 l addrs masters ctx)))) (links c))"

definition to_nm_profiles :: "(string \<Rightarrow> string) \<Rightarrow> LayeredConfig \<Rightarrow> NmConnection list" where
  "to_nm_profiles uuid5 c = to_nm_profiles_with_macs uuid5 c mac_context_default"

section \<open>Keyfile\<close>

definition show_bool :: "bool \<Rightarrow> string" where
  "show_bool b = (if b then ''true'' else ''false'')"

definition line :: "string \<Rightarrow> string \<Rightarrow> string" where
  "line k v = k @ ''='' @ v @ [CHR 10]"

definition opt_str :: "('a \<Rightarrow> string) \<Rightarrow> 'a option \<Rightarrow> string" where
  "opt_str f o' = (case o' of None \<Rightarrow> [] | Some x \<Rightarrow> f x)"

definition opt_list :: "('a \<Rightarrow> 'b) \<Rightarrow> 'a option \<Rightarrow> 'b list" where
  "opt_list f o' = (case o' of None \<Rightarrow> [] | Some x \<Rightarrow> [f x])"

definition vf_attr_string :: "VfConfig \<Rightarrow> string" where
  "vf_attr_string vf =
     join '' '' (opt_list (\<lambda>m. ''mac='' @ m) (vf_mac vf)
       @ opt_list (\<lambda>s. ''spoof-check='' @ show_bool s) (vf_spoof_check vf)
       @ opt_list (\<lambda>t. ''trust='' @ show_bool t) (vf_trust vf)
       @ opt_list (\<lambda>v. ''vlans='' @ show_nat (unat v)) (vf_vlan vf))"

definition macvlan_mode_num :: "string \<Rightarrow> u32" where
  "macvlan_mode_num mode =
     (if mode = ''vepa'' then 1 else if mode = ''bridge'' then 2 else if mode = ''private'' then 3
      else if mode = ''passthru'' then 4 else if mode = ''source'' then 5 else 2)"

text \<open>\<open>address_lines n\<close> numbers the addresses from \<open>n + 1\<close>; the gateway goes with the first.\<close>

fun address_lines :: "nat \<Rightarrow> string option \<Rightarrow> string list \<Rightarrow> string" where
  "address_lines n gw [] = []"
| "address_lines n gw (a # as) =
     (case gw of
        Some g \<Rightarrow>
          if n = 0 then ''address'' @ show_nat (Suc n) @ ''='' @ a @ '','' @ g @ [CHR 10]
          else line (''address'' @ show_nat (Suc n)) a
      | None \<Rightarrow> line (''address'' @ show_nat (Suc n)) a)
     @ address_lines (Suc n) gw as"

fun route_lines :: "nat \<Rightarrow> string list \<Rightarrow> string" where
  "route_lines n [] = []"
| "route_lines n (r # rs) = line (''route'' @ show_nat (Suc n)) r @ route_lines (Suc n) rs"

definition serialize_ip_section :: "NmIpSettings \<Rightarrow> string" where
  "serialize_ip_section ip =
     line ''method'' (ip_method_str (nm_method ip))
     @ address_lines 0 (nm_gateway ip) (nm_addresses ip)
     @ (if nm_gateway ip \<noteq> None \<and> nm_addresses ip = []
        then ''# warning: gateway set but no addresses; NM will ignore'' @ [CHR 10] else [])
     @ (if nm_dns ip \<noteq> [] then ''dns='' @ concat (map (\<lambda>d. d @ '';'') (nm_dns ip)) @ [CHR 10] else [])
     @ route_lines 0 (nm_routes ip)"

definition keyfile_connection :: "NmConnection \<Rightarrow> string" where
  "keyfile_connection p =
     ''[connection]'' @ [CHR 10]
     @ line ''id'' (nm_id p) @ line ''uuid'' (nm_uuid p)
     @ line ''type'' (conn_type_str (nm_conn_type p))
     @ line ''interface-name'' (nm_interface_name p)
     @ line ''autoconnect'' (show_bool (nm_autoconnect p))
     @ opt_str (line ''controller'') (nm_controller p)
     @ opt_str (line ''port-type'') (nm_port_type p)
     @ [CHR 10]"

definition keyfile_specific :: "NmConnection \<Rightarrow> string" where
  "keyfile_specific p =
     (case nm_type_specific p of
        NoSpecific \<Rightarrow> []
      | BondSpec mode \<Rightarrow> ''[bond]'' @ [CHR 10] @ line ''mode'' mode @ [CHR 10]
      | BridgeSpec stp fd \<Rightarrow>
          ''[bridge]'' @ [CHR 10] @ line ''stp'' (show_bool stp)
          @ opt_str (\<lambda>d. line ''forward-delay'' (show_nat (unat d))) fd
          @ line ''multicast-snooping'' ''false''
          @ opt_str (line ''mac-address'') (nm_mac p) @ [CHR 10]
      | VlanSpec parent i \<Rightarrow>
          ''[vlan]'' @ [CHR 10] @ line ''parent'' parent @ line ''id'' (show_nat (unat i)) @ [CHR 10]
      | MacvlanSpec parent mode \<Rightarrow>
          ''[macvlan]'' @ [CHR 10] @ line ''parent'' parent
          @ line ''mode'' (show_nat (unat (macvlan_mode_num mode))) @ [CHR 10])"

definition show_mtu :: "u16 option \<Rightarrow> string" where
  "show_mtu m = opt_str (\<lambda>v. line ''mtu'' (show_nat (unat v))) m"

definition needs_eth_section :: "NmConnectionType \<Rightarrow> bool" where
  "needs_eth_section t \<longleftrightarrow> t \<in> {Ethernet, BondConn, VlanConn, BridgeConn}"

definition serialize_keyfile :: "NmConnection \<Rightarrow> string" where
  "serialize_keyfile p =
     (let eth_cloned_mac = (if nm_conn_type p = BridgeConn then None else nm_mac p)
      in ''# Generated by NASty for inspection. NM gets the'' @ [CHR 10]
         @ ''# active profile via DBus, not from this file.'' @ [CHR 10, CHR 10]
         @ keyfile_connection p
         @ keyfile_specific p
         @ (if nm_conn_type p = Infiniband
            then ''[infiniband]'' @ [CHR 10] @ line ''transport-mode'' ''datagram'' @ show_mtu (nm_mtu p) @ [CHR 10]
            else [])
         @ (if needs_eth_section (nm_conn_type p) \<and>
               (nm_mtu p \<noteq> None \<or> eth_cloned_mac \<noteq> None \<or> nm_conn_type p = Ethernet)
            then ''[ethernet]'' @ [CHR 10] @ show_mtu (nm_mtu p)
                 @ opt_str (line ''cloned-mac-address'') eth_cloned_mac @ [CHR 10]
            else [])
         @ opt_str (\<lambda>n. ''[sriov]'' @ [CHR 10] @ line ''total-vfs'' (show_nat (unat n))
              @ concat (map (\<lambda>vf. line (''vf.'' @ show_nat (unat (vf_index vf))) (vf_attr_string vf)) (nm_vfs p))
              @ [CHR 10]) (nm_sriov_num_vfs p)
         @ ''[ipv4]'' @ [CHR 10] @ serialize_ip_section (nm_ipv4 p) @ [CHR 10]
         @ ''[ipv6]'' @ [CHR 10] @ serialize_ip_section (nm_ipv6 p))"

section \<open>Settings dictionary\<close>

datatype Variant =
    VStr string
  | VBool bool
  | VU32 u32
  | VBytes "u8 list"
  | VU32s "u32 list"
  | VBytesList "u8 list list"
  | VStrMap "(string \<times> string) list"
  | VDicts "(string \<times> Variant) list list"

type_synonym section_dict = "(string \<times> Variant) list"
type_synonym SettingsDict = "(string \<times> section_dict) list"

definition hex_val :: "char \<Rightarrow> nat option" where
  "hex_val c =
     (if is_ascii_digit c then Some (byte c - 48)
      else if 97 \<le> byte c \<and> byte c \<le> 102 then Some (byte c - 87)
      else if 65 \<le> byte c \<and> byte c \<le> 70 then Some (byte c - 55)
      else None)"

text \<open>\<open>u8::from_str_radix(p, 16)\<close> on two bytes: a leading plus sign is accepted.\<close>

definition hex_octet :: "string \<Rightarrow> u8 option" where
  "hex_octet p =
     (case p of
        [a, b] \<Rightarrow>
          (case hex_val b of
             None \<Rightarrow> None
           | Some lo \<Rightarrow>
               if a = CHR ''+'' then Some (of_nat lo)
               else (case hex_val a of None \<Rightarrow> None | Some hi \<Rightarrow> Some (of_nat (16 * hi + lo))))
      | _ \<Rightarrow> None)"

fun hex_octets :: "string list \<Rightarrow> u8 list option" where
  "hex_octets [] = Some []"
| "hex_octets (p # ps) =
     (case hex_octet p of
        None \<Rightarrow> None
      | Some b \<Rightarrow> map_option (\<lambda>bs. b # bs) (hex_octets ps))"

definition mac_to_bytes :: "string \<Rightarrow> u8 list option" where
  "mac_to_bytes mac =
     (let parts = split_char CHR '':'' mac
      in if length parts \<noteq> 6 then None else hex_octets parts)"

definition parse_cidr :: "string \<Rightarrow> (string \<times> u32) option" where
  "parse_cidr cidr =
     (case split_once CHR ''/'' cidr of
        None \<Rightarrow> None
      | Some (a, p) \<Rightarrow> map_option (\<lambda>n. (a, of_nat n)) (parse_uint (2 ^ 32 - 1) p))"

definition cidr_dicts :: "string \<Rightarrow> string list \<Rightarrow> section_dict list" where
  "cidr_dicts key cidrs =
     List.map_filter (\<lambda>c. map_option (\<lambda>(a, p). [(key, VStr a), (''prefix'', VU32 p)]) (parse_cidr c)) cidrs"

definition nonempty :: "string \<Rightarrow> ('a list \<Rightarrow> Variant) \<Rightarrow> 'a list \<Rightarrow> section_dict" where
  "nonempty key f xs = (if xs = [] then [] else [(key, f xs)])"

text \<open>\<open>u32::from_ne_bytes\<close> of the four octets, on the little-endian targets the project builds.\<close>

definition from_ne_octets :: "u32 \<Rightarrow> u32" where
  "from_ne_octets a =
     of_nat (octet 0 a + 256 * octet 1 a + 65536 * octet 2 a + 16777216 * octet 3 a)"

definition parse_ipv6 :: "string \<Rightarrow> nat list option" where
  "parse_ipv6 s =
     (case read_ipv6_addr s of
        Some (gs, rest) \<Rightarrow> if rest = [] then Some gs else None
      | None \<Rightarrow> None)"

definition v6_octets :: "nat list \<Rightarrow> u8 list" where
  "v6_octets gs = concat (map (\<lambda>g. [of_nat (g div 256), of_nat (g mod 256)]) gs)"

definition dns_entry :: "Family \<Rightarrow> string list \<Rightarrow> section_dict" where
  "dns_entry f ds =
     (case f of
        V4 \<Rightarrow> nonempty ''dns'' VU32s (List.map_filter (\<lambda>s. map_option from_ne_octets (parse_ipv4 s)) ds)
      | V6 \<Rightarrow> nonempty ''dns'' VBytesList (List.map_filter (\<lambda>s. map_option v6_octets (parse_ipv6 s)) ds))"

definition ip_section_dict :: "NmIpSettings \<Rightarrow> Family \<Rightarrow> section_dict" where
  "ip_section_dict ip f =
     [(''method'', VStr (ip_method_str (nm_method ip)))]
     @ nonempty ''address-data'' VDicts (cidr_dicts ''address'' (nm_addresses ip))
     @ opt_list (\<lambda>g. (''gateway'', VStr g)) (nm_gateway ip)
     @ dns_entry f (nm_dns ip)
     @ nonempty ''route-data'' VDicts (cidr_dicts ''dest'' (nm_routes ip))"

definition connection_dict :: "NmConnection \<Rightarrow> section_dict" where
  "connection_dict p =
     [(''id'', VStr (nm_id p)), (''uuid'', VStr (nm_uuid p)),
      (''type'', VStr (conn_type_str (nm_conn_type p))),
      (''interface-name'', VStr (nm_interface_name p)),
      (''autoconnect'', VBool (nm_autoconnect p))]
     @ opt_list (\<lambda>c. (''controller'', VStr c)) (nm_controller p)
     @ opt_list (\<lambda>t. (''port-type'', VStr t)) (nm_port_type p)"

text \<open>\<open>if let Some(mac) = &p.mac && let Some(bytes) = mac_to_bytes(mac)\<close>.\<close>

definition mac_entry :: "string \<Rightarrow> string option \<Rightarrow> section_dict" where
  "mac_entry key mac = opt_list (\<lambda>bs. (key, VBytes bs)) (Option.bind mac mac_to_bytes)"

definition specific_dict :: "NmConnection \<Rightarrow> SettingsDict" where
  "specific_dict p =
     (case nm_type_specific p of
        NoSpecific \<Rightarrow> []
      | BondSpec mode \<Rightarrow> [(''bond'', [(''options'', VStrMap [(''mode'', mode)])])]
      | BridgeSpec stp fd \<Rightarrow>
          [(''bridge'',
            [(''stp'', VBool stp)]
            @ opt_list (\<lambda>d. (''forward-delay'', VU32 (ucast d))) fd
            @ [(''multicast-snooping'', VBool False)]
            @ mac_entry ''mac-address'' (nm_mac p))]
      | VlanSpec parent i \<Rightarrow> [(''vlan'', [(''parent'', VStr parent), (''id'', VU32 (ucast i))])]
      | MacvlanSpec parent mode \<Rightarrow>
          [(''macvlan'', [(''parent'', VStr parent), (''mode'', VU32 (macvlan_mode_num mode))])])"

definition mtu_entry :: "u16 option \<Rightarrow> section_dict" where
  "mtu_entry m = opt_list (\<lambda>v. (''mtu'', VU32 (ucast v))) m"

definition infiniband_dict :: "NmConnection \<Rightarrow> SettingsDict" where
  "infiniband_dict p =
     (if nm_conn_type p = Infiniband
      then [(''infiniband'', [(''transport-mode'', VStr ''datagram'')] @ mtu_entry (nm_mtu p))]
      else [])"

definition ethernet_dict :: "NmConnection \<Rightarrow> SettingsDict" where
  "ethernet_dict p =
     (if needs_eth_section (nm_conn_type p)
      then (let eth = mtu_entry (nm_mtu p)
                      @ (if nm_conn_type p \<noteq> BridgeConn then mac_entry ''cloned-mac-address'' (nm_mac p) else [])
            in if nm_conn_type p = Ethernet \<or> eth \<noteq> [] then [(''802-3-ethernet'', eth)] else [])
      else [])"

definition vf_dict :: "VfConfig \<Rightarrow> section_dict" where
  "vf_dict vf =
     [(''index'', VU32 (vf_index vf))]
     @ opt_list (\<lambda>m. (''mac'', VStr m)) (vf_mac vf)
     @ opt_list (\<lambda>b. (''spoof-check'', VBool b)) (vf_spoof_check vf)
     @ opt_list (\<lambda>b. (''trust'', VBool b)) (vf_trust vf)
     @ opt_list (\<lambda>v. (''vlans'', VDicts [[(''id'', VU32 (ucast v)), (''qos'', VU32 0), (''protocol'', VU32 0)]]))
         (vf_vlan vf)"

definition sriov_dict :: "NmConnection \<Rightarrow> SettingsDict" where
  "sriov_dict p =
     opt_list (\<lambda>n. (''sriov'', [(''total-vfs'', VU32 n)] @ nonempty ''vfs'' VDicts (map vf_dict (nm_vfs p))))
       (nm_sriov_num_vfs p)"

definition to_settings_dict :: "NmConnection \<Rightarrow> SettingsDict" where
  "to_settings_dict p =
     [(''connection'', connection_dict p)] @ specific_dict p @ infiniband_dict p @ ethernet_dict p
     @ sriov_dict p
     @ [(''ipv4'', ip_section_dict (nm_ipv4 p) V4), (''ipv6'', ip_section_dict (nm_ipv6 p) V6)]"

section \<open>Addresses and masters of a link\<close>

definition nm_settings :: "IpConfig \<Rightarrow> NmIpSettings" where
  "nm_settings ip =
     \<lparr>nm_method = (case ip_method ip of Static \<Rightarrow> Manual | Disabled \<Rightarrow> NmDisabled | _ \<Rightarrow> Auto),
      nm_addresses = ip_addresses ip, nm_gateway = ip_gateway ip, nm_dns = [], nm_routes = []\<rparr>"

definition nm_pair :: "IpConfig \<times> IpConfig \<Rightarrow> ip_pair" where
  "nm_pair p = (nm_settings (fst p), nm_settings (snd p))"

lemma address_to_nm_settings_row: "address_to_nm_settings a = nm_settings (row_ip a)"
  by (cases "addr_method a"; cases "addr_family a")
    (simp_all add: address_to_nm_settings_def nm_settings_def row_ip_def)

lemma nm_pair_default: "nm_pair (default_ip, default_ip) = default_ip_pair"
  by (simp add: nm_pair_def nm_settings_def default_ip_def default_ip_pair_def nm_ip_default_def)

lemma add_address_update:
  assumes "\<And>n. m n = map_option nm_pair (map_of g n)"
  shows "add_address a m n =
    map_option nm_pair
      (map_of (AList.update (addr_link a) (set_family a (or_default (map_of g (addr_link a)))) g) n)"
  using assms
  by (cases "map_of g (addr_link a)"; cases "addr_family a")
    (auto simp: add_address_def update_conv' set_family_def or_default_def nm_pair_default [symmetric]
      nm_pair_def address_to_nm_settings_row Let_def)

lemma fold_add_address:
  "(\<And>n. m n = map_option nm_pair (map_of g n)) \<Longrightarrow>
     fold add_address as m n = map_option nm_pair (map_of (group_addresses g as) n)"
proof (induction as arbitrary: m g)
  case (Cons a as)
  show ?case using Cons.IH [OF add_address_update [OF Cons.prems]] by simp
qed simp

lemma addrs_by_link_lookup:
  "(case addrs_by_link (addresses c) (link_name l) of Some p \<Rightarrow> p | None \<Rightarrow> default_ip_pair) =
     nm_pair (link_ips c l)"
  using fold_add_address [of Map.empty "[]" "addresses c" "link_name l"]
  by (cases "map_of (group_addresses [] (addresses c)) (link_name l)")
    (auto simp: addrs_by_link_def link_ips_def or_default_def nm_pair_default)

definition port_type_of :: "LinkKind \<Rightarrow> string" where
  "port_type_of k = (case k of Bond _ _ _ \<Rightarrow> ''bond'' | _ \<Rightarrow> ''bridge'')"

definition port_rows :: "Link \<Rightarrow> (string \<times> string \<times> string) list" where
  "port_rows l = map (\<lambda>x. (x, link_name l, port_type_of (link_kind l))) (members l)"

lemma enslave_map: "enslave a p ms m = m ++ map_of (rev (map (\<lambda>x. (x, a, p)) ms))"
  by (induction ms arbitrary: m) (auto simp: enslave_def)

lemma add_master_map: "add_master l m = m ++ map_of (rev (port_rows l))"
  by (cases "link_kind l") (auto simp: add_master_def port_rows_def members_def port_type_of_def enslave_map)

lemma fold_add_master: "fold add_master ls m = m ++ map_of (rev (concat (map port_rows ls)))"
  by (induction ls arbitrary: m) (simp_all add: add_master_map)

lemma fst_port_rows: "map fst (concat (map port_rows ls)) = concat (map members ls)"
  by (induction ls) (auto simp: port_rows_def comp_def)

lemma master_of_in:
  assumes "distinct (concat (map members ls))" "l \<in> set ls" "x \<in> set (members l)"
  shows "master_of ls x = Some (link_name l, port_type_of (link_kind l))"
proof -
  have "distinct (map fst (rev (concat (map port_rows ls))))"
    using assms(1) by (simp add: rev_map [symmetric] fst_port_rows)
  moreover have "(x, link_name l, port_type_of (link_kind l)) \<in> set (rev (concat (map port_rows ls)))"
    using assms(2,3) by (auto simp: port_rows_def)
  ultimately show ?thesis
    by (simp add: master_of_def fold_add_master)
qed

lemma master_of_notin:
  "(\<And>l. l \<in> set ls \<Longrightarrow> x \<notin> set (members l)) \<Longrightarrow> master_of ls x = None"
  by (auto simp: master_of_def fold_add_master map_of_eq_None_iff port_rows_def)

lemma route_step:
  "(case add_route r m n of None \<Rightarrow> ([], []) | Some p \<Rightarrow> p) =
     (let p = (case m n of None \<Rightarrow> ([], []) | Some p \<Rightarrow> p)
      in if route_dev r = n
         then (if CHR '':'' \<in> set (route_dst r) then (fst p, snd p @ [route_dst r])
               else (fst p @ [route_dst r], snd p))
         else p)"
  by (auto simp: add_route_def Let_def split: option.splits prod.splits)

lemma fold_add_route:
  "(case fold add_route rs m n of None \<Rightarrow> ([], []) | Some p \<Rightarrow> p) =
     (let p = (case m n of None \<Rightarrow> ([], []) | Some p \<Rightarrow> p);
          ds = map route_dst (filter (\<lambda>r. route_dev r = n) rs)
      in (fst p @ filter (\<lambda>d. CHR '':'' \<notin> set d) ds, snd p @ filter (\<lambda>d. CHR '':'' \<in> set d) ds))"
  by (induction rs arbitrary: m) (auto simp: route_step Let_def)

lemma split_dns_filter:
  "split_dns_by_family ds =
     (filter (\<lambda>s. CHR '':'' \<notin> set s) ds, filter (\<lambda>s. CHR '':'' \<in> set s) ds)"
proof -
  have "fold (\<lambda>s (v4, v6). if CHR '':'' \<in> set s then (v4, v6 @ [s]) else (v4 @ [s], v6)) ds (a, b) =
      (a @ filter (\<lambda>s. CHR '':'' \<notin> set s) ds, b @ filter (\<lambda>s. CHR '':'' \<in> set s) ds)" for a b
    by (induction ds arbitrary: a b) auto
  then show ?thesis by (simp add: split_dns_by_family_def)
qed

lemma routes_by_dev_set:
  "set_routes (routes_by_dev rs n) p =
     (let ds = map route_dst (filter (\<lambda>r. route_dev r = n) rs)
      in if routes_by_dev rs n = None then p
         else p\<lparr>nm_ipv4 := (nm_ipv4 p)\<lparr>nm_routes := filter (\<lambda>d. CHR '':'' \<notin> set d) ds\<rparr>,
                nm_ipv6 := (nm_ipv6 p)\<lparr>nm_routes := filter (\<lambda>d. CHR '':'' \<in> set d) ds\<rparr>\<rparr>)"
  using fold_add_route [of rs Map.empty n]
  by (auto simp: set_routes_def routes_by_dev_def Let_def split: option.splits)

lemma routes_by_dev_None: "routes_by_dev rs n = None \<Longrightarrow> filter (\<lambda>r. route_dev r = n) rs = []"
proof -
  have dom: "dom (fold add_route rs m) = dom m \<union> route_dev ` set rs" for m
  proof (induction rs arbitrary: m)
    case (Cons r rs)
    have "dom (add_route r m) = insert (route_dev r) (dom m)"
      by (auto simp: add_route_def Let_def split: option.splits prod.splits if_splits)
    then show ?case by (simp add: Cons.IH)
  qed simp
  assume "routes_by_dev rs n = None"
  then have "n \<notin> dom (fold add_route rs Map.empty)" by (auto simp: routes_by_dev_def)
  then show ?thesis by (auto simp: dom filter_empty_conv)
qed

section \<open>The profile of a link\<close>

definition link_profile :: "(string \<Rightarrow> string) \<Rightarrow> LayeredConfig \<Rightarrow> MacContext \<Rightarrow> Link \<Rightarrow> NmConnection" where
  "link_profile uuid5 c ctx l =
     set_inherited_mac ctx (link_kind l)
       (set_routes (routes_by_dev (routes c) (link_name l))
         (set_dns (split_dns_by_family (layered_dns c))
           (profile_for_link uuid5 l (addrs_by_link (addresses c)) (master_of (links c)) ctx)))"

lemma to_nm_profiles_map: "to_nm_profiles_with_macs uuid5 c ctx = map (link_profile uuid5 c ctx) (links c)"
  by (simp add: to_nm_profiles_with_macs_def link_profile_def Let_def)

lemma set_inherited_mac_simps [simp]:
  "nm_id (set_inherited_mac ctx k p) = nm_id p"
  "nm_uuid (set_inherited_mac ctx k p) = nm_uuid p"
  "nm_interface_name (set_inherited_mac ctx k p) = nm_interface_name p"
  "nm_conn_type (set_inherited_mac ctx k p) = nm_conn_type p"
  "nm_controller (set_inherited_mac ctx k p) = nm_controller p"
  "nm_port_type (set_inherited_mac ctx k p) = nm_port_type p"
  "nm_autoconnect (set_inherited_mac ctx k p) = nm_autoconnect p"
  "nm_mtu (set_inherited_mac ctx k p) = nm_mtu p"
  "nm_ipv4 (set_inherited_mac ctx k p) = nm_ipv4 p"
  "nm_ipv6 (set_inherited_mac ctx k p) = nm_ipv6 p"
  by (auto simp: set_inherited_mac_def split: option.splits)

lemma set_routes_simps [simp]:
  "nm_id (set_routes r p) = nm_id p"
  "nm_uuid (set_routes r p) = nm_uuid p"
  "nm_interface_name (set_routes r p) = nm_interface_name p"
  "nm_conn_type (set_routes r p) = nm_conn_type p"
  "nm_controller (set_routes r p) = nm_controller p"
  "nm_port_type (set_routes r p) = nm_port_type p"
  "nm_autoconnect (set_routes r p) = nm_autoconnect p"
  "nm_mtu (set_routes r p) = nm_mtu p"
  "nm_mac (set_routes r p) = nm_mac p"
  by (auto simp: set_routes_def split: option.splits)

lemma set_dns_simps [simp]:
  "nm_id (set_dns ds p) = nm_id p"
  "nm_uuid (set_dns ds p) = nm_uuid p"
  "nm_interface_name (set_dns ds p) = nm_interface_name p"
  "nm_conn_type (set_dns ds p) = nm_conn_type p"
  "nm_controller (set_dns ds p) = nm_controller p"
  "nm_port_type (set_dns ds p) = nm_port_type p"
  "nm_autoconnect (set_dns ds p) = nm_autoconnect p"
  "nm_mtu (set_dns ds p) = nm_mtu p"
  "nm_mac (set_dns ds p) = nm_mac p"
  by (auto simp: set_dns_def)

lemma profile_for_link_simps [simp]:
  "nm_id (profile_for_link u l as ms ctx) = ''nasty-'' @ link_name l"
  "nm_uuid (profile_for_link u l as ms ctx) = u (link_name l)"
  "nm_interface_name (profile_for_link u l as ms ctx) = link_name l"
  "nm_conn_type (profile_for_link u l as ms ctx) = fst (type_specific ctx (link_name l) (link_kind l))"
  "nm_controller (profile_for_link u l as ms ctx) = map_option fst (ms (link_name l))"
  "nm_port_type (profile_for_link u l as ms ctx) = map_option snd (ms (link_name l))"
  "nm_mtu (profile_for_link u l as ms ctx) = link_mtu l"
  "nm_mac (profile_for_link u l as ms ctx) = link_mac l"
  by (simp_all add: profile_for_link_def Let_def)

lemma link_profile_simps [simp]:
  "nm_id (link_profile u c ctx l) = ''nasty-'' @ link_name l"
  "nm_uuid (link_profile u c ctx l) = u (link_name l)"
  "nm_interface_name (link_profile u c ctx l) = link_name l"
  "nm_conn_type (link_profile u c ctx l) = fst (type_specific ctx (link_name l) (link_kind l))"
  "nm_controller (link_profile u c ctx l) = map_option fst (master_of (links c) (link_name l))"
  "nm_port_type (link_profile u c ctx l) = map_option snd (master_of (links c) (link_name l))"
  "nm_mtu (link_profile u c ctx l) = link_mtu l"
  by (simp_all add: link_profile_def)

definition dev_routes :: "LayeredConfig \<Rightarrow> string \<Rightarrow> string list" where
  "dev_routes c n = map route_dst (filter (\<lambda>r. route_dev r = n) (routes c))"

definition v4_of :: "string list \<Rightarrow> string list" where
  "v4_of ds = filter (\<lambda>d. CHR '':'' \<notin> set d) ds"

definition v6_of :: "string list \<Rightarrow> string list" where
  "v6_of ds = filter (\<lambda>d. CHR '':'' \<in> set d) ds"

lemma link_profile_member:
  assumes "master_of (links c) (link_name l) \<noteq> None"
  shows "nm_ipv4 (link_profile u c ctx l) = nm_ip_default\<lparr>nm_routes := v4_of (dev_routes c (link_name l))\<rparr>"
    and "nm_ipv6 (link_profile u c ctx l) = nm_ip_default\<lparr>nm_routes := v6_of (dev_routes c (link_name l))\<rparr>"
  using assms routes_by_dev_None [of "routes c" "link_name l"]
  by (auto simp: link_profile_def routes_by_dev_set set_dns_def profile_for_link_def Let_def
      dev_routes_def v4_of_def v6_of_def nm_ip_default_def)

lemma link_profile_standalone:
  assumes "master_of (links c) (link_name l) = None"
  shows "nm_ipv4 (link_profile u c ctx l) =
      (nm_settings (fst (link_ips c l)))
        \<lparr>nm_dns := v4_of (layered_dns c), nm_routes := v4_of (dev_routes c (link_name l))\<rparr>"
    and "nm_ipv6 (link_profile u c ctx l) =
      (nm_settings (snd (link_ips c l)))
        \<lparr>nm_dns := v6_of (layered_dns c), nm_routes := v6_of (dev_routes c (link_name l))\<rparr>"
  using assms routes_by_dev_None [of "routes c" "link_name l"]
  by (auto simp: link_profile_def routes_by_dev_set set_dns_def profile_for_link_def Let_def
      dev_routes_def v4_of_def v6_of_def split_dns_filter addrs_by_link_lookup nm_pair_def nm_settings_def)

lemma profile_of_link:
  assumes "distinct (map link_name (links c))" "l \<in> set (links c)"
    and "p \<in> set (to_nm_profiles_with_macs u c ctx)" "nm_interface_name p = link_name l"
  shows "p = link_profile u c ctx l"
proof -
  obtain k where "k \<in> set (links c)" "p = link_profile u c ctx k"
    using assms(3) by (auto simp: to_nm_profiles_map)
  moreover from this have "k = l"
    using assms(1,2,4) by (auto simp: distinct_map inj_on_def)
  ultimately show ?thesis by simp
qed

lemma the_profile:
  assumes "distinct (map link_name (links c))" "l \<in> set (links c)"
  shows "filter (\<lambda>p. nm_interface_name p = link_name l) (to_nm_profiles_with_macs u c ctx) = [link_profile u c ctx l]"
proof -
  have "filter (\<lambda>k. link_name k = link_name l) ls = [l]" if "distinct (map link_name ls)" "l \<in> set ls" for ls
    using that
  proof (induction ls)
    case (Cons k ls)
    then show ?case
      by (cases "k = l") (force simp: filter_empty_conv image_iff)+
  qed simp
  from this [OF assms] show ?thesis by (simp add: to_nm_profiles_map filter_map comp_def)
qed

lemma declared_link:
  "d \<in> set (decls c) \<Longrightarrow> \<exists>l\<in>set (links (to_layered c)). link_name l = fst d"
proof -
  assume "d \<in> set (decls c)"
  then have "fst d \<in> set (map link_name (declared_links c))" by (simp add: link_names_decls)
  then show ?thesis by (auto simp: to_layered_def)
qed

lemma layered_ok_names_distinct: "layered_ok (to_layered c) \<Longrightarrow> names_distinct c"
  by (auto simp: layered_ok_def names_distinct_def to_layered_def)


lemma standalone_profile:
  assumes "validate (to_layered c) = Inr ()" "(n, ip4, ip6) \<in> set (decls c)"
    and "\<forall>l\<in>set (links (to_layered c)). n \<notin> set (members l)"
  obtains l where "l \<in> set (links (to_layered c))" "link_name l = n"
    "filter (\<lambda>p. nm_interface_name p = n) (to_nm_profiles_with_macs u (to_layered c) ctx) =
       [link_profile u (to_layered c) ctx l]"
    "nm_controller (link_profile u (to_layered c) ctx l) = None"
    "nm_port_type (link_profile u (to_layered c) ctx l) = None"
    "nm_ipv4 (link_profile u (to_layered c) ctx l) = (nm_settings ip4)
      \<lparr>nm_dns := v4_of (dns c), nm_routes := v4_of (dev_routes (to_layered c) n)\<rparr>"
    "nm_ipv6 (link_profile u (to_layered c) ctx l) = (nm_settings ip6)
      \<lparr>nm_dns := v6_of (dns c), nm_routes := v6_of (dev_routes (to_layered c) n)\<rparr>"
proof -
  have ok: "layered_ok (to_layered c)" using assms(1) by (simp add: validate_iff)
  then have d: "distinct (map fst (decls c))"
    by (simp add: layered_ok_names_distinct names_distinct_decls [symmetric])
  obtain l where l: "l \<in> set (links (to_layered c))" "link_name l = n"
    using declared_link [OF assms(2)] by auto
  have "master_of (links (to_layered c)) (link_name l) = None"
    using assms(3) l(2) by (intro master_of_notin) auto
  with link_profile_standalone [of "to_layered c" l u ctx] link_ips_in [OF d assms(2), of l] l
    the_profile [of "to_layered c" l u ctx] ok
  show thesis by (intro that [of l]) (simp_all add: to_layered_def layered_ok_def)
qed

section \<open>Properties\<close>

definition nm_example :: NetworkConfig where
  "nm_example = default_network
     \<lparr>interfaces := [\<lparr>if_name = ''eth0'', if_enabled = True, if_ipv4 = default_ip, if_ipv6 = default_ip,
                     if_mtu = None, if_sriov_num_vfs = None, if_vfs = []\<rparr>],
      dns := [''9.9.9.9'', ''2620:fe::fe''],
      bridges := [\<lparr>bridge_name = ''br0'', bridge_members = [''eth1'', ''eth0''],
                   bridge_ipv4 = \<lparr>ip_method = Static, ip_addresses = [''10.0.0.2/24''], ip_gateway = Some ''10.0.0.1''\<rparr>,
                   bridge_ipv6 = default_ip, bridge_mtu = Some 9000, bridge_stp = False,
                   bridge_forward_delay_s = None, bridge_inherit_member_mac = True,
                   bridge_dhcp_relay = None\<rparr>]\<rparr>"

definition nm_example_ctx :: MacContext where
  "nm_example_ctx = \<lparr>live_macs = [''eth0'' \<mapsto> ''02:00:00:00:00:0a'', ''eth1'' \<mapsto> ''02:00:00:00:00:0b''],
                  mgmt_iface = Some ''eth0'', infiniband_ifaces = []\<rparr>"

lemma nm_example_valid: "validate (to_layered nm_example) = Inr ()"
  by code_simp

text \<open>
  C26. In the profiles of a configuration the validator accepts, every member of a bond or
  bridge has exactly one profile. It is a port of that master, with the port type of the
  master's kind; both its families are disabled, with no address, no gateway and no DNS server;
  of the configuration's L3 settings it carries only the on-link routes through that device.
\<close>
theorem member_ports_follow_master:
  assumes "validate c = Inr ()" "l \<in> set (links c)" "m \<in> set (members l)"
  shows "\<exists>p. filter (\<lambda>p. nm_interface_name p = m) (to_nm_profiles_with_macs u c ctx) = [p] \<and>
    nm_controller p = Some (link_name l) \<and>
    nm_port_type p = Some (case link_kind l of Bond _ _ _ \<Rightarrow> ''bond'' | _ \<Rightarrow> ''bridge'') \<and>
    nm_ipv4 p = \<lparr>nm_method = NmDisabled, nm_addresses = [], nm_gateway = None, nm_dns = [],
                 nm_routes = v4_of (dev_routes c m)\<rparr> \<and>
    nm_ipv6 p = \<lparr>nm_method = NmDisabled, nm_addresses = [], nm_gateway = None, nm_dns = [],
                 nm_routes = v6_of (dev_routes c m)\<rparr>"
proof -
  have ok: "layered_ok c" using assms(1) by (simp add: validate_iff)
  have "m \<in> set (deps l)" using assms(3) by (cases "link_kind l") (auto simp: members_def deps_def)
  then obtain k where k: "k \<in> set (links c)" "link_name k = m"
    using ok assms(2) unfolding layered_ok_def by blast
  then have mo: "master_of (links c) (link_name k) = Some (link_name l, port_type_of (link_kind l))"
    using master_of_in [of "links c" l m] ok assms(2,3) by (auto simp: layered_ok_def)
  have "filter (\<lambda>p. nm_interface_name p = m) (to_nm_profiles_with_macs u c ctx) = [link_profile u c ctx k]"
    using the_profile [of c k u ctx] ok k by (simp add: layered_ok_def)
  then show ?thesis
    using link_profile_member [of c k u ctx] mo k(2)
    by (intro exI [of _ "link_profile u c ctx k"]) (auto simp: port_type_of_def nm_ip_default_def)
qed

theorem member_ports_follow_master_witness:
  "\<exists>p. filter (\<lambda>p. nm_interface_name p = ''eth1'')
        (to_nm_profiles_with_macs id (to_layered nm_example) nm_example_ctx) = [p] \<and>
     nm_controller p = Some ''br0'' \<and> nm_port_type p = Some ''bridge'' \<and> nm_method (nm_ipv4 p) = NmDisabled"
proof -
  have l: "links (to_layered nm_example) ! 1 \<in> set (links (to_layered nm_example))"
    "''eth1'' \<in> set (members (links (to_layered nm_example) ! 1))"
    "link_name (links (to_layered nm_example) ! 1) = ''br0''"
    "port_type_of (link_kind (links (to_layered nm_example) ! 1)) = ''bridge''"
    by code_simp+
  show ?thesis
    using member_ports_follow_master [OF nm_example_valid l(1,2), of id nm_example_ctx] l(3,4)
    by (auto simp: port_type_of_def)
qed

text \<open>
  C27. Every interface, bond, bridge, VLAN or macvlan of an accepted configuration that is not
  a member of another one gets exactly one profile. It has no controller, and each of its two IP
  sections holds the configured addresses and gateway, the configured DNS servers of that
  family, the on-link routes of that family for that device, and the method \<open>manual\<close> for static
  addressing, \<open>disabled\<close> for none and \<open>auto\<close> otherwise.
\<close>
theorem standalone_profile_carries_config:
  assumes "validate (to_layered c) = Inr ()" "(n, ip4, ip6) \<in> set (decls c)"
    and "\<forall>l\<in>set (links (to_layered c)). n \<notin> set (members l)"
  shows "\<exists>p. filter (\<lambda>p. nm_interface_name p = n) (to_nm_profiles_with_macs u (to_layered c) ctx) = [p] \<and>
    nm_controller p = None \<and> nm_port_type p = None \<and>
    nm_ipv4 p = \<lparr>nm_method = (case ip_method ip4 of Static \<Rightarrow> Manual | Disabled \<Rightarrow> NmDisabled | _ \<Rightarrow> Auto),
                 nm_addresses = ip_addresses ip4, nm_gateway = ip_gateway ip4,
                 nm_dns = v4_of (dns c), nm_routes = v4_of (dev_routes (to_layered c) n)\<rparr> \<and>
    nm_ipv6 p = \<lparr>nm_method = (case ip_method ip6 of Static \<Rightarrow> Manual | Disabled \<Rightarrow> NmDisabled | _ \<Rightarrow> Auto),
                 nm_addresses = ip_addresses ip6, nm_gateway = ip_gateway ip6,
                 nm_dns = v6_of (dns c), nm_routes = v6_of (dev_routes (to_layered c) n)\<rparr>"
  by (rule standalone_profile [OF assms, of u ctx]) (simp add: nm_settings_def)

theorem standalone_profile_carries_config_witness:
  "\<exists>p. filter (\<lambda>p. nm_interface_name p = ''br0'')
        (to_nm_profiles_with_macs id (to_layered nm_example) nm_example_ctx) = [p] \<and>
     nm_method (nm_ipv4 p) = Manual \<and> nm_addresses (nm_ipv4 p) = [''10.0.0.2/24''] \<and>
     nm_dns (nm_ipv6 p) = [''2620:fe::fe'']"
proof -
  let ?ip = "\<lparr>ip_method = Static, ip_addresses = [''10.0.0.2/24''], ip_gateway = Some ''10.0.0.1''\<rparr>"
  have d: "(''br0'', ?ip, default_ip) \<in> set (decls nm_example)" by (simp add: decls_def nm_example_def)
  have m: "\<forall>l\<in>set (links (to_layered nm_example)). ''br0'' \<notin> set (members l)" by code_simp
  have "v6_of (dns nm_example) = [''2620:fe::fe'']" by code_simp
  then show ?thesis
    using standalone_profile_carries_config [OF nm_example_valid d m, of id nm_example_ctx] by auto
qed

text \<open>
  C31. A bond or bridge that inherits its member's MAC and has the management interface among
  its members gets the management interface's live MAC, so the DHCP client identity of the
  session that made the change is kept.
\<close>
theorem management_mac_is_inherited:
  assumes "distinct (map link_name (links c))" "l \<in> set (links c)" "inherits_member_mac (link_kind l)"
    and "mgmt_iface ctx = Some m" "m \<in> set (members l)" "live_macs ctx m = Some mac"
    and "p \<in> set (to_nm_profiles_with_macs u c ctx)" "nm_interface_name p = link_name l"
  shows "nm_mac p = Some mac"
proof -
  have "pick_primary_member (link_kind l) ctx = Some m"
    using assms(4,5)
    by (cases "link_kind l") (auto simp: pick_primary_member_def pick_among_def members_def)
  then show ?thesis
    using profile_of_link [OF assms(1,2,7,8)] assms(3,6)
    by (simp add: link_profile_def set_inherited_mac_def)
qed

theorem management_mac_is_inherited_witness:
  "nm_mac (to_nm_profiles_with_macs id (to_layered nm_example) nm_example_ctx ! 1) =
     Some ''02:00:00:00:00:0a''"
proof -
  let ?c = "to_layered nm_example"
  let ?ps = "to_nm_profiles_with_macs id ?c nm_example_ctx"
  let ?l = "links ?c ! 1"
  have h: "distinct (map link_name (links ?c))" "?l \<in> set (links ?c)"
    "inherits_member_mac (link_kind ?l)" "''eth0'' \<in> set (members ?l)" "1 < length ?ps"
    "nm_interface_name (?ps ! 1) = link_name ?l"
    by code_simp+
  have x: "mgmt_iface nm_example_ctx = Some ''eth0''" "live_macs nm_example_ctx ''eth0'' = Some ''02:00:00:00:00:0a''"
    by (simp_all add: nm_example_ctx_def)
  show ?thesis
    by (rule management_mac_is_inherited [OF h(1-3) x(1) h(4) x(2) nth_mem [OF h(5)] h(6)])
qed

lemma opt_list_Some [simp]: "opt_list f (Some x) = [f x]"
  by (simp add: opt_list_def)

lemma opt_list_None [simp]: "opt_list f None = []"
  by (simp add: opt_list_def)

lemma set_opt_list: "x \<in> set (opt_list f o') \<longleftrightarrow> (\<exists>y. o' = Some y \<and> x = f y)"
  by (auto simp: opt_list_def split: option.splits)

definition mtu_section :: "NmConnectionType \<Rightarrow> string" where
  "mtu_section t = (if t = Infiniband then ''infiniband'' else ''802-3-ethernet'')"

text \<open>
  C32. The MTU of every profile but a macvlan's reaches NetworkManager: it is in the
  \<open>infiniband\<close> section of an IPoIB profile and in the \<open>802-3-ethernet\<close> section of every other
  one, bridges included.
\<close>
theorem mtu_reaches_nm:
  assumes "nm_mtu p = Some m" "nm_conn_type p \<noteq> MacvlanConn"
  shows "Option.bind (map_of (to_settings_dict p) (mtu_section (nm_conn_type p))) (\<lambda>d. map_of d ''mtu'') =
     Some (VU32 (ucast m))"
  using assms
  by (cases "nm_type_specific p"; cases "nm_conn_type p")
    (auto simp: to_settings_dict_def specific_dict_def infiniband_dict_def ethernet_dict_def
      needs_eth_section_def mtu_entry_def mtu_section_def)

definition nm_example_conn :: NmConnection where
  "nm_example_conn =
     \<lparr>nm_id = ''nasty-br0'', nm_uuid = ''u'', nm_conn_type = BridgeConn, nm_interface_name = ''br0'',
      nm_controller = None, nm_port_type = None, nm_mtu = Some 9000, nm_sriov_num_vfs = None, nm_vfs = [],
      nm_mac = None, nm_autoconnect = True, nm_ipv4 = nm_ip_default, nm_ipv6 = nm_ip_default,
      nm_type_specific = BridgeSpec False None\<rparr>"

theorem mtu_reaches_nm_witness:
  "Option.bind (map_of (to_settings_dict nm_example_conn) ''802-3-ethernet'') (\<lambda>d. map_of d ''mtu'') =
     Some (VU32 9000)"
  using mtu_reaches_nm [of nm_example_conn 9000]
  by (simp add: nm_example_conn_def mtu_section_def)

text \<open>
  C33. The MTU of a macvlan host shim is configurable but has no effect: neither the settings
  sent to NetworkManager nor the inspectable keyfile depends on it.
\<close>
theorem macvlan_mtu_has_no_effect:
  assumes "nm_conn_type p = MacvlanConn"
  shows "to_settings_dict (p\<lparr>nm_mtu := m\<rparr>) = to_settings_dict p \<and>
    serialize_keyfile (p\<lparr>nm_mtu := m\<rparr>) = serialize_keyfile p"
  using assms
  by (cases "nm_type_specific p")
    (auto simp: to_settings_dict_def connection_dict_def specific_dict_def infiniband_dict_def
      ethernet_dict_def needs_eth_section_def sriov_dict_def serialize_keyfile_def
      keyfile_connection_def keyfile_specific_def Let_def)

definition nm_example_shim :: NmConnection where
  "nm_example_shim = nm_example_conn
     \<lparr>nm_conn_type := MacvlanConn, nm_type_specific := MacvlanSpec ''br0'' ''bridge'', nm_mtu := None\<rparr>"

theorem macvlan_mtu_has_no_effect_witness:
  "to_settings_dict (nm_example_shim\<lparr>nm_mtu := Some 9000\<rparr>) = to_settings_dict nm_example_shim"
  using macvlan_mtu_has_no_effect [of nm_example_shim "Some 9000"] by (simp add: nm_example_shim_def)


section \<open>Types of the settings\<close>

text \<open>
  The D-Bus signature of a value, and the signatures NetworkManager documents for the properties
  of its settings that the engine uses. NetworkManager refuses a connection with a property of
  another type. Hardware addresses are six bytes and IPv6 servers sixteen.
\<close>

fun signature_of :: "Variant \<Rightarrow> string" where
  "signature_of (VStr _) = ''s''"
| "signature_of (VBool _) = ''b''"
| "signature_of (VU32 _) = ''u''"
| "signature_of (VBytes _) = ''ay''"
| "signature_of (VU32s _) = ''au''"
| "signature_of (VBytesList _) = ''aay''"
| "signature_of (VStrMap _) = ''a{ss}''"
| "signature_of (VDicts _) = ''aa{sv}''"

fun sized :: "Variant \<Rightarrow> bool" where
  "sized (VBytes b) = (length b = 6)"
| "sized (VBytesList bs) = list_all (\<lambda>b. length b = 16) bs"
| "sized _ = True"

definition ip_schema :: "string \<Rightarrow> (string \<times> string) list" where
  "ip_schema dns_type =
     [(''method'', ''s''), (''address-data'', ''aa{sv}''), (''gateway'', ''s''), (''dns'', dns_type),
      (''route-data'', ''aa{sv}'')]"

definition nm_schema :: "(string \<times> (string \<times> string) list) list" where
  "nm_schema =
     [(''connection'',
       [(''id'', ''s''), (''uuid'', ''s''), (''type'', ''s''), (''interface-name'', ''s''),
        (''autoconnect'', ''b''), (''controller'', ''s''), (''port-type'', ''s'')]),
      (''bond'', [(''options'', ''a{ss}'')]),
      (''bridge'',
       [(''stp'', ''b''), (''forward-delay'', ''u''), (''multicast-snooping'', ''b''), (''mac-address'', ''ay'')]),
      (''vlan'', [(''parent'', ''s''), (''id'', ''u'')]),
      (''macvlan'', [(''parent'', ''s''), (''mode'', ''u'')]),
      (''infiniband'', [(''transport-mode'', ''s''), (''mtu'', ''u'')]),
      (''802-3-ethernet'', [(''mtu'', ''u''), (''cloned-mac-address'', ''ay'')]),
      (''sriov'', [(''total-vfs'', ''u''), (''vfs'', ''aa{sv}'')]),
      (''ipv4'', ip_schema ''au''),
      (''ipv6'', ip_schema ''aay'')]"

definition typed_section :: "(string \<times> string) list \<Rightarrow> section_dict \<Rightarrow> bool" where
  "typed_section s d \<longleftrightarrow>
     distinct (map fst d) \<and> list_all (\<lambda>(k, v). map_of s k = Some (signature_of v) \<and> sized v) d"

definition typed_settings :: "SettingsDict \<Rightarrow> bool" where
  "typed_settings d \<longleftrightarrow>
     distinct (map fst d) \<and>
     list_all (\<lambda>(n, s). case map_of nm_schema n of None \<Rightarrow> False | Some sch \<Rightarrow> typed_section sch s) d"

lemma hex_octets_length: "hex_octets ps = Some bs \<Longrightarrow> length bs = length ps"
  by (induction ps arbitrary: bs) (auto split: option.splits)

lemma mac_to_bytes_length: "mac_to_bytes m = Some bs \<Longrightarrow> length bs = 6"
  by (auto simp: mac_to_bytes_def Let_def split: if_splits dest: hex_octets_length)

lemma v6_octets_length: "length (v6_octets gs) = 2 * length gs"
  by (induction gs) (auto simp: v6_octets_def)

lemma parse_ipv6_length: "parse_ipv6 s = Some gs \<Longrightarrow> length gs = 8"
  by (auto simp: parse_ipv6_def split: option.splits prod.splits if_splits dest: read_ipv6_addr_length)

lemma ip_section_typed:
  "typed_section (ip_schema ''au'') (ip_section_dict ip V4)" "typed_section (ip_schema ''aay'') (ip_section_dict ip V6)"
proof -
  have "list_all (\<lambda>b. length b = 16) (List.map_filter (\<lambda>s. map_option v6_octets (parse_ipv6 s)) ds)" for ds
    by (auto simp: list_all_iff map_filter_def v6_octets_length dest: parse_ipv6_length)
  then show "typed_section (ip_schema ''aay'') (ip_section_dict ip V6)"
    by (cases "nm_gateway ip") (auto simp: typed_section_def ip_section_dict_def ip_schema_def nonempty_def dns_entry_def opt_list_def)
  show "typed_section (ip_schema ''au'') (ip_section_dict ip V4)"
    by (cases "nm_gateway ip") (auto simp: typed_section_def ip_section_dict_def ip_schema_def nonempty_def dns_entry_def opt_list_def)
qed

lemma bridge_section_typed:
  "typed_section [(''stp'', ''b''), (''forward-delay'', ''u''), (''multicast-snooping'', ''b''), (''mac-address'', ''ay'')]
     ([(''stp'', VBool stp)] @ opt_list (\<lambda>d. (''forward-delay'', VU32 (ucast d))) fd
      @ [(''multicast-snooping'', VBool False)] @ mac_entry ''mac-address'' m)"
  by (cases fd; cases "Option.bind m mac_to_bytes")
    (auto simp: typed_section_def mac_entry_def opt_list_def dest: mac_to_bytes_length split: bind_splits)

lemma ethernet_section_typed:
  "typed_section [(''mtu'', ''u''), (''cloned-mac-address'', ''ay'')]
     (mtu_entry mt @ (if b then mac_entry ''cloned-mac-address'' m else []))"
  by (cases mt; cases "Option.bind m mac_to_bytes")
    (auto simp: typed_section_def mtu_entry_def mac_entry_def opt_list_def dest: mac_to_bytes_length split: bind_splits)

lemma connection_section_typed:
  "\<exists>s. map_of nm_schema ''connection'' = Some s \<and> typed_section s (connection_dict p)"
  by (cases "nm_controller p"; cases "nm_port_type p")
    (auto simp: nm_schema_def typed_section_def connection_dict_def)

lemma specific_section_typed:
  "(n, d) \<in> set (specific_dict p) \<Longrightarrow> n \<in> {''bond'', ''bridge'', ''vlan'', ''macvlan''} \<and>
     (\<exists>s. map_of nm_schema n = Some s \<and> typed_section s d)"
  by (cases "nm_type_specific p")
    (auto simp: specific_dict_def nm_schema_def bridge_section_typed [simplified] typed_section_def [of _ "[_]"]
      typed_section_def [of _ "[_, _]"])

lemma sriov_section_typed:
  "(n, d) \<in> set (sriov_dict p) \<Longrightarrow> n = ''sriov'' \<and> (\<exists>s. map_of nm_schema n = Some s \<and> typed_section s d)"
  by (auto simp: sriov_dict_def set_opt_list nm_schema_def typed_section_def nonempty_def)

lemma link_section_typed:
  "(n, d) \<in> set (infiniband_dict p) \<Longrightarrow> n = ''infiniband'' \<and> (\<exists>s. map_of nm_schema n = Some s \<and> typed_section s d)"
  "(n, d) \<in> set (ethernet_dict p) \<Longrightarrow> n = ''802-3-ethernet'' \<and> (\<exists>s. map_of nm_schema n = Some s \<and> typed_section s d)"
  subgoal by (cases "nm_mtu p") (auto simp: infiniband_dict_def nm_schema_def typed_section_def mtu_entry_def split: if_splits)
  subgoal using ethernet_section_typed [of "nm_mtu p" "nm_conn_type p \<noteq> BridgeConn" "nm_mac p"]
    by (auto simp: ethernet_dict_def nm_schema_def Let_def split: if_splits)
  done

text \<open>The sections come in a fixed order, so none comes twice.\<close>

lemma section_order:
  "subseq (map fst (infiniband_dict p)) [''infiniband'']" "subseq (map fst (ethernet_dict p)) [''802-3-ethernet'']"
  "subseq (map fst (sriov_dict p)) [''sriov'']"
  "subseq (map fst (specific_dict p)) [''bond'', ''bridge'', ''vlan'', ''macvlan'']"
  subgoal by (simp add: infiniband_dict_def)
  subgoal by (simp add: ethernet_dict_def Let_def)
  subgoal by (cases "nm_sriov_num_vfs p") (simp_all add: sriov_dict_def)
  subgoal by (cases "nm_type_specific p") (simp_all add: specific_dict_def)
  done

lemma subseq_distinct: "subseq xs ys \<Longrightarrow> distinct ys \<Longrightarrow> distinct xs"
  by (induction rule: list_emb.induct) (auto dest: list_emb_set)

lemma sections_distinct: "distinct (map fst (to_settings_dict p))"
proof (rule subseq_distinct)
  show "subseq (map fst (to_settings_dict p))
     ([''connection''] @ [''bond'', ''bridge'', ''vlan'', ''macvlan''] @ [''infiniband''] @ [''802-3-ethernet''] @ [''sriov'']
      @ [''ipv4'', ''ipv6''])"
    unfolding to_settings_dict_def map_append by (intro list_emb_append_mono section_order) simp_all
qed simp

text \<open>
  C25. Every settings dictionary the engine sends to NetworkManager has the documented types,
  whatever the configuration: no section and no property comes twice, every property is one of
  its section's with the signature NetworkManager expects, hardware addresses have six bytes and
  IPv6 DNS servers sixteen.
\<close>
theorem settings_well_typed: "typed_settings (to_settings_dict p)"
proof -
  have ip: "map_of nm_schema ''ipv4'' = Some (ip_schema ''au'')" "map_of nm_schema ''ipv6'' = Some (ip_schema ''aay'')"
    by (simp_all add: nm_schema_def)
  have "\<exists>s. map_of nm_schema n = Some s \<and> typed_section s d" if "(n, d) \<in> set (to_settings_dict p)" for n d
    using that ip ip_section_typed connection_section_typed [of p] specific_section_typed [of n d p]
      sriov_section_typed [of n d p] link_section_typed [of n d p]
    unfolding to_settings_dict_def by auto
  then have "list_all (\<lambda>(n, s). case map_of nm_schema n of None \<Rightarrow> False | Some sch \<Rightarrow> typed_section sch s) (to_settings_dict p)"
    by (fastforce simp: list_all_iff)
  then show ?thesis using sections_distinct by (simp add: typed_settings_def)
qed

end
