(* ===== verification/Management.thy ===== *)
theory Management
  imports Network_Checks Nm
begin

text \<open>
  What the risk classifier of \<open>nasty-system/src/network.rs\<close> guarantees of the connection
  profiles \<open>nasty-system/src/network/nm.rs\<close> makes: a change it lets through without the
  confirm-or-rollback safety net leaves the profile of the interface the client is connected
  through as it was, where that interface is a plain one.
\<close>

definition plain_interface :: "NetworkConfig \<Rightarrow> InterfaceConfig \<Rightarrow> bool" where
  "plain_interface c i \<longleftrightarrow>
     i \<in> set (interfaces c) \<and>
     (\<forall>b\<in>set (bridges c). if_name i \<notin> set (bridge_members b)) \<and>
     (\<forall>b\<in>set (bonds c). if_name i \<notin> set (bond_members b))"

lemma plain_no_port:
  "plain_interface c i \<Longrightarrow> \<forall>l\<in>set (links (to_layered c)). if_name i \<notin> set (members l)"
  by (auto simp: plain_interface_def links_to_layered members_def link_of_defs)

lemma interface_declared: "i \<in> set (interfaces c) \<Longrightarrow> (if_name i, if_ipv4 i, if_ipv6 i) \<in> set (decls c)"
  by (simp add: decls_def)

lemma interface_routes:
  assumes "layered_ok (to_layered c)" "i \<in> set (interfaces c)"
  shows "dev_routes (to_layered c) (if_name i) = []"
proof -
  have "distinct (map fst (decls c))"
    using assms(1) by (simp add: layered_ok_names_distinct names_distinct_decls [symmetric])
  then have "if_name i \<notin> mv_name ` set (macvlans c)"
    using assms(2) by (auto simp: decls_def)
  then show ?thesis
    by (auto simp: dev_routes_def to_layered_def macvlan_routes_def filter_empty_conv image_iff)
qed

lemma plain_profile:
  assumes "validate (to_layered c) = Inr ()" "plain_interface c i"
  shows "\<exists>p. filter (\<lambda>p. nm_interface_name p = if_name i) (to_nm_profiles_with_macs u (to_layered c) ctx) = [p] \<and>
    p = \<lparr>nm_id = ''nasty-'' @ if_name i, nm_uuid = u (if_name i),
         nm_conn_type = (if if_name i \<in> set (infiniband_ifaces ctx) then Infiniband else Ethernet),
         nm_interface_name = if_name i, nm_controller = None, nm_port_type = None,
         nm_mtu = if_mtu i, nm_sriov_num_vfs = if_sriov_num_vfs i, nm_vfs = if_vfs i, nm_mac = None,
         nm_autoconnect = if_enabled i,
         nm_ipv4 = (nm_settings (if_ipv4 i))\<lparr>nm_dns := v4_of (dns c)\<rparr>,
         nm_ipv6 = (nm_settings (if_ipv6 i))\<lparr>nm_dns := v6_of (dns c)\<rparr>,
         nm_type_specific = NoSpecific\<rparr>"
proof -
  have ok: "layered_ok (to_layered c)" and i: "i \<in> set (interfaces c)"
    using assms by (simp_all add: validate_iff plain_interface_def)
  obtain l where l: "l \<in> set (links (to_layered c))" "link_name l = if_name i"
    "filter (\<lambda>p. nm_interface_name p = if_name i) (to_nm_profiles_with_macs u (to_layered c) ctx) =
       [link_profile u (to_layered c) ctx l]"
    "nm_controller (link_profile u (to_layered c) ctx l) = None"
    "nm_port_type (link_profile u (to_layered c) ctx l) = None"
    "nm_ipv4 (link_profile u (to_layered c) ctx l) = (nm_settings (if_ipv4 i))
      \<lparr>nm_dns := v4_of (dns c), nm_routes := v4_of (dev_routes (to_layered c) (if_name i))\<rparr>"
    "nm_ipv6 (link_profile u (to_layered c) ctx l) = (nm_settings (if_ipv6 i))
      \<lparr>nm_dns := v6_of (dns c), nm_routes := v6_of (dev_routes (to_layered c) (if_name i))\<rparr>"
    by (rule standalone_profile [OF assms(1) interface_declared [OF i] plain_no_port [OF assms(2)]])
  have "iface_link i \<in> set (links (to_layered c))" "link_name (iface_link i) = if_name i"
    using i by (simp_all add: links_to_layered link_of_defs)
  with ok l(1,2) have "l = iface_link i"
    unfolding layered_ok_def distinct_map inj_on_def by metis
  with l show ?thesis
    using interface_routes [OF ok i]
    by (intro exI [of _ "link_profile u (to_layered c) ctx (iface_link i)"])
      (simp add: link_profile_def set_inherited_mac_def set_routes_def set_dns_def profile_for_link_def
        Let_def link_of_defs nm_settings_def v4_of_def v6_of_def split: option.splits)
qed

lemma find_interface:
  assumes "validate (to_layered c) = Inr ()" "i \<in> set (interfaces c)"
  shows "find (\<lambda>k. if_name k = if_name i) (interfaces c) = Some i"
proof -
  have "distinct (map if_name (interfaces c))"
    using assms(1) by (simp add: validate_iff layered_ok_def links_to_layered link_of_defs comp_def)
  moreover have "find (\<lambda>k. if_name k = if_name i) is = Some i" if "distinct (map if_name is)" "i \<in> set is" for "is"
    using that by (induction "is") auto
  ultimately show ?thesis using assms(2) by blast
qed

text \<open>
  C24. Let the client be connected through a plain interface: one with its own entry in the
  stored configuration that no bond or bridge holds. A change the classifier lets through
  without the safety net keeps the connection profile of that interface. Under the same live
  context there is exactly one before and one after, it is still no port of a bond or bridge,
  and it differs at most in its DNS servers, its virtual functions and a switch from not
  connecting automatically to doing so: type, MTU, MAC, addressing methods, addresses,
  gateways and routes are those of before.
\<close>
theorem safe_change_keeps_management_profile:
  assumes "classify_risk prev nxt (Some (if_name i)) = None" "plain_interface prev i"
    and "validate (to_layered prev) = Inr ()" "validate (to_layered nxt) = Inr ()"
  shows "\<exists>p q.
    filter (\<lambda>p. nm_interface_name p = if_name i) (to_nm_profiles_with_macs u (to_layered prev) ctx) = [p] \<and>
    filter (\<lambda>p. nm_interface_name p = if_name i) (to_nm_profiles_with_macs u (to_layered nxt) ctx) = [q] \<and>
    nm_controller p = None \<and> (nm_autoconnect p \<longrightarrow> nm_autoconnect q) \<and>
    q = p\<lparr>nm_autoconnect := nm_autoconnect q, nm_sriov_num_vfs := nm_sriov_num_vfs q, nm_vfs := nm_vfs q,
          nm_ipv4 := (nm_ipv4 p)\<lparr>nm_dns := nm_dns (nm_ipv4 q)\<rparr>,
          nm_ipv6 := (nm_ipv6 p)\<lparr>nm_dns := nm_dns (nm_ipv6 q)\<rparr>\<rparr>"
proof -
  note h = unflagged_interface [OF assms(1) find_interface [OF assms(3)]]
  have pl: "i \<in> set (interfaces prev)" "\<forall>b\<in>set (bridges prev). if_name i \<notin> set (bridge_members b)"
    "\<forall>b\<in>set (bonds prev). if_name i \<notin> set (bond_members b)"
    using assms(2) by (simp_all add: plain_interface_def)
  obtain j where j: "find (\<lambda>k. if_name k = if_name i) (interfaces nxt) = Some j" "if_ipv4 j = if_ipv4 i"
    "if_ipv6 j = if_ipv6 i" "if_mtu j = if_mtu i" "if_enabled i \<longrightarrow> if_enabled j"
    using h(1) [OF pl] by blast
  then have n: "if_name j = if_name i" "j \<in> set (interfaces nxt)" by (auto simp: find_Some_iff)
  then have "plain_interface nxt j"
    using h(2,3) [OF pl] by (simp add: plain_interface_def)
  from plain_profile [OF assms(4) this, of u ctx] plain_profile [OF assms(3,2), of u ctx] n(1) j(2-5)
  show ?thesis by (auto simp: nm_settings_def)
qed

definition example_plain :: NetworkConfig where
  "example_plain = default_network
     \<lparr>interfaces := [\<lparr>if_name = ''eth0'', if_enabled = True,
                     if_ipv4 = \<lparr>ip_method = Static, ip_addresses = [''10.0.0.7/24''], ip_gateway = Some ''10.0.0.1''\<rparr>,
                     if_ipv6 = default_ip, if_mtu = Some 9000, if_sriov_num_vfs = None, if_vfs = []\<rparr>]\<rparr>"

definition example_extended :: NetworkConfig where
  "example_extended = example_plain
     \<lparr>dns := [''9.9.9.9''], bridges := [example_bridge\<lparr>bridge_members := [''eth1'']\<rparr>]\<rparr>"

theorem safe_change_keeps_management_profile_witness:
  "\<exists>q. filter (\<lambda>p. nm_interface_name p = ''eth0'')
        (to_nm_profiles_with_macs id (to_layered example_extended) mac_context_default) = [q] \<and>
     nm_controller q = None \<and> nm_addresses (nm_ipv4 q) = [''10.0.0.7/24''] \<and> nm_mtu q = Some 9000"
proof -
  let ?i = "hd (interfaces example_plain)"
  have h: "classify_risk example_plain example_extended (Some (if_name ?i)) = None" "plain_interface example_plain ?i"
    "validate (to_layered example_plain) = Inr ()" "validate (to_layered example_extended) = Inr ()"
    "if_name ?i = ''eth0''" "if_ipv4 ?i = \<lparr>ip_method = Static, ip_addresses = [''10.0.0.7/24''], ip_gateway = Some ''10.0.0.1''\<rparr>"
    "if_mtu ?i = Some 9000"
    by code_simp+
  obtain p where p: "filter (\<lambda>p. nm_interface_name p = ''eth0'')
      (to_nm_profiles_with_macs id (to_layered example_plain) mac_context_default) = [p]"
    "nm_addresses (nm_ipv4 p) = [''10.0.0.7/24'']" "nm_mtu p = Some 9000"
    using plain_profile [OF h(3,2), of id mac_context_default] h(5-7) by (auto simp: nm_settings_def)
  from safe_change_keeps_management_profile [OF h(1-4), of id mac_context_default]
  obtain q where q: "filter (\<lambda>p. nm_interface_name p = ''eth0'')
      (to_nm_profiles_with_macs id (to_layered example_extended) mac_context_default) = [q]"
    "nm_controller p = None"
    "q = p\<lparr>nm_autoconnect := nm_autoconnect q, nm_sriov_num_vfs := nm_sriov_num_vfs q, nm_vfs := nm_vfs q,
          nm_ipv4 := (nm_ipv4 p)\<lparr>nm_dns := nm_dns (nm_ipv4 q)\<rparr>,
          nm_ipv6 := (nm_ipv6 p)\<lparr>nm_dns := nm_dns (nm_ipv6 q)\<rparr>\<rparr>"
    using p(1) unfolding h(5) by auto
  have "nm_controller q = None" "nm_addresses (nm_ipv4 q) = [''10.0.0.7/24'']" "nm_mtu q = Some 9000"
    using p(2,3) q(2) by (subst q(3), simp)+
  then show ?thesis using q(1) by blast
qed

end
