(* ===== verification/Nm_Dbus.thy ===== *)
theory Nm_Dbus
  imports Nm
begin

text \<open>
  \<open>nasty-system/src/network/nm/dbus.rs\<close>: the difference between the desired profiles and
  what NetworkManager holds, and the apply pass over D-Bus. NetworkManager is outside the
  repository; its state is the list of stored connections, and the parameters of an apply are
  the outcome of each call, the object path of each added connection, the settings it reports
  back for a stored dictionary, and the rendering of a variant that the comparison uses. A
  failed call changes nothing, as for any D-Bus method that returns an error.
\<close>

record NmExisting =
  ex_path :: string
  ex_id :: string
  ex_settings :: SettingsDict

record nm_world =
  nm_conns :: "(string \<times> SettingsDict) list"
  nm_devices :: "(string \<times> string option) list"
  nm_applied :: "(string \<times> SettingsDict) list"
  nm_calls :: nat

record nm_env =
  nm_out :: outcomes
  nm_path :: "nat \<Rightarrow> string"
  nm_store :: "SettingsDict \<Rightarrow> SettingsDict"
  nm_debug :: "Variant \<Rightarrow> string"

type_synonym 'a nm_io = "(nm_world, string, 'a) io"

section \<open>Difference\<close>

definition read_string :: "SettingsDict \<Rightarrow> string \<Rightarrow> string \<Rightarrow> string option" where
  "read_string settings section' key =
     Option.bind (map_of settings section') (\<lambda>d.
     Option.bind (map_of d key) (\<lambda>v. case v of VStr s \<Rightarrow> Some s | _ \<Rightarrow> None))"

definition section_changed :: "(Variant \<Rightarrow> string) \<Rightarrow> section_dict option \<Rightarrow> section_dict option \<Rightarrow> bool" where
  "section_changed dbg a b =
     (case (a, b) of
        (None, None) \<Rightarrow> False
      | (Some _, None) \<Rightarrow> True
      | (None, Some _) \<Rightarrow> True
      | (Some a, Some b) \<Rightarrow>
          length a \<noteq> length b \<or>
          list_ex (\<lambda>(k, va). case map_of b k of None \<Rightarrow> True | Some vb \<Rightarrow> dbg va \<noteq> dbg vb) a)"

definition diff_sections :: "(Variant \<Rightarrow> string) \<Rightarrow> SettingsDict \<Rightarrow> SettingsDict \<Rightarrow> string list" where
  "diff_sections dbg a b =
     filter (\<lambda>s. section_changed dbg (map_of a s) (map_of b s)) (remdups (sort (map fst a @ map fst b)))"

definition section_changed_any :: "(Variant \<Rightarrow> string) \<Rightarrow> SettingsDict \<Rightarrow> SettingsDict \<Rightarrow> bool" where
  "section_changed_any dbg a b \<longleftrightarrow> diff_sections dbg a b \<noteq> []"

definition existing_by_id :: "NmExisting list \<Rightarrow> string \<rightharpoonup> NmExisting" where
  "existing_by_id es = map_of (rev (map (\<lambda>e. (ex_id e, e)) es))"

record NmDiff =
  to_add :: "string list"
  to_update :: "(string \<times> string list) list"
  to_delete :: "string list"
  sum_add :: nat
  sum_update :: nat
  sum_delete :: nat
  sum_unchanged :: nat

definition diff_default :: NmDiff where
  "diff_default = \<lparr>to_add = [], to_update = [], to_delete = [], sum_add = 0, sum_update = 0,
                   sum_delete = 0, sum_unchanged = 0\<rparr>"

definition diff_desired :: "(Variant \<Rightarrow> string) \<Rightarrow> NmExisting list \<Rightarrow> NmConnection \<Rightarrow> NmDiff \<Rightarrow> NmDiff" where
  "diff_desired dbg es d out =
     (case existing_by_id es (nm_id d) of
        None \<Rightarrow> out\<lparr>to_add := to_add out @ [nm_id d], sum_add := sum_add out + 1\<rparr>
      | Some e \<Rightarrow>
          (let changed = diff_sections dbg (to_settings_dict d) (ex_settings e)
           in if changed = [] then out\<lparr>sum_unchanged := sum_unchanged out + 1\<rparr>
              else out\<lparr>to_update := to_update out @ [(nm_id d, changed)], sum_update := sum_update out + 1\<rparr>))"

definition diff_existing :: "NmConnection list \<Rightarrow> NmExisting \<Rightarrow> NmDiff \<Rightarrow> NmDiff" where
  "diff_existing desired e out =
     (if ex_id e \<notin> nm_id ` set desired
      then out\<lparr>to_delete := to_delete out @ [ex_id e], sum_delete := sum_delete out + 1\<rparr>
      else out)"

definition compute_diff :: "(Variant \<Rightarrow> string) \<Rightarrow> NmConnection list \<Rightarrow> NmExisting list \<Rightarrow> NmDiff" where
  "compute_diff dbg desired es =
     fold (diff_existing desired) es (fold (diff_desired dbg es) desired diff_default)"

section \<open>D-Bus calls\<close>

definition nm_call :: "nm_env \<Rightarrow> (nm_world \<Rightarrow> nm_world) \<Rightarrow> unit nm_io" where
  "nm_call env f w =
     (case nm_out env (nm_calls w) of
        Some e \<Rightarrow> (Inl e, w\<lparr>nm_calls := Suc (nm_calls w)\<rparr>)
      | None \<Rightarrow> (Inr (), (f w)\<lparr>nm_calls := Suc (nm_calls w)\<rparr>))"

definition list_connections :: "nm_env \<Rightarrow> string list nm_io" where
  "list_connections env =
     io_bind (nm_call env id) (\<lambda>_. io_get (\<lambda>w. map fst (nm_conns w)))"

definition get_settings :: "nm_env \<Rightarrow> string \<Rightarrow> SettingsDict nm_io" where
  "get_settings env path =
     io_bind (nm_call env id) (\<lambda>_.
     io_bind (io_get (\<lambda>w. map_of (nm_conns w) path)) (\<lambda>s.
       case s of None \<Rightarrow> io_fail ''unknown connection'' | Some d \<Rightarrow> io_return d))"

fun list_nasty :: "nm_env \<Rightarrow> string list \<Rightarrow> NmExisting list nm_io" where
  "list_nasty env [] = io_return []"
| "list_nasty env (path # paths) =
     io_case (get_settings env path)
       (\<lambda>_. list_nasty env paths)
       (\<lambda>settings.
          case read_string settings ''connection'' ''id'' of
            None \<Rightarrow> list_nasty env paths
          | Some i \<Rightarrow>
              if take 6 i = ''nasty-''
              then io_bind (list_nasty env paths) (\<lambda>es.
                     io_return (\<lparr>ex_path = path, ex_id = i, ex_settings = settings\<rparr> # es))
              else list_nasty env paths)"

definition list_nasty_connections :: "nm_env \<Rightarrow> NmExisting list nm_io" where
  "list_nasty_connections env = io_bind (list_connections env) (list_nasty env)"

definition add_connection :: "nm_env \<Rightarrow> SettingsDict \<Rightarrow> string nm_io" where
  "add_connection env d =
     io_bind (io_get (\<lambda>w. nm_path env (nm_calls w))) (\<lambda>path.
     io_bind (nm_call env (\<lambda>w. w\<lparr>nm_conns := nm_conns w @ [(path, nm_store env d)]\<rparr>)) (\<lambda>_.
     io_return path))"

definition update_connection :: "nm_env \<Rightarrow> string \<Rightarrow> SettingsDict \<Rightarrow> unit nm_io" where
  "update_connection env path d =
     nm_call env (\<lambda>w. w\<lparr>nm_conns := map (\<lambda>(p, s). if p = path then (p, nm_store env d) else (p, s)) (nm_conns w)\<rparr>)"

definition delete_connection :: "nm_env \<Rightarrow> string \<Rightarrow> unit nm_io" where
  "delete_connection env path =
     nm_call env (\<lambda>w. w\<lparr>nm_conns := filter (\<lambda>(p, _). p \<noteq> path) (nm_conns w)\<rparr>)"

definition find_device_by_name :: "nm_env \<Rightarrow> string \<Rightarrow> string option nm_io" where
  "find_device_by_name env iface =
     io_bind (nm_call env id) (\<lambda>_.
     io_get (\<lambda>w. map_option fst (find (\<lambda>(_, n). n = Some iface) (nm_devices w))))"

definition activate_connection :: "nm_env \<Rightarrow> string \<Rightarrow> string \<Rightarrow> unit nm_io" where
  "activate_connection env conn device =
     nm_call env (\<lambda>w. w\<lparr>nm_applied :=
       (case map_of (nm_conns w) conn of
          None \<Rightarrow> nm_applied w
        | Some d \<Rightarrow> AList.update device d (nm_applied w))\<rparr>)"

definition reapply :: "nm_env \<Rightarrow> string \<Rightarrow> SettingsDict \<Rightarrow> unit nm_io" where
  "reapply env device d = nm_call env (\<lambda>w. w\<lparr>nm_applied := AList.update device d (nm_applied w)\<rparr>)"

definition apply_connection :: "nm_env \<Rightarrow> NmConnection \<Rightarrow> string \<Rightarrow> string \<Rightarrow> unit nm_io" where
  "apply_connection env p conn device =
     (if nm_conn_type p = BridgeConn \<and> device \<noteq> ''/'' then
        io_case (nm_call env id)
          (\<lambda>_. activate_connection env conn device)
          (\<lambda>_. io_bind (io_get (\<lambda>w. map_of (nm_applied w) device)) (\<lambda>applied.
             if Option.bind applied (\<lambda>s. read_string s ''connection'' ''uuid'') = Some (nm_uuid p)
             then io_case (reapply env device (to_settings_dict p))
                    (\<lambda>_. activate_connection env conn device) io_return
             else activate_connection env conn device))
      else activate_connection env conn device)"

section \<open>Apply\<close>

record NmApplyOutcome =
  added :: "string list"
  updated :: "string list"
  deleted :: "string list"
  unchanged :: "string list"
  activated :: "string list"
  errors :: "(string \<times> string) list"

definition outcome_default :: NmApplyOutcome where
  "outcome_default = \<lparr>added = [], updated = [], deleted = [], unchanged = [], activated = [], errors = []\<rparr>"

definition fail_with :: "string \<Rightarrow> string \<Rightarrow> NmApplyOutcome \<Rightarrow> NmApplyOutcome" where
  "fail_with i e out = out\<lparr>errors := AList.update i e (errors out)\<rparr>"

type_synonym targets = "(NmConnection \<times> string) list"

definition target :: "NmConnection \<Rightarrow> string \<Rightarrow> targets" where
  "target d path = (if nm_autoconnect d then [(d, path)] else [])"

definition push_desired ::
  "nm_env \<Rightarrow> NmExisting list \<Rightarrow> NmConnection \<Rightarrow> NmApplyOutcome \<times> targets \<Rightarrow> (NmApplyOutcome \<times> targets) nm_io" where
  "push_desired env es d st =
     (let out = fst st; ts = snd st; dict = to_settings_dict d
      in case existing_by_id es (nm_id d) of
           None \<Rightarrow>
             io_case (add_connection env dict)
               (\<lambda>e. io_return (fail_with (nm_id d) e out, ts))
               (\<lambda>path. io_return (out\<lparr>added := added out @ [nm_id d]\<rparr>, ts @ target d path))
         | Some e \<Rightarrow>
             if section_changed_any (nm_debug env) dict (ex_settings e) then
               io_case (update_connection env (ex_path e) dict)
                 (\<lambda>err. io_return (fail_with (nm_id d) err out, ts))
                 (\<lambda>_. io_return (out\<lparr>updated := updated out @ [nm_id d]\<rparr>, ts @ target d (ex_path e)))
             else io_return (out\<lparr>unchanged := unchanged out @ [nm_id d]\<rparr>, ts @ target d (ex_path e)))"

definition delete_orphan :: "nm_env \<Rightarrow> NmConnection list \<Rightarrow> NmExisting \<Rightarrow> NmApplyOutcome \<Rightarrow> NmApplyOutcome nm_io" where
  "delete_orphan env desired e out =
     (if ex_id e \<notin> nm_id ` set desired
      then io_case (delete_connection env (ex_path e))
             (\<lambda>err. io_return (fail_with (ex_id e) err out))
             (\<lambda>_. io_return (out\<lparr>deleted := deleted out @ [ex_id e]\<rparr>))
      else io_return out)"

definition activation_device :: "NmConnectionType \<Rightarrow> string option \<Rightarrow> string \<Rightarrow> string + string" where
  "activation_device kind existing iface =
     (case existing of
        Some device \<Rightarrow> Inr device
      | None \<Rightarrow>
          if kind \<in> {BridgeConn, BondConn, VlanConn, MacvlanConn} then Inr ''/''
          else Inl (''no NM-managed device matches interface '' @ iface))"

definition activate_target :: "nm_env \<Rightarrow> NmConnection \<times> string \<Rightarrow> NmApplyOutcome \<Rightarrow> NmApplyOutcome nm_io" where
  "activate_target env t out =
     (let p = fst t
      in io_case (io_bind (find_device_by_name env (nm_interface_name p)) (\<lambda>device.
                    io_lift (activation_device (nm_conn_type p) device (nm_interface_name p))))
           (\<lambda>e. io_return (fail_with (nm_id p) e out))
           (\<lambda>device.
              io_case (apply_connection env p (snd t) device)
                (\<lambda>e. io_return (fail_with (nm_id p) (''activate: '' @ e) out))
                (\<lambda>_. io_return (out\<lparr>activated := activated out @ [nm_id p]\<rparr>))))"

definition apply_profiles :: "nm_env \<Rightarrow> NmConnection list \<Rightarrow> NmApplyOutcome nm_io" where
  "apply_profiles env desired =
     io_bind (list_nasty_connections env) (\<lambda>es.
     io_bind (io_fold (push_desired env es) desired (outcome_default, [])) (\<lambda>(out, ts).
     io_bind (io_fold (delete_orphan env desired) es out) (\<lambda>out.
     io_fold (activate_target env) ts out)))"

section \<open>Connections of others\<close>

definition is_nasty :: "SettingsDict \<Rightarrow> bool" where
  "is_nasty s \<longleftrightarrow>
     (case read_string s ''connection'' ''id'' of None \<Rightarrow> False | Some i \<Rightarrow> take 6 i = ''nasty-'')"

definition holds :: "(string \<times> SettingsDict) set \<Rightarrow> nm_world \<Rightarrow> bool" where
  "holds F w \<longleftrightarrow> F \<subseteq> set (nm_conns w)"

lemma keeps_nm_call [io_rules]: "(\<And>w. holds F w \<Longrightarrow> holds F (f w)) \<Longrightarrow> keeps (holds F) (nm_call env f)"
  by (auto simp: keeps_def nm_call_def holds_def split: option.splits)

lemma keeps_add [io_rules]: "keeps (holds F) (add_connection env d)"
  unfolding add_connection_def by (intro io_rules) (auto simp: holds_def)

lemma keeps_update: "path \<notin> fst ` F \<Longrightarrow> keeps (holds F) (update_connection env path d)"
  unfolding update_connection_def
  by (intro io_rules) (force simp: holds_def)

lemma keeps_delete: "path \<notin> fst ` F \<Longrightarrow> keeps (holds F) (delete_connection env path)"
  unfolding delete_connection_def
  by (intro io_rules) (force simp: holds_def)

lemma keeps_activate [io_rules]: "keeps (holds F) (activate_connection env c d)"
  unfolding activate_connection_def by (intro io_rules) (simp add: holds_def)

lemma keeps_apply_connection [io_rules]: "keeps (holds F) (apply_connection env p c d)"
  unfolding apply_connection_def reapply_def by (intro io_rules) (simp_all add: holds_def)

lemma keeps_activate_target: "keeps (holds F) (activate_target env t out)"
  unfolding activate_target_def Let_def find_device_by_name_def by (intro io_rules) (simp_all add: holds_def)

lemma existing_by_id_Some: "existing_by_id es i = Some e \<Longrightarrow> e \<in> set es \<and> ex_id e = i"
  by (auto simp: existing_by_id_def dest!: map_of_SomeD)

lemma keeps_push:
  assumes "\<And>e. e \<in> set es \<Longrightarrow> ex_path e \<notin> fst ` F"
  shows "keeps (holds F) (push_desired env es d st)"
  unfolding push_desired_def Let_def
  by (intro io_rules keeps_update) (use assms existing_by_id_Some in blast)

lemma keeps_delete_orphan:
  "ex_path e \<notin> fst ` F \<Longrightarrow> keeps (holds F) (delete_orphan env desired e out)"
  unfolding delete_orphan_def by (intro io_rules keeps_delete)

text \<open>Reading does not change the stored connections, and yields only NASty's own.\<close>

definition own_entry :: "(string \<times> SettingsDict) list \<Rightarrow> NmExisting \<Rightarrow> bool" where
  "own_entry C e \<longleftrightarrow>
     map_of C (ex_path e) = Some (ex_settings e) \<and> take 6 (ex_id e) = ''nasty-'' \<and>
     read_string (ex_settings e) ''connection'' ''id'' = Some (ex_id e)"

lemma triple_get_settings:
  "triple (\<lambda>w. nm_conns w = C) (get_settings env path)
     (\<lambda>d w. nm_conns w = C \<and> map_of C path = Some d) (\<lambda>_ w. nm_conns w = C)"
  by (auto simp: triple_def get_settings_def nm_call_def io_defs split: option.splits)

lemma triple_list_nasty:
  "triple (\<lambda>w. nm_conns w = C) (list_nasty env paths)
     (\<lambda>es w. nm_conns w = C \<and> list_all (own_entry C) es) (\<lambda>_ w. nm_conns w = C)"
proof (induction paths)
  case (Cons path paths)
  have rec: "triple (\<lambda>w. nm_conns w = C \<and> map_of C path = Some d) (list_nasty env paths)
      (\<lambda>es w. nm_conns w = C \<and> list_all (own_entry C) es) (\<lambda>_ w. nm_conns w = C)" for d
    by (rule triple_conseq [OF Cons.IH]) auto
  have push: "triple (\<lambda>w. nm_conns w = C \<and> map_of C path = Some d)
      (io_bind (list_nasty env paths)
        (\<lambda>es. io_return (\<lparr>ex_path = path, ex_id = i, ex_settings = d\<rparr> # es)))
      (\<lambda>es w. nm_conns w = C \<and> list_all (own_entry C) es) (\<lambda>_ w. nm_conns w = C)"
    if "read_string d ''connection'' ''id'' = Some i" "take 6 i = ''nasty-''" for d i
  proof (rule triple_bind)
    show "triple (\<lambda>w. nm_conns w = C \<and> map_of C path = Some d) (list_nasty env paths)
        (\<lambda>es w. nm_conns w = C \<and> list_all (own_entry C) es \<and> map_of C path = Some d) (\<lambda>_ w. nm_conns w = C)"
      using Cons.IH by (auto simp: triple_def split: sum.splits)
  qed (auto intro!: triple_return simp: own_entry_def that)
  show ?case
    unfolding list_nasty.simps
    by (rule triple_case [OF triple_get_settings])
      (use Cons.IH rec push in \<open>auto split: option.splits\<close>)
qed (simp add: triple_return)

lemma triple_list_nasty_connections:
  "triple (\<lambda>w. nm_conns w = C) (list_nasty_connections env)
     (\<lambda>es w. nm_conns w = C \<and> list_all (own_entry C) es) (\<lambda>_ w. nm_conns w = C)"
  unfolding list_nasty_connections_def
proof (rule triple_bind)
  show "triple (\<lambda>w. nm_conns w = C) (list_connections env) (\<lambda>_ w. nm_conns w = C) (\<lambda>_ w. nm_conns w = C)"
    by (auto simp: triple_def list_connections_def nm_call_def io_defs split: option.splits)
qed (rule triple_list_nasty)

definition foreign :: "(string \<times> SettingsDict) list \<Rightarrow> (string \<times> SettingsDict) set" where
  "foreign C = {(p, s) \<in> set C. \<not> is_nasty s}"

lemma own_path_not_foreign:
  assumes "distinct (map fst C)" "own_entry C e"
  shows "ex_path e \<notin> fst ` foreign C"
proof
  assume "ex_path e \<in> fst ` foreign C"
  then obtain s where "(ex_path e, s) \<in> set C" "\<not> is_nasty s" by (auto simp: foreign_def)
  with assms have "ex_settings e = s" by (auto simp: own_entry_def)
  with assms(2) \<open>\<not> is_nasty s\<close> show False by (auto simp: own_entry_def is_nasty_def)
qed

text \<open>
  C15. Whatever calls fail, an apply leaves every stored connection that is not NASty's own,
  those whose id does not begin with the ownership marker, as it was: same object path, same
  settings.
\<close>
theorem apply_keeps_foreign_connections:
  assumes "distinct (map fst (nm_conns w))" "apply_profiles env desired w = (r, w')"
    and "(path, s) \<in> set (nm_conns w)" "\<not> is_nasty s"
  shows "(path, s) \<in> set (nm_conns w')"
proof -
  let ?F = "foreign (nm_conns w)"
  have F: "(path, s) \<in> ?F" using assms(3,4) by (simp add: foreign_def)
  obtain r1 w1 where l: "list_nasty_connections env w = (r1, w1)" by fastforce
  show ?thesis
  proof (cases r1)
    case (Inl e)
    with l assms(2) have "w' = w1" by (simp add: apply_profiles_def io_defs)
    moreover have "nm_conns w1 = nm_conns w"
      using tripleD(2) [OF triple_list_nasty_connections _ l [unfolded Inl]] by simp
    ultimately show ?thesis using assms(3) by simp
  next
    case (Inr es)
    have es: "nm_conns w1 = nm_conns w" "list_all (own_entry (nm_conns w)) es"
      using tripleD(1) [OF triple_list_nasty_connections _ l [unfolded Inr]] by simp_all
    then have own: "ex_path e \<notin> fst ` ?F" if "e \<in> set es" for e
      using own_path_not_foreign [OF assms(1)] that by (simp add: list_all_iff)
    have "keeps (holds ?F) (case x of (out, ts) \<Rightarrow>
        io_bind (io_fold (delete_orphan env desired) es out) (\<lambda>out.
        io_fold (activate_target env) ts out))" for x
      by (cases x) (auto intro!: keeps_bind keeps_fold keeps_delete_orphan own keeps_activate_target)
    then have "keeps (holds ?F)
        (io_bind (io_fold (push_desired env es) desired (outcome_default, [])) (\<lambda>(out, ts).
         io_bind (io_fold (delete_orphan env desired) es out) (\<lambda>out.
         io_fold (activate_target env) ts out)))"
      by (intro keeps_bind keeps_fold keeps_push own)
    from keepsD [OF this, of w1 r w'] have "holds ?F w'"
      using l Inr assms(2) es(1) by (auto simp: apply_profiles_def io_defs holds_def foreign_def)
    with F show ?thesis by (auto simp: holds_def)
  qed
qed

section \<open>Preview and apply agree\<close>

text \<open>An environment in which no call fails.\<close>

definition all_ok :: "nm_env \<Rightarrow> bool" where
  "all_ok env \<longleftrightarrow> nm_out env = (\<lambda>_. None)"

lemma nm_call_ok: "all_ok env \<Longrightarrow> nm_call env f w = (Inr (), (f w)\<lparr>nm_calls := Suc (nm_calls w)\<rparr>)"
  by (simp add: all_ok_def nm_call_def)

definition own_connections :: "(string \<times> SettingsDict) list \<Rightarrow> NmExisting list" where
  "own_connections C =
     List.map_filter (\<lambda>(p, s).
       case read_string s ''connection'' ''id'' of
         None \<Rightarrow> None
       | Some i \<Rightarrow> if take 6 i = ''nasty-'' then Some \<lparr>ex_path = p, ex_id = i, ex_settings = s\<rparr> else None) C"

lemma list_nasty_ok:
  assumes "all_ok env" "distinct (map fst (nm_conns w))" "set D \<subseteq> set (nm_conns w)"
  shows "\<exists>k. list_nasty env (map fst D) w = (Inr (own_connections D), w\<lparr>nm_calls := k\<rparr>)"
  using assms(2,3)
proof (induction D arbitrary: w)
  case Nil
  then show ?case by (intro exI [of _ "nm_calls w"]) (simp add: io_defs own_connections_def)
next
  case (Cons x D)
  obtain p s where x: "x = (p, s)" by fastforce
  with Cons.prems have "map_of (nm_conns w) p = Some s" by simp
  moreover obtain k where "list_nasty env (map fst D) (w\<lparr>nm_calls := Suc (nm_calls w)\<rparr>) =
      (Inr (own_connections D), w\<lparr>nm_calls := k\<rparr>)"
    using Cons.IH [of "w\<lparr>nm_calls := Suc (nm_calls w)\<rparr>"] Cons.prems by auto
  ultimately show ?case
    using assms(1)
    by (auto simp: x get_settings_def nm_call_ok io_defs own_connections_def map_filter_simps split: option.splits)
qed

lemma list_nasty_connections_ok:
  assumes "all_ok env" "distinct (map fst (nm_conns w))"
  shows "\<exists>k. list_nasty_connections env w = (Inr (own_connections (nm_conns w)), w\<lparr>nm_calls := k\<rparr>)"
  using list_nasty_ok [of env "w\<lparr>nm_calls := Suc (nm_calls w)\<rparr>" "nm_conns w"] assms
  by (auto simp: list_nasty_connections_def list_connections_def nm_call_ok io_defs)

definition agrees :: "NmApplyOutcome \<Rightarrow> NmDiff \<Rightarrow> bool" where
  "agrees out D \<longleftrightarrow>
     added out = to_add D \<and> updated out = map fst (to_update D) \<and> deleted out = to_delete D \<and>
     length (unchanged out) = sum_unchanged D"

lemma push_agrees:
  assumes "all_ok env" "agrees (fst st) D"
  shows "\<exists>st' w'. push_desired env es d st w = (Inr st', w') \<and>
    agrees (fst st') (diff_desired (nm_debug env) es d D)"
  using assms
  by (auto simp: push_desired_def diff_desired_def Let_def agrees_def section_changed_any_def
      add_connection_def update_connection_def nm_call_ok io_defs split: option.splits)

lemma push_all_agrees:
  assumes "all_ok env" "agrees (fst st) D"
  shows "\<exists>st' w'. io_fold (push_desired env es) ds st w = (Inr st', w') \<and>
    agrees (fst st') (fold (diff_desired (nm_debug env) es) ds D)"
  using assms(2)
proof (induction ds arbitrary: st D w)
  case (Cons d ds)
  obtain st1 w1 where s1: "push_desired env es d st w = (Inr st1, w1)"
    "agrees (fst st1) (diff_desired (nm_debug env) es d D)"
    using push_agrees [OF assms(1) Cons.prems] by blast
  with Cons.IH [OF s1(2), of w1] show ?case by (simp add: io_defs)
qed (simp add: io_defs)

lemma delete_all_agrees:
  assumes "all_ok env" "agrees out D"
  shows "\<exists>out' w'. io_fold (delete_orphan env desired) es out w = (Inr out', w') \<and>
    agrees out' (fold (diff_existing desired) es D)"
  using assms(2)
proof (induction es arbitrary: out D w)
  case (Cons e es)
  have "\<exists>out1 w1. delete_orphan env desired e out w = (Inr out1, w1) \<and>
      agrees out1 (diff_existing desired e D)"
    using assms(1) Cons.prems
    by (auto simp: delete_orphan_def diff_existing_def delete_connection_def nm_call_ok io_defs agrees_def)
  then obtain out1 w1 where s1: "delete_orphan env desired e out w = (Inr out1, w1)"
    "agrees out1 (diff_existing desired e D)" by blast
  with Cons.IH [OF s1(2), of w1] show ?case by (simp add: io_defs)
qed (simp add: io_defs)

lemma activate_all_agrees:
  "agrees out D \<Longrightarrow>
     \<exists>out' w'. io_fold (activate_target env) ts out w = (Inr out', w') \<and> agrees out' D"
proof (induction ts arbitrary: out w)
  case (Cons t ts)
  have "\<exists>out1 w1. activate_target env t out w = (Inr out1, w1) \<and> agrees out1 D"
    using Cons.prems
    by (auto simp: activate_target_def fail_with_def Let_def io_defs agrees_def split: prod.splits sum.splits)
  then obtain out1 w1 where s1: "activate_target env t out w = (Inr out1, w1)" "agrees out1 D" by blast
  with Cons.IH [OF s1(2), of w1] show ?case by (simp add: io_defs)
qed (simp add: io_defs)

lemma apply_agrees:
  assumes "all_ok env" "distinct (map fst (nm_conns w))"
  shows "\<exists>out w'. apply_profiles env desired w = (Inr out, w') \<and>
    agrees out (compute_diff (nm_debug env) desired (own_connections (nm_conns w)))"
proof -
  obtain k where l: "list_nasty_connections env w = (Inr (own_connections (nm_conns w)), w\<lparr>nm_calls := k\<rparr>)"
    using list_nasty_connections_ok [OF assms] by blast
  have "agrees (fst (outcome_default, [])) diff_default"
    by (simp add: agrees_def outcome_default_def diff_default_def)
  from push_all_agrees [OF assms(1) this] obtain st w1 where
    p: "io_fold (push_desired env (own_connections (nm_conns w))) desired (outcome_default, [])
          (w\<lparr>nm_calls := k\<rparr>) = (Inr st, w1)"
    "agrees (fst st) (fold (diff_desired (nm_debug env) (own_connections (nm_conns w))) desired diff_default)"
    by blast
  from delete_all_agrees [OF assms(1) p(2)] obtain out w2 where
    d: "io_fold (delete_orphan env desired) (own_connections (nm_conns w)) (fst st) w1 = (Inr out, w2)"
    "agrees out (compute_diff (nm_debug env) desired (own_connections (nm_conns w)))"
    unfolding compute_diff_def by blast
  from activate_all_agrees [OF d(2)] show ?thesis
    using l p(1) d(1) by (fastforce simp: apply_profiles_def io_defs split: prod.splits)
qed

text \<open>
  C16. The preview is what an apply does: when no call to NetworkManager fails, an apply adds,
  updates and deletes exactly the connections that \<open>compute_diff\<close> lists for the stored ones, in
  that order, and leaves as many unchanged as it counts.
\<close>
theorem preview_is_what_apply_does:
  assumes "all_ok env" "distinct (map fst (nm_conns w))"
  shows "\<exists>out w'. apply_profiles env desired w = (Inr out, w') \<and>
    agrees out (compute_diff (nm_debug env) desired (own_connections (nm_conns w)))"
  by (rule apply_agrees [OF assms])

section \<open>Convergence\<close>

definition own_id :: "SettingsDict \<Rightarrow> string option" where
  "own_id s = read_string s ''connection'' ''id''"

lemma own_id_dict [simp]: "own_id (to_settings_dict d) = Some (nm_id d)"
  by (simp add: own_id_def read_string_def to_settings_dict_def connection_dict_def)

text \<open>
  What the apply relies on: NetworkManager gives a new connection an object path no stored one
  has, and keeps the id of the settings it stores.
\<close>

definition fresh_paths :: "nm_env \<Rightarrow> (string \<times> SettingsDict) list \<Rightarrow> bool" where
  "fresh_paths env C \<longleftrightarrow> (\<forall>n. nm_path env n \<notin> fst ` set C)"

definition keeps_ids :: "nm_env \<Rightarrow> bool" where
  "keeps_ids env \<longleftrightarrow> (\<forall>d. own_id (nm_store env d) = own_id d)"

definition held :: "nm_env \<Rightarrow> (string \<times> SettingsDict) list \<Rightarrow> NmConnection \<Rightarrow> bool" where
  "held env C d \<longleftrightarrow>
     (\<exists>p s. (p, s) \<in> set C \<and> own_id s = Some (nm_id d) \<and>
        (s = nm_store env (to_settings_dict d) \<or>
         \<not> section_changed_any (nm_debug env) (to_settings_dict d) s))"

definition pushed ::
  "nm_env \<Rightarrow> NmExisting list \<Rightarrow> string set \<Rightarrow> NmConnection set \<Rightarrow> (string \<times> SettingsDict) list \<Rightarrow> bool" where
  "pushed env es ids ds C \<longleftrightarrow>
     (\<forall>e\<in>set es. \<forall>s. (ex_path e, s) \<in> set C \<longrightarrow> own_id s = Some (ex_id e)) \<and>
     (\<forall>e\<in>set es. ex_id e \<notin> ids \<longrightarrow> (ex_path e, ex_settings e) \<in> set C) \<and>
     (\<forall>(p, s)\<in>set C. is_nasty s \<longrightarrow> p \<in> ex_path ` set es \<or> own_id s \<in> Some ` ids) \<and>
     (\<forall>d\<in>ds. held env C d)"

lemma own_connections_iff:
  "e \<in> set (own_connections C) \<longleftrightarrow>
     (ex_path e, ex_settings e) \<in> set C \<and> own_id (ex_settings e) = Some (ex_id e) \<and> take 6 (ex_id e) = ''nasty-''"
proof -
  have mf: "x \<in> set (List.map_filter f xs) \<longleftrightarrow> (\<exists>y\<in>set xs. f y = Some x)" for x :: NmExisting and f and xs :: "'a list"
    by (induction xs) (auto simp: map_filter_simps split: option.splits)
  show ?thesis
  proof
    assume "e \<in> set (own_connections C)"
    then show "(ex_path e, ex_settings e) \<in> set C \<and> own_id (ex_settings e) = Some (ex_id e) \<and>
        take 6 (ex_id e) = ''nasty-''"
      by (auto simp: own_connections_def mf own_id_def split: option.splits if_splits)
  next
    assume "(ex_path e, ex_settings e) \<in> set C \<and> own_id (ex_settings e) = Some (ex_id e) \<and>
        take 6 (ex_id e) = ''nasty-''"
    then show "e \<in> set (own_connections C)"
      unfolding own_connections_def mf own_id_def
      by (intro bexI [of _ "(ex_path e, ex_settings e)"]) auto
  qed
qed

lemma pushedD:
  assumes "pushed env es ids ds C"
  shows "e \<in> set es \<Longrightarrow> (ex_path e, s) \<in> set C \<Longrightarrow> own_id s = Some (ex_id e)"
    and "e \<in> set es \<Longrightarrow> ex_id e \<notin> ids \<Longrightarrow> (ex_path e, ex_settings e) \<in> set C"
    and "(p, s) \<in> set C \<Longrightarrow> is_nasty s \<Longrightarrow> p \<in> ex_path ` set es \<or> own_id s \<in> Some ` ids"
    and "d \<in> ds \<Longrightarrow> held env C d"
  using assms by (auto simp: pushed_def)

lemma pushed_start:
  assumes "distinct (map fst C)"
  shows "pushed env (own_connections C) {} {} C"
proof -
  have "p \<in> ex_path ` set (own_connections C)" if "(p, s) \<in> set C" "is_nasty s" for p s
  proof -
    from that(2) obtain i where "own_id s = Some i" "take 6 i = ''nasty-''"
      by (auto simp: is_nasty_def own_id_def split: option.splits)
    with that(1) have "\<lparr>ex_path = p, ex_id = i, ex_settings = s\<rparr> \<in> set (own_connections C)"
      by (simp add: own_connections_iff)
    then show ?thesis by (metis NmExisting.select_convs(1) image_eqI)
  qed
  then show ?thesis
    using assms by (auto simp: pushed_def own_connections_iff dest: eq_key_imp_eq_value)
qed

lemma held_mono: "held env C d \<Longrightarrow> set C \<subseteq> set C' \<Longrightarrow> held env C' d"
  unfolding held_def by blast

lemma pushed_add:
  assumes "pushed env es ids ds C" "keeps_ids env" "path \<notin> ex_path ` set es"
    and "existing_by_id es (nm_id d) = None"
  shows "pushed env es (insert (nm_id d) ids) (insert d ds) (C @ [(path, nm_store env (to_settings_dict d))])"
proof -
  let ?C = "C @ [(path, nm_store env (to_settings_dict d))]"
  have i: "own_id (nm_store env (to_settings_dict d)) = Some (nm_id d)"
    using assms(2) by (simp add: keeps_ids_def)
  have "held env ?C d" using i by (auto simp: held_def)
  moreover have "held env ?C d'" if "d' \<in> ds" for d'
    using assms(1) that held_mono [of env C d' ?C] by (auto simp: pushed_def)
  ultimately show ?thesis using assms i by (auto simp: pushed_def)
qed

lemma pushed_keep:
  assumes "pushed env es ids ds C" "existing_by_id es (nm_id d) = Some e" "nm_id d \<notin> ids"
    and "\<not> section_changed_any (nm_debug env) (to_settings_dict d) (ex_settings e)"
  shows "pushed env es (insert (nm_id d) ids) (insert d ds) C"
proof -
  have e: "e \<in> set es" "ex_id e = nm_id d" using existing_by_id_Some [OF assms(2)] by auto
  then have "(ex_path e, ex_settings e) \<in> set C" using assms(1,3) by (auto simp: pushed_def)
  moreover from this e have "own_id (ex_settings e) = Some (nm_id d)"
    using assms(1) by (auto simp: pushed_def)
  ultimately have "held env C d" using assms(4) by (auto simp: held_def)
  then show ?thesis using assms(1) by (auto simp: pushed_def)
qed

lemma pushed_update:
  assumes "pushed env es ids ds C" "keeps_ids env" "existing_by_id es (nm_id d) = Some e"
    and "nm_id d \<notin> ids" "nm_id ` ds \<subseteq> ids"
  shows "pushed env es (insert (nm_id d) ids) (insert d ds)
    (map (\<lambda>(p, s). if p = ex_path e then (p, nm_store env (to_settings_dict d)) else (p, s)) C)"
    (is "pushed _ _ _ _ ?C")
proof -
  let ?new = "nm_store env (to_settings_dict d)"
  have i: "own_id ?new = Some (nm_id d)" using assms(2) by (simp add: keeps_ids_def)
  have e: "e \<in> set es" "ex_id e = nm_id d" using existing_by_id_Some [OF assms(3)] by auto
  note P = pushedD [OF assms(1)]
  have C: "(p, s) \<in> set ?C \<longleftrightarrow> (if p = ex_path e then s = ?new \<and> p \<in> fst ` set C else (p, s) \<in> set C)" for p s
    by (force split: if_splits)
  have mem: "(ex_path e, ex_settings e) \<in> set C" using P(2) [OF e(1)] assms(4) e(2) by simp
  have at: "own_id s = Some (nm_id d)" if "(ex_path e, s) \<in> set C" for s
    using P(1) [OF e(1) that] e(2) by simp
  from mem have "(ex_path e, ?new) \<in> set ?C" by (subst C) force
  then have new: "held env ?C d" using i unfolding held_def by blast
  have old: "held env ?C d'" if d': "d' \<in> ds" for d'
  proof -
    obtain p s where ps: "(p, s) \<in> set C" "own_id s = Some (nm_id d')"
      "s = nm_store env (to_settings_dict d') \<or> \<not> section_changed_any (nm_debug env) (to_settings_dict d') s"
      using P(4) [OF d'] by (auto simp: held_def)
    have "nm_id d' \<in> ids" using assms(5) d' by auto
    then have "nm_id d' \<noteq> nm_id d" using assms(4) by metis
    then have "p \<noteq> ex_path e" using at [of s] ps(1,2) by auto
    then have "(p, s) \<in> set ?C" using ps(1) by (subst C) simp
    with ps(2,3) show ?thesis unfolding held_def by blast
  qed
  have a: "own_id s = Some (ex_id e')" if "e' \<in> set es" "(ex_path e', s) \<in> set ?C" for e' s
  proof (cases "ex_path e' = ex_path e")
    case True
    then have "Some (ex_id e') = Some (nm_id d)"
      using P(1) [OF that(1), of "ex_settings e"] at [OF mem] mem by simp
    moreover have "s = ?new" using that(2) True by (subst (asm) C) simp
    ultimately show ?thesis using i by simp
  next
    case False
    with that(2) have "(ex_path e', s) \<in> set C" by (subst (asm) C) simp
    with P(1) [OF that(1)] show ?thesis by simp
  qed
  have b: "(ex_path e', ex_settings e') \<in> set ?C" if "e' \<in> set es" "ex_id e' \<notin> insert (nm_id d) ids" for e'
  proof -
    have m: "(ex_path e', ex_settings e') \<in> set C" using P(2) [OF that(1)] that(2) by simp
    have "ex_path e' \<noteq> ex_path e" using at [of "ex_settings e'"] P(1) [OF that(1) m] that(2) m by auto
    with m show ?thesis by (subst C) simp
  qed
  have c: "p \<in> ex_path ` set es \<or> own_id s \<in> Some ` insert (nm_id d) ids"
    if "(p, s) \<in> set ?C" "is_nasty s" for p s
  proof (cases "p = ex_path e")
    case False
    with that(1) have "(p, s) \<in> set C" by (subst (asm) C) simp
    with P(3) that(2) show ?thesis by blast
  qed (use e(1) in auto)
  from a b c new old show ?thesis unfolding pushed_def by blast
qed

lemma push_desired_pushed:
  assumes "all_ok env" "keeps_ids env" "\<forall>n. nm_path env n \<notin> ex_path ` set es"
    and "pushed env es ids ds (nm_conns w)" "nm_id d \<notin> ids" "nm_id ` ds \<subseteq> ids"
  shows "\<exists>st' w'. push_desired env es d st w = (Inr st', w') \<and>
    pushed env es (insert (nm_id d) ids) (insert d ds) (nm_conns w')"
proof (cases "existing_by_id es (nm_id d)")
  case None
  then show ?thesis
    using pushed_add [OF assms(4,2) _ None, of "nm_path env (nm_calls w)"] assms(1,3)
    by (simp add: push_desired_def Let_def add_connection_def nm_call_ok io_defs)
next
  case (Some e)
  show ?thesis
  proof (cases "section_changed_any (nm_debug env) (to_settings_dict d) (ex_settings e)")
    case True
    then show ?thesis
      using Some pushed_update [OF assms(4,2) Some assms(5,6)] assms(1)
      by (simp add: push_desired_def Let_def update_connection_def nm_call_ok io_defs)
  next
    case False
    then show ?thesis
      using Some pushed_keep [OF assms(4) Some assms(5) False]
      by (simp add: push_desired_def Let_def io_defs)
  qed
qed

lemma push_all_pushed:
  assumes "all_ok env" "keeps_ids env" "\<forall>n. nm_path env n \<notin> ex_path ` set es"
    and "pushed env es (nm_id ` ds) ds (nm_conns w)" "distinct (map nm_id xs)"
    and "nm_id ` set xs \<inter> nm_id ` ds = {}"
  shows "\<exists>st' w'. io_fold (push_desired env es) xs st w = (Inr st', w') \<and>
    pushed env es (nm_id ` (ds \<union> set xs)) (ds \<union> set xs) (nm_conns w')"
  using assms(4-6)
proof (induction xs arbitrary: st ds w)
  case (Cons x xs)
  obtain st1 w1 where s1: "push_desired env es x st w = (Inr st1, w1)"
    "pushed env es (nm_id ` insert x ds) (insert x ds) (nm_conns w1)"
    using push_desired_pushed [OF assms(1-3) Cons.prems(1), of x st] Cons.prems(3) by auto
  have "distinct (map nm_id xs)" "nm_id ` set xs \<inter> nm_id ` insert x ds = {}"
    using Cons.prems(2,3) by auto
  from Cons.IH [OF s1(2) this] s1(1) show ?case by (simp add: io_defs)
qed (simp add: io_defs)

definition orphans :: "NmConnection list \<Rightarrow> NmExisting list \<Rightarrow> string set" where
  "orphans desired es = {ex_path e | e. e \<in> set es \<and> ex_id e \<notin> nm_id ` set desired}"

lemma delete_all_conns:
  assumes "all_ok env"
  shows "\<exists>out' w'. io_fold (delete_orphan env desired) es out w = (Inr out', w') \<and>
    set (nm_conns w') = {(p, s) \<in> set (nm_conns w). p \<notin> orphans desired es}"
proof (induction es arbitrary: out w)
  case (Cons e es)
  have "\<exists>out1 w1. delete_orphan env desired e out w = (Inr out1, w1) \<and>
      set (nm_conns w1) = {(p, s) \<in> set (nm_conns w). p \<notin> orphans desired [e]}"
    using assms by (auto simp: delete_orphan_def delete_connection_def nm_call_ok io_defs orphans_def)
  then obtain out1 w1 where s1: "delete_orphan env desired e out w = (Inr out1, w1)"
    "set (nm_conns w1) = {(p, s) \<in> set (nm_conns w). p \<notin> orphans desired [e]}" by blast
  have "orphans desired (e # es) = orphans desired [e] \<union> orphans desired es"
    by (auto simp: orphans_def)
  with Cons.IH [of out1 w1] s1 show ?case by (auto simp: io_defs)
qed (simp add: io_defs orphans_def)

lemma activate_all_conns:
  "\<exists>out' w'. io_fold (activate_target env) ts out w = (Inr out', w') \<and> nm_conns w' = nm_conns w"
proof (induction ts arbitrary: out w)
  case (Cons t ts)
  have call: "nm_conns (snd (nm_call env f v)) = nm_conns v" if "\<And>u. nm_conns (f u) = nm_conns u" for f v
    using that by (auto simp: nm_call_def split: option.splits)
  have act: "nm_conns (snd (activate_connection env p d v)) = nm_conns v" for p d v
    unfolding activate_connection_def by (rule call) simp
  have re: "nm_conns (snd (reapply env p d v)) = nm_conns v" for p d v
    unfolding reapply_def by (rule call) simp
  have "\<exists>out1 w1. activate_target env t out w = (Inr out1, w1) \<and> nm_conns w1 = nm_conns w"
  proof -
    have find: "keeps (\<lambda>v. nm_conns v = nm_conns w) (find_device_by_name env n)" for n
      unfolding find_device_by_name_def by (intro io_rules) (simp add: keeps_def call)
    have app: "keeps (\<lambda>v. nm_conns v = nm_conns w) (apply_connection env p c d)" for p c d
      unfolding apply_connection_def by (intro io_rules) (auto simp: keeps_def call act re)
    have "keeps (\<lambda>v. nm_conns v = nm_conns w) (activate_target env t out)"
      unfolding activate_target_def Let_def by (intro io_rules find app)
    moreover have "\<exists>out1 w1. activate_target env t out w = (Inr out1, w1)"
      by (auto simp: activate_target_def Let_def io_defs split: prod.splits sum.splits)
    ultimately show ?thesis by (force simp: keeps_def)
  qed
  then obtain out1 w1 where s1: "activate_target env t out w = (Inr out1, w1)" "nm_conns w1 = nm_conns w" by blast
  with Cons.IH [of out1 w1] show ?case by (simp add: io_defs)
qed (simp add: io_defs)

lemma apply_converges_aux:
  assumes "all_ok env" "keeps_ids env" "fresh_paths env (nm_conns w)"
    and "distinct (map fst (nm_conns w))" "distinct (map nm_id desired)"
  shows "\<exists>out w'. apply_profiles env desired w = (Inr out, w') \<and>
    (\<forall>d\<in>set desired. held env (nm_conns w') d) \<and>
    (\<forall>(p, s)\<in>set (nm_conns w'). is_nasty s \<longrightarrow> own_id s \<in> Some ` nm_id ` set desired)"
proof -
  let ?es = "own_connections (nm_conns w)"
  obtain k where l: "list_nasty_connections env w = (Inr ?es, w\<lparr>nm_calls := k\<rparr>)"
    using list_nasty_connections_ok [OF assms(1,4)] by blast
  have "ex_path ` set ?es \<subseteq> fst ` set (nm_conns w)" by (force simp: own_connections_iff)
  then have fresh: "\<forall>n. nm_path env n \<notin> ex_path ` set ?es" using assms(3) by (auto simp: fresh_paths_def)
  have "pushed env ?es (nm_id ` {}) {} (nm_conns (w\<lparr>nm_calls := k\<rparr>))"
    using pushed_start [OF assms(4)] by simp
  from push_all_pushed [OF assms(1,2) fresh this assms(5), of "(outcome_default, [])"]
  obtain st w1 where p: "io_fold (push_desired env ?es) desired (outcome_default, []) (w\<lparr>nm_calls := k\<rparr>) = (Inr st, w1)"
    "pushed env ?es (nm_id ` set desired) (set desired) (nm_conns w1)" by auto
  obtain out w2 where d: "io_fold (delete_orphan env desired) ?es (fst st) w1 = (Inr out, w2)"
    "set (nm_conns w2) = {(p, s) \<in> set (nm_conns w1). p \<notin> orphans desired ?es}"
    using delete_all_conns [OF assms(1)] by blast
  obtain out' w' where a: "io_fold (activate_target env) (snd st) out w2 = (Inr out', w')" "nm_conns w' = nm_conns w2"
    using activate_all_conns by blast
  have run: "apply_profiles env desired w = (Inr out', w')"
    using l p(1) d(1) a(1) by (simp add: apply_profiles_def io_defs case_prod_beta)
  have keep: "held env (nm_conns w') c" if c: "c \<in> set desired" for c
  proof -
    obtain q s where q: "(q, s) \<in> set (nm_conns w1)" "own_id s = Some (nm_id c)"
      "s = nm_store env (to_settings_dict c) \<or> \<not> section_changed_any (nm_debug env) (to_settings_dict c) s"
      using pushedD(4) [OF p(2) c] by (auto simp: held_def)
    have "q \<notin> orphans desired ?es"
    proof
      assume "q \<in> orphans desired ?es"
      then obtain e where e: "e \<in> set ?es" "q = ex_path e" "ex_id e \<notin> nm_id ` set desired"
        by (auto simp: orphans_def)
      then have "own_id s = Some (ex_id e)" using pushedD(1) [OF p(2) e(1)] q(1) by simp
      with q(2) c e(3) show False by auto
    qed
    with q(1) have "(q, s) \<in> set (nm_conns w')" by (simp add: a(2) d(2))
    with q(2,3) show ?thesis unfolding held_def by blast
  qed
  have own: "own_id s \<in> Some ` nm_id ` set desired" if "(q, s) \<in> set (nm_conns w')" "is_nasty s" for q s
  proof -
    have q: "(q, s) \<in> set (nm_conns w1)" "q \<notin> orphans desired ?es" using that(1) by (auto simp: a(2) d(2))
    show ?thesis
    proof (cases "q \<in> ex_path ` set ?es")
      case True
      then obtain e where e: "e \<in> set ?es" "q = ex_path e" by blast
      with pushedD(1) [OF p(2) e(1), of s] q show ?thesis by (auto simp: orphans_def)
    next
      case False
      with pushedD(3) [OF p(2) q(1) that(2)] show ?thesis by simp
    qed
  qed
  show ?thesis using run keep own by blast
qed

lemma apply_holds:
  assumes "all_ok env" "keeps_ids env" "fresh_paths env (nm_conns w)"
    and "distinct (map fst (nm_conns w))" "distinct (map nm_id desired)" "d \<in> set desired"
  shows "held env (nm_conns (snd (apply_profiles env desired w))) d"
  using apply_converges_aux [OF assms(1-5)] assms(6) by auto

text \<open>
  C14. An apply converges: when no call fails, afterwards NetworkManager holds a connection for
  every desired profile, with the profile's settings as it stores them or settings the
  comparison finds equal to them, and every connection with the ownership marker it holds
  belongs to a desired profile.
\<close>
theorem apply_converges:
  assumes "all_ok env" "keeps_ids env" "fresh_paths env (nm_conns w)"
    and "distinct (map fst (nm_conns w))" "distinct (map nm_id desired)"
  shows "\<exists>out w'. apply_profiles env desired w = (Inr out, w') \<and>
    (\<forall>d\<in>set desired. held env (nm_conns w') d) \<and>
    (\<forall>(p, s)\<in>set (nm_conns w'). is_nasty s \<longrightarrow> own_id s \<in> Some ` nm_id ` set desired)"
  by (rule apply_converges_aux [OF assms])

section \<open>Witnesses\<close>

definition example_env :: nm_env where
  "example_env = \<lparr>nm_out = (\<lambda>_. None), nm_path = (\<lambda>n. ''new'' @ replicate n CHR ''x''),
                  nm_store = id, nm_debug = (\<lambda>v. case v of VStr s \<Rightarrow> s | VBool b \<Rightarrow> show_bool b | _ \<Rightarrow> [])\<rparr>"

definition docker_settings :: SettingsDict where
  "docker_settings = [(''connection'', [(''id'', VStr ''docker0'')])]"

definition stale_settings :: SettingsDict where
  "stale_settings = [(''connection'', [(''id'', VStr ''nasty-eth9'')])]"

definition example_nm :: nm_world where
  "example_nm = \<lparr>nm_conns = [(''c1'', docker_settings), (''c2'', stale_settings)],
                 nm_devices = [(''d1'', Some ''br0'')], nm_applied = [], nm_calls = 0\<rparr>"

lemma example_nm_distinct: "distinct (map fst (nm_conns example_nm))"
  by (simp add: example_nm_def)

theorem apply_keeps_foreign_connections_witness:
  "(''c1'', docker_settings) \<in> set (nm_conns (snd (apply_profiles example_env [nm_example_conn] example_nm)))"
proof -
  have m: "(''c1'', docker_settings) \<in> set (nm_conns example_nm)" by (simp add: example_nm_def)
  have n: "\<not> is_nasty docker_settings" by (simp add: is_nasty_def docker_settings_def read_string_def)
  show ?thesis
    by (rule apply_keeps_foreign_connections
        [OF example_nm_distinct surjective_pairing [of "apply_profiles example_env [nm_example_conn] example_nm"] m n])
qed

lemma example_env_ok: "all_ok example_env"
  by (simp add: all_ok_def example_env_def)

theorem preview_is_what_apply_does_witness:
  "\<exists>out w'. apply_profiles example_env [nm_example_conn] example_nm = (Inr out, w') \<and>
     added out = [''nasty-br0''] \<and> deleted out = [''nasty-eth9'']"
proof -
  have "own_connections (nm_conns example_nm) =
      [\<lparr>ex_path = ''c2'', ex_id = ''nasty-eth9'', ex_settings = stale_settings\<rparr>]"
    by (simp add: own_connections_def map_filter_simps example_nm_def docker_settings_def stale_settings_def
        read_string_def)
  then have "to_add (compute_diff (nm_debug example_env) [nm_example_conn] (own_connections (nm_conns example_nm))) = [''nasty-br0'']"
    "to_delete (compute_diff (nm_debug example_env) [nm_example_conn] (own_connections (nm_conns example_nm))) = [''nasty-eth9'']"
    by (simp_all add: compute_diff_def diff_desired_def diff_existing_def diff_default_def existing_by_id_def
        nm_example_conn_def)
  with preview_is_what_apply_does [OF example_env_ok example_nm_distinct, of "[nm_example_conn]"]
  show ?thesis by (auto simp: agrees_def)
qed

theorem apply_converges_witness:
  "\<exists>out w'. apply_profiles example_env [nm_example_conn] example_nm = (Inr out, w') \<and>
     held example_env (nm_conns w') nm_example_conn"
proof -
  have k: "keeps_ids example_env" by (simp add: keeps_ids_def example_env_def)
  have f: "fresh_paths example_env (nm_conns example_nm)"
    by (simp add: fresh_paths_def example_env_def example_nm_def)
  have d: "distinct (map nm_id [nm_example_conn])" by simp
  from apply_converges [OF example_env_ok k f example_nm_distinct d] show ?thesis by auto
qed

end
