(* ===== verification/Network_Txn.thy ===== *)
theory Network_Txn
  imports Network_Checks Nm_Dbus
begin

text \<open>
  The network service of \<open>nasty-system/src/network.rs\<close>: the update handler with its
  confirm-or-rollback transaction, the rollback timer, startup recovery, and the apply path
  down to NetworkManager and the DHCP relay. The lifecycle mutex is held by every handler, so
  an execution is a sequence of whole handlers.

  The world is what survives between handlers: the files of the service, its table of pending
  transactions, NetworkManager and the relay. A configuration file is absent, unparseable, or
  holds a configuration (serde_json is outside the repository; that it reads back what it
  wrote is built into this type). The environment of a handler gives the outcome of each
  external call and what sysfs and \<open>ip\<close> report: \<open>stat_out\<close> and \<open>read_out\<close> of the one look at
  the snapshot file and the one read of the stored configuration it makes, \<open>fs_out\<close> of the other
  calls by their number.
\<close>

section \<open>World\<close>

type_synonym config_file = "NetworkConfig json_file"

record PendingTxn =
  txn_revert_at :: u64
  txn_risk :: Risk
  txn_cancel :: bool

record net_world =
  disk :: config_file
  disk_v2 :: "LayeredConfig option"
  history :: "(u64 \<times> config_file) list"
  previews :: "(string \<times> string) list"
  revert :: config_file
  ib_conf :: "string option"
  txns :: "(string \<times> PendingTxn) list"
  txn_counter :: u64
  nm :: nm_world
  relay :: relay_world
  restarted :: "string list"
  tls_reapplied :: nat
  clock :: nat

record net_env =
  fs_out :: outcomes
  stat_out :: "string option"
  read_out :: "string option"
  unit_active :: "nat \<Rightarrow> string \<Rightarrow> bool"
  env_nm :: nm_env
  relay_out :: outcomes
  relay_probes :: probes
  live_at :: "nat \<Rightarrow> LiveInterface list"
  topology :: LiveTopology
  uuid5 :: "string \<Rightarrow> string"
  unix_now :: u64

type_synonym 'a net_io = "(net_world, NetError, 'a) io"

text \<open>One external call of the service itself; \<open>f\<close> is what it does when it succeeds.\<close>

definition fs :: "net_env \<Rightarrow> (net_world \<Rightarrow> net_world) \<Rightarrow> unit net_io" where
  "fs env f w =
     (case fs_out env (clock w) of
        Some e \<Rightarrow> (Inl (NetIo e), w\<lparr>clock := Suc (clock w)\<rparr>)
      | None \<Rightarrow> (Inr (), (f w)\<lparr>clock := Suc (clock w)\<rparr>))"

text \<open>The configuration in force: what is stored, the default where nothing readable is.\<close>

definition in_force :: "net_world \<Rightarrow> NetworkConfig" where
  "in_force w = (case disk w of Parsed c \<Rightarrow> c | Absent \<Rightarrow> default_network | Garbage \<Rightarrow> default_network)"

definition read_config :: "net_env \<Rightarrow> net_world \<Rightarrow> NetworkConfig" where
  "read_config env w = (if read_out env = None then in_force w else default_network)"

definition load_config :: "net_env \<Rightarrow> NetworkConfig net_io" where
  "load_config env = io_get (read_config env)"

definition enumerate_interfaces :: "net_env \<Rightarrow> LiveInterface list net_io" where
  "enumerate_interfaces env = io_get (\<lambda>w. live_at env (clock w))"

definition infiniband_names :: "LiveInterface list \<Rightarrow> string list" where
  "infiniband_names live = map lv_name (filter (\<lambda>i. lv_kind i = ''infiniband'') live)"

section \<open>Persistence\<close>

definition snapshot_history :: "net_env \<Rightarrow> config_file \<Rightarrow> unit net_io" where
  "snapshot_history env prev =
     fs env (\<lambda>w. w\<lparr>history :=
       take 10 ((unix_now env, prev) # filter (\<lambda>(t, _). t \<noteq> unix_now env) (history w))\<rparr>)"

definition record_history :: "net_env \<Rightarrow> unit net_io" where
  "record_history env =
     io_case (fs env id) (\<lambda>_. io_return ()) (\<lambda>_.
     io_bind (io_get disk) (\<lambda>prev.
     if prev = Absent then io_return () else best_effort (snapshot_history env prev)))"

definition preview_name :: "NmConnection \<Rightarrow> string" where
  "preview_name p = nm_id p @ ''.nmconnection.preview''"

definition write_nm_previews :: "net_env \<Rightarrow> LayeredConfig \<Rightarrow> unit net_io" where
  "write_nm_previews env c =
     (let profiles = to_nm_profiles (uuid5 env) c;
          expected = map preview_name profiles
      in io_bind (fs env id) (\<lambda>_.
         io_bind (io_get (\<lambda>w. filter (\<lambda>n. n \<notin> set expected) (map fst (previews w)))) (\<lambda>stale.
         io_bind (io_fold (\<lambda>n _. best_effort (fs env (\<lambda>w. w\<lparr>previews := AList.delete n (previews w)\<rparr>))) stale ()) (\<lambda>_.
         io_fold (\<lambda>p _. fs env (\<lambda>w. w\<lparr>previews := AList.update (preview_name p) (serialize_keyfile p) (previews w)\<rparr>))
           profiles ()))))"

definition persist_config :: "net_env \<Rightarrow> NetworkConfig \<Rightarrow> unit net_io" where
  "persist_config env c =
     (let layered = to_layered c
      in case validate layered of
           Inl e \<Rightarrow> io_fail (Rejected e)
         | Inr _ \<Rightarrow>
             io_bind (record_history env) (\<lambda>_.
             io_bind (fs env (\<lambda>w. w\<lparr>disk := Parsed c\<rparr>)) (\<lambda>_.
             io_bind (best_effort (fs env (\<lambda>w. w\<lparr>disk_v2 := Some layered\<rparr>))) (\<lambda>_.
             best_effort (write_nm_previews env layered)))))"

section \<open>Apply\<close>

definition retain_live_physical_profiles :: "NmConnection list \<Rightarrow> string list \<Rightarrow> NmConnection list" where
  "retain_live_physical_profiles ps live =
     filter (\<lambda>p. nm_conn_type p \<notin> {Ethernet, Infiniband} \<or> nm_interface_name p \<in> set live) ps"

definition ib_entries :: "string list \<Rightarrow> string list" where
  "ib_entries live_ib =
     fold (\<lambda>n es. let e = ''interface-name:'' @ n
                   in if e \<notin> set es \<and> \<not> starts_with n ''ib'' then es @ [e] else es)
       live_ib [''interface-name:ib*'', ''interface-name:ibp*'']"

definition render_ib_unmanaged_conf :: "string list \<Rightarrow> string list \<Rightarrow> string option" where
  "render_ib_unmanaged_conf live_ib configured =
     (if live_ib = [] then None
      else Some (
        ''# Generated by nasty-engine. InfiniBand ports are operator-managed'' @ [CHR 10]
        @ ''# (systemd-networkd, manual) unless configured through NASty's'' @ [CHR 10]
        @ ''# network settings '' @ [CHR 0xE2, CHR 0x80, CHR 0x94] @ '' the except: entries below. Re-rendered on'' @ [CHR 10]
        @ ''# every network apply; edits here are overwritten.'' @ [CHR 10]
        @ ''[keyfile]'' @ [CHR 10]
        @ ''unmanaged-devices=''
        @ join '';'' (ib_entries live_ib
            @ map (\<lambda>n. ''except:interface-name:'' @ n) (filter (\<lambda>n. n \<in> set configured) live_ib))
        @ [CHR 10]))"

definition sync_ib_unmanaged_conf :: "net_env \<Rightarrow> LiveInterface list \<Rightarrow> NetworkConfig \<Rightarrow> unit net_io" where
  "sync_ib_unmanaged_conf env live c =
     io_bind
       (case render_ib_unmanaged_conf (infiniband_names live) (map if_name (interfaces c)) of
          Some content \<Rightarrow>
            io_bind (io_case (fs env id) (\<lambda>_. io_return []) (\<lambda>_. io_get (\<lambda>w. contents (ib_conf w)))) (\<lambda>current.
              if current = content then io_return False
              else io_case (fs env (\<lambda>w. w\<lparr>ib_conf := Some content\<rparr>)) (\<lambda>_. io_return False) (\<lambda>_. io_return True))
        | None \<Rightarrow>
            io_bind (io_get ib_conf) (\<lambda>present.
              if present = None then io_return False
              else io_case (fs env (\<lambda>w. w\<lparr>ib_conf := None\<rparr>)) (\<lambda>_. io_return False) (\<lambda>_. io_return True)))
       (\<lambda>changed. if changed then best_effort (fs env id) else io_return ())"

definition quoted :: "string \<Rightarrow> string" where
  "quoted s = [CHR 39] @ s @ [CHR 39]"

fun relay_error :: "ReconcileError \<Rightarrow> string" where
  "relay_error (IoFailed e) = e"
| "relay_error (RenderFailed _) = ''invalid DHCP relay configuration''"
| "relay_error NoForwarding = ''DHCP relay routing requires IPv4 forwarding to be enabled''"
| "relay_error (NotRouted s u) = ''DHCP server '' @ show_ipv4 s @ '' must be routed via '' @ quoted u"
| "relay_error (MissingAddress b a) = ''DHCP relay bridge '' @ quoted b @ '' is missing address '' @ a"

text \<open>The discovery daemons that run are started again; one that is off stays off.\<close>

definition rebind_daemons :: "net_env \<Rightarrow> unit net_io" where
  "rebind_daemons env =
     io_fold (\<lambda>u _. io_bind (io_get (\<lambda>w. unit_active env (clock w) u)) (\<lambda>up.
       if up then best_effort (fs env (\<lambda>w. w\<lparr>restarted := restarted w @ [u]\<rparr>)) else io_return ()))
       [''samba-wsdd.service'', ''avahi-daemon.service''] ()"

definition apply_config :: "net_env \<Rightarrow> NetworkConfig \<Rightarrow> string option \<Rightarrow> NmApplyOutcome net_io" where
  "apply_config env c mgmt =
     io_bind (enumerate_interfaces env) (\<lambda>live.
     (let ctx = \<lparr>live_macs = by_name lv_name lv_mac live, mgmt_iface = mgmt,
                 infiniband_ifaces = infiniband_names live\<rparr>;
          profiles = retain_live_physical_profiles
                       (to_nm_profiles_with_macs (uuid5 env) (to_layered c) ctx) (map lv_name live)
      in io_bind (fs env id) (\<lambda>_.
         io_bind (sync_ib_unmanaged_conf env live c) (\<lambda>_.
         io_bind (zoom nm (\<lambda>v w. w\<lparr>nm := v\<rparr>) NetIo (apply_profiles (env_nm env) profiles)) (\<lambda>outcome.
         io_bind (io_case (zoom relay (\<lambda>v w. w\<lparr>relay := v\<rparr>) relay_error
                    (reconcile (relay_out env) (relay_probes env) (if errors outcome = [] then c else default_network)))
           (\<lambda>e. io_return (fail_with ''dhcp-relay'' e outcome))
           (\<lambda>_. io_return outcome)) (\<lambda>outcome.
         io_bind (rebind_daemons env) (\<lambda>_.
         io_bind (io_modify (\<lambda>w. w\<lparr>tls_reapplied := Suc (tls_reapplied w)\<rparr>)) (\<lambda>_.
         io_return outcome))))))))"

definition apply_with_vf_settle ::
  "net_env \<Rightarrow> NetworkConfig \<Rightarrow> string option \<Rightarrow> string list \<Rightarrow> NmApplyOutcome net_io" where
  "apply_with_vf_settle env c mgmt live_names =
     io_bind (apply_config env c mgmt) (\<lambda>outcome.
       if (\<exists>i\<in>set (interfaces c). case if_sriov_num_vfs i of Some n \<Rightarrow> 0 < n | None \<Rightarrow> False) \<and>
          (\<exists>i\<in>set (interfaces c). if_name i \<notin> set live_names)
       then apply_config env c mgmt
       else io_return outcome)"

section \<open>Handlers\<close>

record UpdateRequest =
  req_config :: NetworkConfig
  req_confirm_within :: "u64 option"

record UpdateResponse =
  resp_txn_id :: "string option"
  resp_revert_at :: "u64 option"
  resp_risk :: "Risk option"
  resp_errors :: "(string \<times> string) list"

definition new_txn_id :: "net_env \<Rightarrow> string net_io" where
  "new_txn_id env =
     io_bind (io_get txn_counter) (\<lambda>n.
     io_bind (io_modify (\<lambda>w. w\<lparr>txn_counter := n + 1\<rparr>)) (\<lambda>_.
     io_return (show_hex (unat (unix_now env)) @ ''-'' @ show_hex (unat n))))"

definition schedule_rollback :: "string \<Rightarrow> u64 \<Rightarrow> Risk \<Rightarrow> unit net_io" where
  "schedule_rollback i at risk =
     io_modify (\<lambda>w. w\<lparr>txns :=
       AList.update i \<lparr>txn_revert_at = at, txn_risk = risk, txn_cancel = True\<rparr> (txns w)\<rparr>)"

definition rollback_secs :: "u64 option \<Rightarrow> Risk option \<Rightarrow> u64 option" where
  "rollback_secs within risk =
     (case (within, risk) of
        (Some n, _) \<Rightarrow> if n = 0 then None else Some n
      | (None, Some _) \<Rightarrow> Some 30
      | (None, None) \<Rightarrow> None)"

text \<open>The configuration an update applies: inherited settings resolved, checked against the
  live state, stale entries superseded.\<close>

definition prepare_update ::
  "net_env \<Rightarrow> NetworkConfig \<Rightarrow> NetworkConfig \<Rightarrow> LiveInterface list \<Rightarrow> NetError + NetworkConfig" where
  "prepare_update env prev c live =
     (let c' = resolve_inherit c prev (topology env)
      in res_bind (reject_infiniband_refs c' (by_name lv_name lv_kind live)) (\<lambda>_.
         res_bind (validate_sriov c' (by_name lv_name lv_sriov_total_vfs live)) (\<lambda>_.
         res_bind (map_sum Relay id (validate_upstreams c' (map lv_name live))) (\<lambda>_.
         Inr (supersede_absent_physical_entries c' (map lv_name live))))))"

text \<open>\<open>symlink_metadata(..).is_ok()\<close>: an error of any kind counts as no snapshot.\<close>

definition snapshot_seen :: "net_env \<Rightarrow> net_world \<Rightarrow> bool" where
  "snapshot_seen env w \<longleftrightarrow> stat_out env = None \<and> revert w \<noteq> Absent"

definition update :: "net_env \<Rightarrow> UpdateRequest \<Rightarrow> string option \<Rightarrow> UpdateResponse net_io" where
  "update env req mgmt =
     io_bind (io_get id) (\<lambda>w.
     if txns w \<noteq> [] then io_fail (TxnPending (fst (hd (txns w))))
     else if snapshot_seen env w then io_fail SnapshotPending
     else
       io_bind (io_lift (validate_update (req_config req) mgmt)) (\<lambda>_.
       io_bind (load_config env) (\<lambda>prev.
       io_bind (enumerate_interfaces env) (\<lambda>live.
       io_bind (io_lift (prepare_update env prev (req_config req) live)) (\<lambda>c.
       let risk = classify_risk prev c mgmt in
       case rollback_secs (req_confirm_within req) risk of
         Some secs \<Rightarrow>
           io_bind (fs env (\<lambda>w. w\<lparr>revert := Parsed prev\<rparr>)) (\<lambda>_.
           io_bind (persist_config env c) (\<lambda>_.
           io_bind (apply_with_vf_settle env c mgmt (map lv_name live)) (\<lambda>outcome.
           io_bind (new_txn_id env) (\<lambda>i.
           let at = unix_now env + secs;
               reason = (case risk of Some r \<Rightarrow> r | None \<Rightarrow> ExplicitConfirm)
           in io_bind (schedule_rollback i at reason) (\<lambda>_.
              io_return \<lparr>resp_txn_id = Some i, resp_revert_at = Some at, resp_risk = Some reason,
                         resp_errors = errors outcome\<rparr>)))))
       | None \<Rightarrow>
           io_bind (persist_config env c) (\<lambda>_.
           io_bind (apply_with_vf_settle env c mgmt (map lv_name live)) (\<lambda>outcome.
           io_return \<lparr>resp_txn_id = None, resp_revert_at = None, resp_risk = None,
                      resp_errors = errors outcome\<rparr>)))))))"

definition pending :: "net_world \<Rightarrow> (string \<times> u64 \<times> Risk) list" where
  "pending w = map (\<lambda>(i, t). (i, txn_revert_at t, txn_risk t)) (txns w)"

definition confirm :: "net_env \<Rightarrow> string \<Rightarrow> unit net_io" where
  "confirm env i =
     io_bind (io_get (\<lambda>w. map_of (txns w) i)) (\<lambda>t.
       case t of
         None \<Rightarrow> io_fail (UnknownTxn i)
       | Some t \<Rightarrow>
           if \<not> txn_cancel t then io_fail (RollbackInProgress i)
           else
             io_bind (io_get revert) (\<lambda>r.
             io_bind (if r = Absent then io_return () else fs env (\<lambda>w. w\<lparr>revert := Absent\<rparr>)) (\<lambda>_.
             io_modify (\<lambda>w. w\<lparr>txns := AList.delete i (txns w)\<rparr>))))"

definition perform_rollback :: "net_env \<Rightarrow> unit net_io" where
  "perform_rollback env =
     io_bind (fs env id) (\<lambda>_.
     io_bind (io_get revert) (\<lambda>r.
       case r of
         Absent \<Rightarrow> io_fail (NetIo ''pending-revert file disappeared'')
       | Garbage \<Rightarrow> io_fail (NetIo ''unparseable pending-revert'')
       | Parsed prev \<Rightarrow>
           io_bind (persist_config env prev) (\<lambda>_.
           io_bind (apply_config env prev None) (\<lambda>_.
           fs env (\<lambda>w. w\<lparr>revert := Absent\<rparr>)))))"

text \<open>The rollback timer of a transaction when its window has passed.\<close>

definition rollback_timer :: "net_env \<Rightarrow> string \<Rightarrow> unit net_io" where
  "rollback_timer env i =
     io_bind (io_get (\<lambda>w. map_of (txns w) i)) (\<lambda>t.
       case t of
         None \<Rightarrow> io_return ()
       | Some t \<Rightarrow>
           io_bind (io_modify (\<lambda>w. w\<lparr>txns := AList.update i (t\<lparr>txn_cancel := False\<rparr>) (txns w)\<rparr>)) (\<lambda>_.
           io_case (perform_rollback env)
             (\<lambda>e. io_modify (\<lambda>w. w\<lparr>txns :=
                    AList.update i (t\<lparr>txn_cancel := False, txn_risk := RollbackFailed e\<rparr>) (txns w)\<rparr>))
             (\<lambda>_. io_modify (\<lambda>w. w\<lparr>txns := AList.delete i (txns w)\<rparr>))))"

definition restore_pending_revert :: "net_env \<Rightarrow> unit net_io" where
  "restore_pending_revert env =
     io_case (fs env id) (\<lambda>_. io_return ()) (\<lambda>_.
     io_bind (io_get revert) (\<lambda>r.
       case r of
         Absent \<Rightarrow> io_return ()
       | Garbage \<Rightarrow> best_effort (fs env (\<lambda>w. w\<lparr>revert := Absent\<rparr>))
       | Parsed prev \<Rightarrow>
           io_case (persist_config env prev) (\<lambda>_. io_return ()) (\<lambda>_.
           io_case (apply_config env prev None) (\<lambda>_. io_return ()) (\<lambda>_.
           best_effort (fs env (\<lambda>w. w\<lparr>revert := Absent\<rparr>))))))"

text \<open>A restart of the engine: the transaction table is lost, then startup recovery runs.\<close>

definition restart :: "net_env \<Rightarrow> unit net_io" where
  "restart env = io_bind (io_modify (\<lambda>w. w\<lparr>txns := []\<rparr>)) (\<lambda>_. restore_pending_revert env)"

definition nm_apply :: "net_env \<Rightarrow> NmApplyOutcome net_io" where
  "nm_apply env = io_bind (load_config env) (\<lambda>c. apply_config env c None)"

definition reconcile_orphans :: "net_env \<Rightarrow> unit net_io" where
  "reconcile_orphans env =
     io_bind (load_config env) (\<lambda>c.
     io_bind (enumerate_interfaces env) (\<lambda>live.
     (let ctx = mac_context_default\<lparr>infiniband_ifaces := infiniband_names live\<rparr>;
          desired = retain_live_physical_profiles
                      (to_nm_profiles_with_macs (uuid5 env) (to_layered c) ctx) (map lv_name live)
      in io_case (fs env id) (\<lambda>_. io_return ()) (\<lambda>_.
         io_bind (sync_ib_unmanaged_conf env live c) (\<lambda>_.
         best_effort (zoom nm (\<lambda>v w. w\<lparr>nm := v\<rparr>) NetIo (apply_profiles (env_nm env) desired)))))))"

definition nm_preview :: "net_env \<Rightarrow> NmDiff net_io" where
  "nm_preview env =
     io_bind (load_config env) (\<lambda>c.
     io_bind (enumerate_interfaces env) (\<lambda>live.
     (let ctx = mac_context_default\<lparr>infiniband_ifaces := infiniband_names live\<rparr>;
          desired = retain_live_physical_profiles
                      (to_nm_profiles_with_macs (uuid5 env) (to_layered c) ctx) (map lv_name live)
      in io_bind (fs env id) (\<lambda>_.
         io_bind (zoom nm (\<lambda>v w. w\<lparr>nm := v\<rparr>) NetIo (list_nasty_connections (env_nm env))) (\<lambda>existing.
         io_return (compute_diff (nm_debug (env_nm env)) desired existing))))))"

definition restore_dhcp_relay :: "net_env \<Rightarrow> unit net_io" where
  "restore_dhcp_relay env =
     io_bind (load_config env) (\<lambda>c.
     zoom relay (\<lambda>v w. w\<lparr>relay := v\<rparr>) (\<lambda>e. NetIo (relay_error e)) (reconcile (relay_out env) (relay_probes env) c))"

section \<open>Executions\<close>

datatype net_op =
    Update UpdateRequest "string option"
  | Confirm string
  | Timer string
  | Restart
  | NmApply
  | NmPreview
  | ReconcileOrphans
  | RestoreRelay

fun net_step :: "net_world \<Rightarrow> net_env \<times> net_op \<Rightarrow> net_world" where
  "net_step w (env, Update req mgmt) = snd (update env req mgmt w)"
| "net_step w (env, Confirm i) = snd (confirm env i w)"
| "net_step w (env, Timer i) = snd (rollback_timer env i w)"
| "net_step w (env, Restart) = snd (restart env w)"
| "net_step w (env, NmApply) = snd (nm_apply env w)"
| "net_step w (env, NmPreview) = snd (nm_preview env w)"
| "net_step w (env, ReconcileOrphans) = snd (reconcile_orphans env w)"
| "net_step w (env, RestoreRelay) = snd (restore_dhcp_relay env w)"

section \<open>What the steps change\<close>

text \<open>The part of the world transactions are about.\<close>

definition core :: "net_world \<Rightarrow> config_file \<times> config_file \<times> (string \<times> PendingTxn) list" where
  "core w = (disk w, revert w, txns w)"

lemma core_eq: "core w = core w' \<longleftrightarrow> disk w = disk w' \<and> revert w = revert w' \<and> txns w = txns w'"
  by (simp add: core_def)

definition at_core :: "config_file \<times> config_file \<times> (string \<times> PendingTxn) list \<Rightarrow> net_world \<Rightarrow> bool" where
  "at_core x w \<longleftrightarrow> core w = x"

lemma keeps_fs [io_rules]: "(\<And>w. core (f w) = core w) \<Longrightarrow> keeps (at_core x) (fs env f)"
  by (auto simp: keeps_def fs_def at_core_def core_def split: option.splits)

lemma keeps_zoom_nm [io_rules]: "keeps (at_core x) (zoom nm (\<lambda>v w. w\<lparr>nm := v\<rparr>) err m)"
  by (auto simp: keeps_def zoom_def at_core_def core_def split: prod.splits)

lemma keeps_zoom_relay [io_rules]: "keeps (at_core x) (zoom relay (\<lambda>v w. w\<lparr>relay := v\<rparr>) err m)"
  by (auto simp: keeps_def zoom_def at_core_def core_def split: prod.splits)

lemma keeps_previews [io_rules]: "keeps (at_core x) (write_nm_previews env c)"
  unfolding write_nm_previews_def Let_def by (intro io_rules keeps_fold) (simp_all add: core_def)

lemma keeps_snapshot_history [io_rules]: "keeps (at_core x) (snapshot_history env prev)"
  unfolding snapshot_history_def by (intro io_rules) (simp add: core_def)

lemma keeps_sync_ib [io_rules]: "keeps (at_core x) (sync_ib_unmanaged_conf env live c)"
  unfolding sync_ib_unmanaged_conf_def by (intro io_rules) (simp_all add: core_def)

lemma keeps_rebind [io_rules]: "keeps (at_core x) (rebind_daemons env)"
  unfolding rebind_daemons_def by (intro keeps_fold io_rules) (simp add: core_def)

lemma keeps_tls [io_rules]: "keeps (at_core x) (io_modify (\<lambda>w. w\<lparr>tls_reapplied := f w\<rparr>))"
  by (simp add: keeps_def io_defs at_core_def core_def)

lemma keeps_load_config [io_rules]: "keeps P (load_config env)"
  unfolding load_config_def by (intro io_rules)

lemma keeps_apply_config [io_rules]: "keeps (at_core x) (apply_config env c mgmt)"
  unfolding apply_config_def Let_def enumerate_interfaces_def by (intro io_rules) (simp_all add: core_def)

lemma keeps_apply_settle [io_rules]: "keeps (at_core x) (apply_with_vf_settle env c mgmt live)"
  unfolding apply_with_vf_settle_def by (intro io_rules)

lemma keeps_core: "(\<And>x. keeps (at_core x) m) \<Longrightarrow> core (snd (m w)) = core w"
  unfolding keeps_def at_core_def by blast

lemma apply_core: "apply_config env c mgmt w = (r, w') \<Longrightarrow> core w' = core w"
  using keeps_core [OF keeps_apply_config, of env c mgmt w] by simp

lemma settle_core: "apply_with_vf_settle env c mgmt live w = (r, w') \<Longrightarrow> core w' = core w"
  using keeps_core [OF keeps_apply_settle, of env c mgmt live w] by simp

lemma best_effort_eval: "best_effort m w = (Inr (), snd (m w))"
  by (auto simp: best_effort_def io_defs split: prod.splits sum.splits)

lemma record_history_eval: "record_history env w = (Inr (), snd (record_history env w))"
  by (simp add: record_history_def io_defs best_effort_eval split: prod.split sum.split)

lemma record_history_core: "core (snd (record_history env w)) = core w"
  by (rule keeps_core) (unfold record_history_def, intro io_rules, simp)

text \<open>Persisting writes the configuration and nothing else of the core, and only one the
  validator accepts; when it fails the stored configuration is the old one.\<close>

lemma persist_eval:
  "persist_config env c w =
     (case validate (to_layered c) of
        Inl e \<Rightarrow> (Inl (Rejected e), w)
      | Inr _ \<Rightarrow>
          let w1 = snd (record_history env w) in
          case fs_out env (clock w1) of
            Some e \<Rightarrow> (Inl (NetIo e), w1\<lparr>clock := Suc (clock w1)\<rparr>)
          | None \<Rightarrow>
              (Inr (), snd (write_nm_previews env (to_layered c)
                 (snd (fs env (\<lambda>w. w\<lparr>disk_v2 := Some (to_layered c)\<rparr>) (w1\<lparr>disk := Parsed c, clock := Suc (clock w1)\<rparr>))))))"
proof -
  obtain w1 where "record_history env w = (Inr (), w1)"
    using record_history_eval by blast
  then show ?thesis
    by (auto simp: persist_config_def io_bind_def io_get_def io_fail_def Let_def
        fs_def best_effort_eval split: sum.splits option.splits)
qed

lemma persist_core:
  assumes "persist_config env c w = (r, w')"
  shows "revert w' = revert w \<and> txns w' = txns w \<and>
    (case r of Inr _ \<Rightarrow> disk w' = Parsed c \<and> layered_ok (to_layered c) | Inl _ \<Rightarrow> disk w' = disk w)"
proof -
  have pv: "core (snd (write_nm_previews env l v)) = core v" for l v
    by (rule keeps_core) (intro io_rules)
  have v2: "core (snd (fs env (\<lambda>w. w\<lparr>disk_v2 := x\<rparr>) v)) = core v" for x v
    by (rule keeps_core) (intro io_rules, simp add: core_def)
  show ?thesis
    using assms record_history_core [of env w] pv v2
    by (auto simp: persist_eval Let_def core_eq validate_iff [symmetric] split: sum.splits option.splits)
qed

lemma persist_ok:
  assumes "fs_out env = (\<lambda>_. None)" "layered_ok (to_layered c)"
  shows "\<exists>w'. persist_config env c w = (Inr (), w')"
  using assms by (simp add: persist_eval validate_iff [symmetric] Let_def)

section \<open>The transaction protocol\<close>

text \<open>
  The contract of the service, over the configuration in force and the phase of the
  transaction: nothing pending; a change awaiting confirmation, with the configuration to
  return to; a rollback that failed; or a snapshot without a transaction. Its steps carry what an
  observer sees: the answer of an update and whether it could look at the snapshot and read the
  stored configuration, the answer of a confirmation, the timer of a transaction, a restart, and
  everything that has no part in transactions.
\<close>

datatype phase =
    Idle
  | Awaiting NetworkConfig string
  | Failed NetworkConfig string
  | Stranded NetworkConfig

type_synonym txn_state = "NetworkConfig \<times> phase"

datatype net_event =
    Updated bool bool "NetError + UpdateResponse"
  | Confirmed string "NetError + unit"
  | TimedOut string
  | Restarted
  | Other

definition accepted :: "NetworkConfig \<Rightarrow> bool" where
  "accepted c \<longleftrightarrow> layered_ok (to_layered c)"

text \<open>An update goes on where nothing is pending; one that cannot look at the snapshot file also
  goes on over a snapshot. It takes the default for the previous configuration when it cannot read it.\<close>

definition open_to :: "bool \<Rightarrow> phase \<Rightarrow> bool" where
  "open_to blind ph \<longleftrightarrow> ph = Idle \<or> blind \<and> (\<exists>q. ph = Stranded q)"

definition seen_as :: "bool \<Rightarrow> NetworkConfig \<Rightarrow> NetworkConfig" where
  "seen_as misread cur = (if misread then default_network else cur)"

inductive txn_step :: "txn_state \<Rightarrow> net_event \<Rightarrow> txn_state \<Rightarrow> bool" where
  refused: "txn_step s (Updated b m (Inl e)) s"
| direct: "open_to b ph \<Longrightarrow> accepted c \<Longrightarrow> (\<And>resp. r = Inr resp \<Longrightarrow> resp_txn_id resp = None) \<Longrightarrow>
    txn_step (cur, ph) (Updated b m r) (c, ph)"
| opened: "open_to b ph \<Longrightarrow> accepted c \<Longrightarrow> resp_txn_id resp = Some i \<Longrightarrow>
    txn_step (cur, ph) (Updated b m (Inr resp)) (c, Awaiting (seen_as m cur) i)"
| strand: "open_to b ph \<Longrightarrow> c = cur \<or> accepted c \<Longrightarrow>
    txn_step (cur, ph) (Updated b m (Inl e)) (c, Stranded (seen_as m cur))"
| confirmed: "txn_step (cur, Awaiting p i) (Confirmed i (Inr ())) (cur, Idle)"
| unconfirmed: "txn_step s (Confirmed i (Inl e)) s"
| rolled_back: "ph = Awaiting p i \<or> ph = Failed p i \<Longrightarrow> txn_step (cur, ph) (TimedOut i) (p, Idle)"
| rollback_failed: "ph = Awaiting p i \<or> ph = Failed p i \<Longrightarrow> c = cur \<or> c = p \<Longrightarrow>
    txn_step (cur, ph) (TimedOut i) (c, Failed p i)"
| late: "(\<And>p. ph \<noteq> Awaiting p i \<and> ph \<noteq> Failed p i) \<Longrightarrow> txn_step (cur, ph) (TimedOut i) (cur, ph)"
| recovered: "ph = Awaiting p i \<or> ph = Failed p i \<or> ph = Stranded p \<Longrightarrow> txn_step (cur, ph) Restarted (p, Idle)"
| recovery_failed: "ph = Awaiting p i \<or> ph = Failed p i \<or> ph = Stranded p \<Longrightarrow> c = cur \<or> c = p \<Longrightarrow>
    txn_step (cur, ph) Restarted (c, Stranded p)"
| nothing_to_recover: "txn_step (cur, Idle) Restarted (cur, Idle)"
| other: "txn_step s Other s"

inductive txn_trace :: "txn_state \<Rightarrow> net_event list \<Rightarrow> txn_state \<Rightarrow> bool" where
  trace_nil: "txn_trace s [] s"
| trace_cons: "txn_step s e s' \<Longrightarrow> txn_trace s' es s'' \<Longrightarrow> txn_trace s (e # es) s''"

inductive_cases txn_step_timeout: "txn_step s (TimedOut i) s'"
inductive_cases txn_step_confirmed: "txn_step s (Confirmed i r) s'"

text \<open>What an observer sees of an execution.\<close>

fun observed :: "net_world \<Rightarrow> net_env \<times> net_op \<Rightarrow> net_event" where
  "observed w (env, Update req mgmt) =
     Updated (stat_out env \<noteq> None) (read_out env \<noteq> None) (fst (update env req mgmt w))"
| "observed w (env, Confirm i) = Confirmed i (fst (confirm env i w))"
| "observed w (env, Timer i) = TimedOut i"
| "observed w (env, Restart) = Restarted"
| "observed w (env, NmApply) = Other"
| "observed w (env, NmPreview) = Other"
| "observed w (env, ReconcileOrphans) = Other"
| "observed w (env, RestoreRelay) = Other"

fun net_trace :: "net_world \<Rightarrow> (net_env \<times> net_op) list \<Rightarrow> net_event list" where
  "net_trace w [] = []"
| "net_trace w (e # es) = observed w e # net_trace (net_step w e) es"

definition phase_of :: "net_world \<Rightarrow> phase" where
  "phase_of w =
     (case revert w of
        Parsed p \<Rightarrow>
          (case txns w of
             [] \<Rightarrow> Stranded p
           | (i, t) # _ \<Rightarrow> if txn_cancel t then Awaiting p i else Failed p i)
      | _ \<Rightarrow> Idle)"

definition txn_abs :: "net_world \<Rightarrow> txn_state" where
  "txn_abs w = (in_force w, phase_of w)"

text \<open>The concrete invariant: only accepted configurations are stored, at most one transaction
  is pending, and a pending transaction has its snapshot.\<close>

definition stored_ok :: "config_file \<Rightarrow> bool" where
  "stored_ok f \<longleftrightarrow> (case f of Parsed c \<Rightarrow> accepted c | _ \<Rightarrow> True)"

definition net_inv :: "net_world \<Rightarrow> bool" where
  "net_inv w \<longleftrightarrow>
     stored_ok (disk w) \<and> stored_ok (revert w) \<and> revert w \<noteq> Garbage \<and>
     length (txns w) \<le> 1 \<and> (txns w \<noteq> [] \<longrightarrow> revert w \<noteq> Absent)"

lemma net_inv_core: "core w = core w' \<Longrightarrow> net_inv w = net_inv w'"
  by (simp add: net_inv_def core_eq)

lemma txn_abs_core: "core w = core w' \<Longrightarrow> txn_abs w = txn_abs w'"
  by (auto simp: txn_abs_def in_force_def phase_of_def core_eq split: json_file.splits)

lemma accepted_default: "accepted default_network"
  unfolding accepted_def validate_iff [symmetric] by code_simp

lemma load_accepted: "net_inv w \<Longrightarrow> accepted (in_force w)"
  by (auto simp: net_inv_def stored_ok_def in_force_def accepted_default split: json_file.splits)

definition refines :: "net_world \<Rightarrow> net_event \<Rightarrow> net_world \<Rightarrow> bool" where
  "refines w ev w' \<longleftrightarrow> net_inv w' \<and> txn_step (txn_abs w) ev (txn_abs w')"

lemma refines_core: "net_inv w \<Longrightarrow> core w' = core w \<Longrightarrow> (\<And>s. s = txn_abs w \<Longrightarrow> txn_step s ev s) \<Longrightarrow> refines w ev w'"
  using net_inv_core [of w' w] txn_abs_core [of w' w] by (simp add: refines_def)

text \<open>The ways an update ends, by the part of the core it leaves.\<close>

lemma update_core:
  assumes "update env req mgmt w = (r, w')"
  shows "core w' = core w \<and> isl r \<or>
    txns w = [] \<and> \<not> snapshot_seen env w \<and>
    (disk w' = disk w \<and> isl r \<or> (\<exists>c. disk w' = Parsed c \<and> accepted c)) \<and>
    (revert w' = revert w \<and> txns w' = [] \<and> (\<forall>resp. r = Inr resp \<longrightarrow> resp_txn_id resp = None) \<or>
     revert w' = Parsed (read_config env w) \<and>
     (isl r \<and> txns w' = [] \<or>
      (\<exists>resp i t. r = Inr resp \<and> resp_txn_id resp = Some i \<and> txns w' = [(i, t)] \<and> txn_cancel t)))"
proof -
  let ?live = "live_at env (clock w)"
  let ?prev = "read_config env w"
  let ?prepared = "res_bind (validate_update (req_config req) mgmt) (\<lambda>_. prepare_update env ?prev (req_config req) ?live)"
  show ?thesis
  proof (cases "txns w \<noteq> [] \<or> snapshot_seen env w \<or> isl ?prepared")
    case True
    then have "w' = w \<and> isl r"
      using assms
      by (auto simp: update_def load_config_def enumerate_interfaces_def io_defs Let_def isl_def res_bind_eq_Inl split: if_splits)
    then show ?thesis by simp
  next
    case False
    then obtain c where c: "validate_update (req_config req) mgmt = Inr ()" "prepare_update env ?prev (req_config req) ?live = Inr c"
      by (cases ?prepared) (auto simp: res_bind_eq_Inr)
    from False have clean: "txns w = []" "\<not> snapshot_seen env w" by auto
    show ?thesis
    proof (cases "rollback_secs (req_confirm_within req) (classify_risk ?prev c mgmt)")
      case None
      obtain r1 w1 where p: "persist_config env c w = (r1, w1)" by fastforce
      obtain r2 w2 where a: "apply_with_vf_settle env c mgmt (map lv_name ?live) w1 = (r2, w2)" by fastforce
      have "(case r1 of Inl e \<Rightarrow> w' = w1 \<and> isl r | Inr _ \<Rightarrow> w' = w2 \<and> (\<forall>resp. r = Inr resp \<longrightarrow> resp_txn_id resp = None))"
        using assms clean c None p a
        by (auto simp: update_def load_config_def enumerate_interfaces_def io_defs Let_def split: sum.splits)
      with persist_core [OF p] settle_core [OF a] clean show ?thesis
        by (auto simp: core_eq accepted_def split: sum.splits)
    next
      case (Some secs)
      let ?w0 = "w\<lparr>revert := Parsed ?prev, clock := Suc (clock w)\<rparr>"
      obtain r1 w1 where p: "persist_config env c ?w0 = (r1, w1)" by fastforce
      obtain r2 w2 where a: "apply_with_vf_settle env c mgmt (map lv_name ?live) w1 = (r2, w2)" by fastforce
      show ?thesis
      proof (cases "fs_out env (clock w)")
        case (Some e)
        then have "core w' = core w \<and> isl r"
          using assms clean c \<open>rollback_secs _ _ = Some secs\<close>
          by (auto simp: update_def load_config_def enumerate_interfaces_def io_defs Let_def fs_def core_eq)
        then show ?thesis ..
      next
        case None
        consider "isl r1" "w' = w1" "isl r" | "\<not> isl r1" "isl r2" "w' = w2" "isl r"
          | i reason es where "\<not> isl r1"
              "r = Inr \<lparr>resp_txn_id = Some i, resp_revert_at = Some (unix_now env + secs),
                        resp_risk = Some reason, resp_errors = es\<rparr>"
              "txns w' = AList.update i \<lparr>txn_revert_at = unix_now env + secs, txn_risk = reason,
                        txn_cancel = True\<rparr> (txns w2)"
              "disk w' = disk w2" "revert w' = revert w2"
          using assms clean c Some None p a
          by (cases r1; cases r2)
            (auto simp: update_def load_config_def enumerate_interfaces_def io_defs Let_def fs_def new_txn_id_def
              schedule_rollback_def)
        then show ?thesis
          using persist_core [OF p] settle_core [OF a] clean
          by cases (auto simp: core_eq accepted_def split: sum.splits)
      qed
    qed
  qed
qed

lemma read_accepted: "net_inv w \<Longrightarrow> accepted (read_config env w)"
  by (simp add: read_config_def load_accepted accepted_default)

lemma update_refines:
  assumes "net_inv w" "update env req mgmt w = (r, w')"
  shows "refines w (Updated (stat_out env \<noteq> None) (read_out env \<noteq> None) r) w'"
proof (cases "core w' = core w \<and> isl r")
  case True
  then obtain e where "r = Inl e" by (cases r) auto
  then show ?thesis using True by (auto intro!: refines_core [OF assms(1)] refused)
next
  case False
  let ?b = "stat_out env \<noteq> None" and ?m = "read_out env \<noteq> None"
  note u = update_core [OF assms(2)]
  from u False have clean: "txns w = []" "\<not> snapshot_seen env w"
    and d: "disk w' = disk w \<and> isl r \<or> (\<exists>c. disk w' = Parsed c \<and> accepted c)" by auto
  have free: "open_to ?b (phase_of w)"
    using clean assms(1) by (cases "revert w") (auto simp: open_to_def phase_of_def snapshot_seen_def net_inv_def)
  have prev: "read_config env w = seen_as ?m (in_force w)" by (simp add: read_config_def seen_as_def)
  have cur: "in_force w' = in_force w \<or> accepted (in_force w')" using d by (auto simp: in_force_def)
  have acc: "accepted (in_force w')" using cur load_accepted [OF assms(1)] by auto
  have st: "stored_ok (disk w')" using d assms(1) by (auto simp: net_inv_def stored_ok_def)
  from u False consider "revert w' = revert w" "txns w' = []" "\<And>resp. r = Inr resp \<Longrightarrow> resp_txn_id resp = None"
    | e where "revert w' = Parsed (read_config env w)" "txns w' = []" "r = Inl e"
    | resp i t where "revert w' = Parsed (read_config env w)" "txns w' = [(i, t)]" "txn_cancel t" "r = Inr resp"
        "resp_txn_id resp = Some i"
    by (cases r) auto
  then show ?thesis
  proof cases
    case 1
    then have "phase_of w' = phase_of w" using clean by (auto simp: phase_of_def split: json_file.split)
    moreover have "net_inv w'" using 1 st assms(1) by (auto simp: net_inv_def)
    ultimately show ?thesis using direct [OF free acc 1(3)] by (simp add: refines_def txn_abs_def)
  next
    case 2
    then have "txn_abs w' = (in_force w', Stranded (read_config env w))" by (simp add: txn_abs_def phase_of_def)
    then show ?thesis using 2 st cur strand [OF free, of "in_force w'" "in_force w" ?m] read_accepted [OF assms(1), of env] prev
      by (simp add: refines_def net_inv_def stored_ok_def txn_abs_def)
  next
    case 3
    then have "txn_abs w' = (in_force w', Awaiting (read_config env w) i)" by (simp add: txn_abs_def phase_of_def)
    then show ?thesis using 3 st opened [OF free acc 3(5), of "in_force w" ?m] read_accepted [OF assms(1), of env] prev
      by (simp add: refines_def net_inv_def stored_ok_def txn_abs_def)
  qed
qed

lemma inv_single_txn:
  assumes "net_inv w" "map_of (txns w) i = Some t"
  shows "txns w = [(i, t)]" "\<exists>p. revert w = Parsed p \<and> accepted p"
proof -
  from assms(2) have "(i, t) \<in> set (txns w)" by (rule map_of_SomeD)
  moreover have "length (txns w) \<le> 1" using assms(1) by (simp add: net_inv_def)
  ultimately show *: "txns w = [(i, t)]" by (cases "txns w") auto
  then show "\<exists>p. revert w = Parsed p \<and> accepted p"
    using assms(1) by (cases "revert w") (auto simp: net_inv_def stored_ok_def)
qed

lemma confirm_refines:
  assumes "net_inv w" "confirm env i w = (r, w')"
  shows "refines w (Confirmed i r) w'"
proof (cases "map_of (txns w) i")
  case None
  then have "w' = w" "r = Inl (UnknownTxn i)" using assms(2) by (simp_all add: confirm_def io_defs)
  then show ?thesis using refines_core [OF assms(1)] unconfirmed by simp
next
  case (Some t)
  note tx = inv_single_txn [OF assms(1) Some]
  then obtain p where p: "revert w = Parsed p" by blast
  show ?thesis
  proof (cases "txn_cancel t \<and> fs_out env (clock w) = None")
    case True
    then have w': "w' = w\<lparr>revert := Absent, clock := Suc (clock w), txns := []\<rparr>" and r: "r = Inr ()"
      using assms(2) Some tx(1) p by (simp_all add: confirm_def io_defs fs_def)
    have "txn_abs w = (in_force w, Awaiting p i)"
      using tx(1) p True by (simp add: txn_abs_def phase_of_def)
    moreover have "txn_abs w' = (in_force w, Idle)"
      by (simp add: w' txn_abs_def phase_of_def in_force_def)
    moreover have "net_inv w'" using assms(1) by (simp add: w' net_inv_def stored_ok_def)
    ultimately show ?thesis by (simp add: refines_def r confirmed)
  next
    case False
    then have "core w' = core w \<and> (\<exists>e. r = Inl e)"
      using assms(2) Some p
      by (cases "txn_cancel t") (auto simp: confirm_def io_defs fs_def core_def split: option.splits)
    then show ?thesis using refines_core [OF assms(1)] unconfirmed by blast
  qed
qed

text \<open>A rollback either completes, or leaves the snapshot and one of the two configurations.\<close>

lemma rollback_core:
  assumes "perform_rollback env w = (r, w')" "revert w = Parsed p"
  shows "txns w' = txns w \<and>
    (case r of
       Inr _ \<Rightarrow> disk w' = Parsed p \<and> revert w' = Absent
     | Inl _ \<Rightarrow> (disk w' = disk w \<or> disk w' = Parsed p) \<and> revert w' = Parsed p)"
proof (cases "fs_out env (clock w)")
  case (Some e)
  with assms show ?thesis by (auto simp: perform_rollback_def io_defs fs_def)
next
  case None
  obtain r1 w1 where s1: "persist_config env p (w\<lparr>clock := Suc (clock w)\<rparr>) = (r1, w1)" by fastforce
  obtain r2 w2 where s2: "apply_config env p None w1 = (r2, w2)" by fastforce
  have "(case r1 of Inl e \<Rightarrow> w' = w1 \<and> r = Inl e
         | Inr _ \<Rightarrow> (case r2 of Inl e \<Rightarrow> w' = w2 \<and> r = Inl e
                    | Inr _ \<Rightarrow> (r, w') = fs env (\<lambda>w. w\<lparr>revert := Absent\<rparr>) w2))"
    using assms None s1 s2 by (auto simp: perform_rollback_def io_defs fs_def split: sum.splits)
  with persist_core [OF s1] apply_core [OF s2] assms(2) show ?thesis
    by (auto simp: fs_def core_eq split: sum.splits option.splits)
qed

lemma timer_refines:
  assumes "net_inv w" "rollback_timer env i w = (r, w')"
  shows "refines w (TimedOut i) w'"
proof (cases "map_of (txns w) i")
  case None
  then have "w' = w" using assms(2) by (simp add: rollback_timer_def io_defs)
  moreover have "phase_of w \<noteq> Awaiting p i \<and> phase_of w \<noteq> Failed p i" for p
    using None by (auto simp: phase_of_def split: json_file.split list.split)
  then have "txn_step (in_force w, phase_of w) (TimedOut i) (in_force w, phase_of w)" by (rule late)
  ultimately show ?thesis by (auto intro!: refines_core [OF assms(1)] simp: txn_abs_def)
next
  case (Some t)
  note tx = inv_single_txn [OF assms(1) Some]
  then obtain p where p: "revert w = Parsed p" "accepted p" by blast
  let ?w1 = "w\<lparr>txns := [(i, t\<lparr>txn_cancel := False\<rparr>)]\<rparr>"
  obtain r1 w2 where s: "perform_rollback env ?w1 = (r1, w2)" by fastforce
  have c: "txns w2 = [(i, t\<lparr>txn_cancel := False\<rparr>)]"
    "case r1 of Inr _ \<Rightarrow> disk w2 = Parsed p \<and> revert w2 = Absent
       | Inl _ \<Rightarrow> (disk w2 = disk w \<or> disk w2 = Parsed p) \<and> revert w2 = Parsed p"
    using rollback_core [OF s, of p] p by (cases r1; simp)+
  have a: "\<exists>ph. (ph = Awaiting p i \<or> ph = Failed p i) \<and> txn_abs w = (in_force w, ph)"
    using tx(1) p by (simp add: txn_abs_def phase_of_def)
  have "disk w' = disk w2 \<and> revert w' = revert w2 \<and>
      (case r1 of Inr _ \<Rightarrow> txns w' = [] | Inl e \<Rightarrow> \<exists>t'. txns w' = [(i, t')] \<and> \<not> txn_cancel t')"
    using assms(2) Some tx(1) s c(1) by (auto simp: rollback_timer_def io_defs split: sum.splits)
  then show ?thesis
    using c a p assms(1)
    by (auto simp: refines_def net_inv_def stored_ok_def txn_abs_def phase_of_def in_force_def
        intro: rolled_back rollback_failed split: sum.splits)
qed

lemma restart_core:
  assumes "restart env w = (r, w')" "revert w = Parsed p"
  shows "txns w' = [] \<and>
    (disk w' = Parsed p \<and> revert w' = Absent \<or>
     (disk w' = disk w \<or> disk w' = Parsed p) \<and> revert w' = Parsed p)"
proof (cases "fs_out env (clock w)")
  case (Some e)
  with assms show ?thesis by (auto simp: restart_def restore_pending_revert_def io_defs fs_def)
next
  case None
  obtain r1 w1 where s1: "persist_config env p (w\<lparr>txns := [], clock := Suc (clock w)\<rparr>) = (r1, w1)" by fastforce
  obtain r2 w2 where s2: "apply_config env p None w1 = (r2, w2)" by fastforce
  have "(case r1 of Inl e \<Rightarrow> w' = w1
         | Inr _ \<Rightarrow> (case r2 of Inl e \<Rightarrow> w' = w2 | Inr _ \<Rightarrow> w' = snd (fs env (\<lambda>w. w\<lparr>revert := Absent\<rparr>) w2)))"
    using assms None s1 s2
    by (auto simp: restart_def restore_pending_revert_def io_defs fs_def best_effort_eval split: sum.splits)
  with persist_core [OF s1] apply_core [OF s2] assms(2) show ?thesis
    by (auto simp: fs_def core_eq split: sum.splits option.splits)
qed

lemma restart_refines:
  assumes "net_inv w" "restart env w = (r, w')"
  shows "refines w Restarted w'"
proof (cases "revert w")
  case (Parsed p)
  have "\<exists>ph i. (ph = Awaiting p i \<or> ph = Failed p i \<or> ph = Stranded p) \<and> txn_abs w = (in_force w, ph)"
    using Parsed by (cases "txns w") (auto simp: txn_abs_def phase_of_def)
  then show ?thesis
    using restart_core [OF assms(2) Parsed] assms(1) Parsed
    by (auto simp: refines_def net_inv_def stored_ok_def txn_abs_def phase_of_def in_force_def
        intro: recovered recovery_failed)
next
  case Absent
  then have "txns w = []" using assms(1) by (simp add: net_inv_def)
  then have "core w' = core w"
    using assms(2) Absent
    by (auto simp: restart_def restore_pending_revert_def io_defs fs_def core_def split: option.splits)
  then show ?thesis using Absent by (auto intro!: refines_core [OF assms(1)] nothing_to_recover simp: txn_abs_def phase_of_def)
qed (use assms(1) in \<open>simp add: net_inv_def\<close>)

lemma keeps_nm_apply: "keeps (at_core x) (nm_apply env)"
  unfolding nm_apply_def by (intro io_rules)

lemma keeps_nm_preview: "keeps (at_core x) (nm_preview env)"
  unfolding nm_preview_def Let_def enumerate_interfaces_def by (intro io_rules) (simp add: core_def)

lemma keeps_reconcile_orphans: "keeps (at_core x) (reconcile_orphans env)"
  unfolding reconcile_orphans_def Let_def enumerate_interfaces_def
  by (intro io_rules) (simp add: core_def)

lemma keeps_restore_relay: "keeps (at_core x) (restore_dhcp_relay env)"
  unfolding restore_dhcp_relay_def by (intro io_rules)

lemma keeps_other:
  "keeps (at_core x) (nm_apply env)" "keeps (at_core x) (nm_preview env)"
  "keeps (at_core x) (reconcile_orphans env)" "keeps (at_core x) (restore_dhcp_relay env)"
  by (rule keeps_nm_apply keeps_nm_preview keeps_reconcile_orphans keeps_restore_relay)+

text \<open>The steps that have no part in transactions.\<close>

lemma other_core: "observed w (env, op) = Other \<Longrightarrow> core (net_step w (env, op)) = core w"
  by (cases op) (simp_all add: keeps_core [OF keeps_other(1)] keeps_core [OF keeps_other(2)]
      keeps_core [OF keeps_other(3)] keeps_core [OF keeps_other(4)])

lemma net_step_refines: "net_inv w \<Longrightarrow> refines w (observed w e) (net_step w e)"
proof -
  assume inv: "net_inv w"
  obtain env op where e: "e = (env, op)" by fastforce
  show ?thesis
  proof (cases "observed w e = Other")
    case True
    then show ?thesis using other_core by (auto simp: e intro!: refines_core [OF inv] other)
  next
    case False
    then show ?thesis
      using update_refines [OF inv prod.collapse [symmetric]] confirm_refines [OF inv prod.collapse [symmetric]]
        timer_refines [OF inv prod.collapse [symmetric]] restart_refines [OF inv prod.collapse [symmetric]]
      by (cases op) (simp_all add: e)
  qed
qed

interpretation net: machine net_step net_inv
  by unfold_locales (use net_step_refines refines_def in blast)

lemma txn_run: "net_inv w \<Longrightarrow> txn_trace (txn_abs w) (net_trace w es) (txn_abs (run_steps net_step w es))"
proof (induction es arbitrary: w)
  case Nil
  then show ?case by (simp add: trace_nil)
next
  case (Cons e es)
  from net_step_refines [OF Cons.prems, of e] have "net_inv (net_step w e)"
    "txn_step (txn_abs w) (observed w e) (txn_abs (net_step w e))" by (simp_all add: refines_def)
  with Cons.IH show ?case by (auto intro: trace_cons)
qed

lemma snapshot_step:
  assumes "net_inv w" "revert w = Parsed p" "\<And>i. snd e \<noteq> Confirm i" "stat_out (fst e) = None"
  shows "revert (net_step w e) = Parsed p \<or> txn_abs (net_step w e) = (p, Idle)"
proof -
  obtain env op where e: "e = (env, op)" by fastforce
  show ?thesis
  proof (cases "observed w e = Other")
    case True
    then show ?thesis using other_core [of w env op] assms(2) by (simp add: e core_eq)
  next
    case other: False
    show ?thesis
    proof (cases op)
      case (Update req mgmt)
      have "snapshot_seen env w" using assms(2,4) by (simp add: snapshot_seen_def e)
      then have "core (net_step w e) = core w"
        using update_core [of env req mgmt w "fst (update env req mgmt w)" "net_step w e"] Update
        by (simp add: e prod_eq_iff)
      then show ?thesis using assms(2) by (simp add: core_eq)
    next
      case (Timer i)
      show ?thesis
      proof (cases "map_of (txns w) i")
        case None
        with Timer assms(2) show ?thesis by (simp add: e rollback_timer_def io_defs)
      next
        case (Some t)
        let ?w1 = "w\<lparr>txns := [(i, t\<lparr>txn_cancel := False\<rparr>)]\<rparr>"
        obtain r1 w2 where s: "perform_rollback env ?w1 = (r1, w2)" by fastforce
        show ?thesis
          using rollback_core [OF s, of p] assms(2) Timer Some s inv_single_txn(1) [OF assms(1) Some]
          by (cases r1) (auto simp: e rollback_timer_def io_defs txn_abs_def phase_of_def in_force_def)
      qed
    next
      case Restart
      then show ?thesis
        using restart_core [of env w "fst (restart env w)" "net_step w e" p] assms(2)
        by (auto simp: e txn_abs_def phase_of_def in_force_def)
    qed (use assms(3) e other in auto)
  qed
qed

lemma snapshot_run:
  assumes "net_inv w" "revert w = Parsed p" "\<forall>e\<in>set es. stat_out (fst e) = None \<and> (\<forall>i. snd e \<noteq> Confirm i)"
  shows "revert (run_steps net_step w es) = Parsed p \<or>
    (\<exists>k\<le>length es. txn_abs (run_steps net_step w (take k es)) = (p, Idle))"
  using assms
proof (induction es arbitrary: w)
  case (Cons e es)
  have inv: "net_inv (net_step w e)" by (rule net.step_inv [OF Cons.prems(1)])
  have "revert (net_step w e) = Parsed p \<or> txn_abs (net_step w e) = (p, Idle)"
    using snapshot_step [OF Cons.prems(1,2)] Cons.prems(3) by simp
  then show ?case
  proof
    assume "revert (net_step w e) = Parsed p"
    from Cons.IH [OF inv this] Cons.prems(3) show ?thesis
      by (metis Suc_le_mono length_Cons list.set_intros(2) run_steps.simps(2) take_Suc_Cons)
  next
    assume "txn_abs (net_step w e) = (p, Idle)"
    then have "txn_abs (run_steps net_step w (take 1 (e # es))) = (p, Idle)" by simp
    then show ?thesis by (metis One_nat_def Suc_le_mono le0 length_Cons)
  qed
qed simp

lemma idle_step:
  assumes "revert w = Absent" "txns w = []" "\<And>req mgmt. snd e \<noteq> Update req mgmt"
  shows "core (net_step w e) = core w"
proof -
  obtain env op where e: "e = (env, op)" by fastforce
  show ?thesis
  proof (cases "observed w e = Other")
    case True
    then show ?thesis using other_core [of w env op] by (simp add: e)
  next
    case False
    then show ?thesis
      using assms
      by (cases op) (auto simp: e confirm_def rollback_timer_def restart_def restore_pending_revert_def io_defs fs_def
          core_def split: option.splits)
  qed
qed

lemma idle_run:
  assumes "revert w = Absent" "txns w = []" "\<forall>e\<in>set es. \<forall>req mgmt. snd e \<noteq> Update req mgmt"
  shows "core (run_steps net_step w es) = core w"
  using assms
proof (induction es arbitrary: w)
  case (Cons e es)
  have c: "core (net_step w e) = core w" using idle_step [OF Cons.prems(1,2)] Cons.prems(3) by simp
  then have "revert (net_step w e) = Absent" "txns (net_step w e) = []"
    using Cons.prems(1,2) by (simp_all add: core_eq)
  from Cons.IH [OF this] Cons.prems(3) c show ?case by simp
qed simp

text \<open>When nothing fails, an apply goes through and NetworkManager ends up with the profiles.\<close>

definition env_ok :: "net_env \<Rightarrow> bool" where
  "env_ok env \<longleftrightarrow> fs_out env = (\<lambda>_. None) \<and> all_ok (env_nm env)"

text \<open>The interfaces the system reports do not change while a handler runs.\<close>

definition steady :: "net_env \<Rightarrow> LiveInterface list \<Rightarrow> bool" where
  "steady env live \<longleftrightarrow> live_at env = (\<lambda>_. live)"

definition live_ctx :: "LiveInterface list \<Rightarrow> string option \<Rightarrow> MacContext" where
  "live_ctx live mgmt =
     \<lparr>live_macs = by_name lv_name lv_mac live, mgmt_iface = mgmt, infiniband_ifaces = infiniband_names live\<rparr>"

definition desired_profiles :: "net_env \<Rightarrow> NetworkConfig \<Rightarrow> string option \<Rightarrow> LiveInterface list \<Rightarrow> NmConnection list" where
  "desired_profiles env c mgmt live =
     retain_live_physical_profiles
       (to_nm_profiles_with_macs (uuid5 env) (to_layered c) (live_ctx live mgmt)) (map lv_name live)"

lemma fs_ok: "fs_out env = (\<lambda>_. None) \<Longrightarrow> fs env f w = (Inr (), (f w)\<lparr>clock := Suc (clock w)\<rparr>)"
  by (simp add: fs_def)

lemma sync_ib_ok: "\<exists>w'. sync_ib_unmanaged_conf env live c w = (Inr (), w') \<and> nm w' = nm w"
  by (auto simp: sync_ib_unmanaged_conf_def io_defs fs_def best_effort_def
      split: option.splits prod.splits sum.splits if_splits)

lemma keeps_nm_fs [io_rules]: "(\<And>w. nm (f w) = nm w) \<Longrightarrow> keeps (\<lambda>w. nm w = x) (fs env f)"
  by (auto simp: keeps_def fs_def split: option.splits)

lemma keeps_persist_nm: "keeps (\<lambda>w. nm w = x) (persist_config env c)"
  unfolding persist_config_def record_history_def Let_def snapshot_history_def write_nm_previews_def
  by (cases "validate (to_layered c)") (auto intro!: io_rules keeps_fold)

lemma rebind_ok: "\<exists>w'. rebind_daemons env w = (Inr (), w') \<and> nm w' = nm w"
  by (auto simp: rebind_daemons_def io_defs fs_def best_effort_def split: option.splits)

lemma apply_config_ok:
  assumes "env_ok env" "distinct (map fst (nm_conns (nm w)))"
  shows "\<exists>out w'. apply_config env c mgmt w = (Inr out, w') \<and>
    nm w' = snd (apply_profiles (env_nm env) (desired_profiles env c mgmt (live_at env (clock w))) (nm w))"
proof -
  let ?live = "live_at env (clock w)"
  let ?ps = "desired_profiles env c mgmt ?live"
  let ?w1 = "w\<lparr>clock := Suc (clock w)\<rparr>"
  obtain w2 where s: "sync_ib_unmanaged_conf env ?live c ?w1 = (Inr (), w2)" "nm w2 = nm w"
    using sync_ib_ok [of env ?live c ?w1] by auto
  have "all_ok (env_nm env)" using assms(1) by (simp add: env_ok_def)
  from apply_agrees [OF this assms(2), of ?ps]
  obtain out v where a: "apply_profiles (env_nm env) ?ps (nm w) = (Inr out, v)" by blast
  let ?relay = "\<lambda>outcome. io_case (zoom relay (\<lambda>v w. w\<lparr>relay := v\<rparr>) relay_error
      (reconcile (relay_out env) (relay_probes env) (if errors outcome = [] then c else default_network)))
    (\<lambda>e. io_return (fail_with ''dhcp-relay'' e outcome)) (\<lambda>_. io_return outcome) :: NmApplyOutcome net_io"
  have "\<exists>out' w3. ?relay out x = (Inr out', w3) \<and> nm w3 = nm x" for x
    by (auto simp: io_defs zoom_def split: prod.split sum.split)
  from this [of "w2\<lparr>nm := v\<rparr>"] obtain out' w3 where r: "?relay out (w2\<lparr>nm := v\<rparr>) = (Inr out', w3)" "nm w3 = v" by auto
  obtain w4 where b: "rebind_daemons env w3 = (Inr (), w4)" "nm w4 = v" using rebind_ok [of env w3] r(2) by auto
  have "apply_config env c mgmt w =
      io_bind (?relay out) (\<lambda>outcome. io_bind (rebind_daemons env) (\<lambda>_.
        io_bind (io_modify (\<lambda>w. w\<lparr>tls_reapplied := Suc (tls_reapplied w)\<rparr>)) (\<lambda>_. io_return outcome))) (w2\<lparr>nm := v\<rparr>)"
    using assms(1) s a
    by (simp add: apply_config_def enumerate_interfaces_def io_bind_def [of "io_get _"] io_get_def io_bind_def [of "fs env id"]
        io_bind_def [of "sync_ib_unmanaged_conf _ _ _"] io_bind_def [of "zoom _ _ _ _"] fs_def zoom_def Let_def env_ok_def
        desired_profiles_def live_ctx_def)
  then show ?thesis
    using r b a by (simp add: io_bind_def io_modify_def io_return_def)
qed

lemma rollback_ok:
  assumes "env_ok env" "steady env live" "revert w = Parsed p" "accepted p" "distinct (map fst (nm_conns (nm w)))"
  shows "\<exists>w'. perform_rollback env w = (Inr (), w') \<and> disk w' = Parsed p \<and> revert w' = Absent \<and>
    txns w' = txns w \<and>
    nm w' = snd (apply_profiles (env_nm env) (desired_profiles env p None live) (nm w))"
proof -
  let ?w0 = "w\<lparr>clock := Suc (clock w)\<rparr>"
  obtain w1 where s1: "persist_config env p ?w0 = (Inr (), w1)"
    using persist_ok [of env p ?w0] assms(1,4) by (auto simp: env_ok_def accepted_def)
  have n1: "nm w1 = nm w" using keepsD [OF keeps_persist_nm [of "nm w" env p] _ s1] by simp
  obtain out w2 where s2: "apply_config env p None w1 = (Inr out, w2)"
    "nm w2 = snd (apply_profiles (env_nm env) (desired_profiles env p None live) (nm w1))"
    using apply_config_ok [OF assms(1), of w1 p None] assms(2,5) n1 by (auto simp: steady_def)
  have "perform_rollback env w = (Inr (), w2\<lparr>revert := Absent, clock := Suc (clock w2)\<rparr>)"
    using assms(1,3) s1 s2(1) by (simp add: perform_rollback_def io_defs fs_def env_ok_def)
  moreover have "disk w2 = Parsed p" "txns w2 = txns w"
    using persist_core [OF s1] apply_core [OF s2(1)] by (simp_all add: core_eq)
  ultimately show ?thesis using s2(2) n1 by simp
qed

lemma desired_distinct:
  assumes "accepted c"
  shows "distinct (map nm_id (desired_profiles env c mgmt live))"
proof -
  have "distinct (map link_name (links (to_layered c)))"
    using assms by (simp add: accepted_def layered_ok_def)
  then have "distinct (map nm_id (to_nm_profiles_with_macs u (to_layered c) ctx))" for u ctx
    by (simp add: to_nm_profiles_map comp_def distinct_map inj_on_def)
  then show ?thesis
    by (simp add: desired_profiles_def retain_live_physical_profiles_def distinct_map_filter)
qed

lemma update_opens:
  assumes "update env req mgmt w = (Inr resp, w')" "resp_txn_id resp = Some i"
  shows "revert w' = Parsed (read_config env w) \<and> (\<exists>t. txns w' = [(i, t)])"
  using update_core [OF assms(1)] assms(2) by auto

section \<open>Properties\<close>

text \<open>
  C4. In every execution of the network service, whatever calls fail, the stored configuration
  and the rollback snapshot are configurations the validator accepts, at most one transaction
  is pending, and a pending transaction always has its snapshot on disk.
\<close>
theorem network_invariant:
  "net_inv w \<Longrightarrow> net_inv (run_steps net_step w es)"
  by (rule net.run_inv)

text \<open>
  C2. The service refines the confirm-or-rollback protocol: abstracting each world to the
  configuration in force and the phase of the transaction, every execution, with any failures, is
  an execution of the protocol with the same events. So an update is refused or starts from an idle
  phase and opens the transaction it answers with, over the configuration it replaced; a
  confirmation answers success only for the transaction that is awaiting it and closes that one; the
  timer of a transaction restores its previous configuration or leaves it failed with the snapshot;
  a restart restores the previous configuration or keeps the snapshot; and nothing else moves the
  phase or the configuration.
\<close>
theorem network_refines_protocol:
  "net_inv w \<Longrightarrow> txn_trace (txn_abs w) (net_trace w es) (txn_abs (run_steps net_step w es))"
  by (rule txn_run)

text \<open>
  C1. A change nobody confirms does not stay: from a world with the snapshot \<open>p\<close>, in every
  execution without a confirmation in which the look at the snapshot file does not fail, with any
  other failures, engine restarts and further update attempts, either the snapshot is still there
  or at some point exactly \<open>p\<close> was in force with nothing pending.
\<close>
theorem unconfirmed_change_does_not_stay:
  assumes "net_inv w" "revert w = Parsed p" "\<forall>e\<in>set es. stat_out (fst e) = None \<and> (\<forall>i. snd e \<noteq> Confirm i)"
  shows "revert (run_steps net_step w es) = Parsed p \<or>
    (\<exists>k\<le>length es. txn_abs (run_steps net_step w (take k es)) = (p, Idle))"
  by (rule snapshot_run [OF assms])

text \<open>
  C5. After a confirmation the confirmed configuration stays: no timer, restart, startup pass
  or repeated confirmation changes the stored configuration, and nothing is pending.
\<close>
theorem confirmed_change_stays:
  assumes "net_inv w" "confirm env i w = (Inr (), w')"
    and "\<forall>e\<in>set es. \<forall>req mgmt. snd e \<noteq> Update req mgmt"
  shows "disk (run_steps net_step w' es) = disk w \<and> phase_of (run_steps net_step w' es) = Idle"
proof -
  obtain t where t: "map_of (txns w) i = Some t" "txn_cancel t"
    using assms(2) by (cases "map_of (txns w) i") (auto simp: confirm_def io_defs split: if_splits)
  note tx = inv_single_txn [OF assms(1) t(1)]
  then have "disk w' = disk w" "revert w' = Absent" "txns w' = []"
    using assms(2) t by (auto simp: confirm_def io_defs fs_def split: if_splits option.splits)
  with idle_run [of w' es] assms(3) show ?thesis
    by (simp add: core_eq phase_of_def)
qed

text \<open>
  C3. An unconfirmed change is undone when its window has passed: after an update that read the
  stored configuration and opened a transaction, a timer that meets no failure restores the
  configuration that was in force before the update, closes the transaction and removes the
  snapshot. For the interfaces the system reports throughout the rollback, NetworkManager then holds
  every profile of the restored configuration but those of physical devices that are absent.
\<close>
theorem timeout_restores_previous:
  assumes "net_inv w" "update env req mgmt w = (Inr resp, w1)" "resp_txn_id resp = Some i" "read_out env = None"
    and "env_ok env'" "steady env' live" "keeps_ids (env_nm env')" "fresh_paths (env_nm env') (nm_conns (nm w1))"
    and "distinct (map fst (nm_conns (nm w1)))"
  shows "\<exists>w2. rollback_timer env' i w1 = (Inr (), w2) \<and>
    disk w2 = Parsed (in_force w) \<and> revert w2 = Absent \<and> txns w2 = [] \<and>
    (\<forall>d\<in>set (to_nm_profiles_with_macs (uuid5 env') (to_layered (in_force w)) (live_ctx live None)).
       nm_conn_type d \<notin> {Ethernet, Infiniband} \<or> nm_interface_name d \<in> lv_name ` set live \<longrightarrow>
       held (env_nm env') (nm_conns (nm w2)) d)"
proof -
  have st: "revert w1 = Parsed (in_force w)" "\<exists>t. txns w1 = [(i, t)]"
    using update_opens [OF assms(2,3)] assms(4) by (auto simp: read_config_def)
  then obtain t where t: "txns w1 = [(i, t)]" by blast
  let ?w1 = "w1\<lparr>txns := [(i, t\<lparr>txn_cancel := False\<rparr>)]\<rparr>"
  have acc: "accepted (in_force w)" by (rule load_accepted [OF assms(1)])
  obtain w2 where r: "perform_rollback env' ?w1 = (Inr (), w2)" "disk w2 = Parsed (in_force w)"
    "revert w2 = Absent" "txns w2 = txns ?w1"
    "nm w2 = snd (apply_profiles (env_nm env') (desired_profiles env' (in_force w) None live) (nm w1))"
    using rollback_ok [OF assms(5,6), of ?w1 "in_force w"] st(1) acc assms(9) by auto
  have ok: "all_ok (env_nm env')" using assms(5) by (simp add: env_ok_def)
  have "\<forall>d\<in>set (desired_profiles env' (in_force w) None live). held (env_nm env') (nm_conns (nm w2)) d"
    using apply_holds [OF ok assms(7,8,9) desired_distinct [OF acc, of env' None live]] r(5)
    by auto
  moreover have "rollback_timer env' i w1 = (Inr (), w2\<lparr>txns := []\<rparr>)"
    using t r(1,4) by (simp add: rollback_timer_def io_defs)
  ultimately show ?thesis
    using r(2,3) by (intro exI [of _ "w2\<lparr>txns := []\<rparr>"]) (auto simp: desired_profiles_def retain_live_physical_profiles_def)
qed

text \<open>
  C28. An update that fails after writing its snapshot locks the service out of itself: no
  transaction exists that could be confirmed or rolled back, and every later update that can look
  at the snapshot file is refused because of it, whatever it asks for, until the engine is restarted.
\<close>
theorem failed_update_blocks_updates:
  assumes "update env req mgmt w = (Inl e, w')" "revert w = Absent" "revert w' \<noteq> Absent" "stat_out env' = None"
  shows "txns w' = [] \<and> fst (update env' req' mgmt' w') = Inl SnapshotPending \<and>
    snd (update env' req' mgmt' w') = w' \<and> fst (confirm env' i w') = Inl (UnknownTxn i)"
proof -
  have "core w' \<noteq> core w" using assms(2,3) by (auto simp: core_eq)
  with update_core [OF assms(1)] assms(3) have "txns w' = []" by auto
  with assms(3,4) show ?thesis by (simp add: update_def snapshot_seen_def confirm_def io_defs)
qed

section \<open>Witnesses\<close>

definition ex_eth0 :: InterfaceConfig where
  "ex_eth0 = \<lparr>if_name = ''eth0'', if_enabled = True,
     if_ipv4 = \<lparr>ip_method = Dhcp, ip_addresses = [], ip_gateway = None\<rparr>, if_ipv6 = default_ip,
     if_mtu = None, if_sriov_num_vfs = None, if_vfs = []\<rparr>"

definition ex_before :: NetworkConfig where
  "ex_before = default_network\<lparr>interfaces := [ex_eth0]\<rparr>"

definition ex_after :: NetworkConfig where
  "ex_after = ex_before\<lparr>dns := [''9.9.9.9'']\<rparr>"

definition ex_cyclic :: NetworkConfig where
  "ex_cyclic = ex_before\<lparr>bridges := [\<lparr>bridge_name = ''br0'', bridge_members = [''br0''],
     bridge_ipv4 = default_ip, bridge_ipv6 = default_ip, bridge_mtu = None, bridge_stp = False,
     bridge_forward_delay_s = None, bridge_inherit_member_mac = True, bridge_dhcp_relay = None\<rparr>]\<rparr>"

definition ex_nm_env :: "string \<Rightarrow> nm_env" where
  "ex_nm_env pre = \<lparr>nm_out = (\<lambda>_. None), nm_path = (\<lambda>n. pre @ replicate n CHR ''x''),
     nm_store = id, nm_debug = (\<lambda>v. case v of VStr s \<Rightarrow> s | VBool b \<Rightarrow> show_bool b | _ \<Rightarrow> [])\<rparr>"

definition ex_env :: "string \<Rightarrow> net_env" where
  "ex_env pre = \<lparr>fs_out = (\<lambda>_. None), stat_out = None, read_out = None, unit_active = (\<lambda>_ u. u = ''avahi-daemon.service''), env_nm = ex_nm_env pre, relay_out = (\<lambda>_. None), relay_probes = example_probes,
     live_at = (\<lambda>_. [\<lparr>lv_name = ''eth0'', lv_mac = ''02:00:00:00:00:01'', lv_kind = ''physical'',
                      lv_sriov_total_vfs = None\<rparr>]),
     topology = \<lparr>addrs_v4 = Map.empty, addrs_v6 = Map.empty, default_via_v4 = Map.empty,
                 default_via_v6 = Map.empty, dhcp_managed_v4 = []\<rparr>,
     uuid5 = id, unix_now = 1000\<rparr>"

definition ex_world :: net_world where
  "ex_world = \<lparr>disk = Parsed ex_before, disk_v2 = None, history = [], previews = [], revert = Absent,
     ib_conf = None, txns = [], txn_counter = 0,
     nm = \<lparr>nm_conns = [], nm_devices = [(''d0'', Some ''eth0'')], nm_applied = [], nm_calls = 0\<rparr>,
     relay = \<lparr>conf_file = None, policy_file = None, chain_rules = [], daemon = False, calls = 0\<rparr>,
     restarted = [], tls_reapplied = 0, clock = 0\<rparr>"

definition ex_req :: "NetworkConfig \<Rightarrow> UpdateRequest" where
  "ex_req c = \<lparr>req_config = c, req_confirm_within = Some 60\<rparr>"

definition ex_resp :: UpdateResponse where
  "ex_resp = \<lparr>resp_txn_id = Some ''3e8-0'', resp_revert_at = Some 1060, resp_risk = Some ExplicitConfirm,
     resp_errors = []\<rparr>"

definition ex_world1 :: net_world where
  "ex_world1 = snd (update (ex_env ''a'') (ex_req ex_after) (Some ''eth0'') ex_world)"

lemma ex_before_accepted: "accepted ex_before"
  unfolding accepted_def validate_iff [symmetric] by code_simp

lemma ex_world_inv: "net_inv ex_world"
  by (simp add: net_inv_def ex_world_def stored_ok_def ex_before_accepted)

lemma ex_update: "update (ex_env ''a'') (ex_req ex_after) (Some ''eth0'') ex_world = (Inr ex_resp, ex_world1)"
proof -
  have "fst (update (ex_env ''a'') (ex_req ex_after) (Some ''eth0'') ex_world) = Inr ex_resp" by code_simp
  then show ?thesis by (simp add: ex_world1_def prod_eq_iff)
qed

definition isl_update :: "net_event \<Rightarrow> bool" where
  "isl_update ev = (case ev of Updated _ _ (Inl _) \<Rightarrow> True | _ \<Rightarrow> False)"

definition ex_run :: "(net_env \<times> net_op) list" where
  "ex_run = [(ex_env ''b'', Update (ex_req ex_cyclic) None), (ex_env ''b'', Restart)]"

theorem network_invariant_witness:
  "net_inv ex_world \<and> net_inv (run_steps net_step ex_world ex_run)"
  using network_invariant [OF ex_world_inv] ex_world_inv by blast

theorem network_refines_protocol_witness:
  "txn_trace (ex_before, Idle) (net_trace ex_world ex_run) (txn_abs (run_steps net_step ex_world ex_run)) \<and>
   map isl_update (net_trace ex_world ex_run) = [True, False]"
proof -
  have "map isl_update (net_trace ex_world ex_run) = [True, False]" by code_simp
  then show ?thesis
    using network_refines_protocol [OF ex_world_inv, of ex_run]
    by (simp add: txn_abs_def in_force_def phase_of_def ex_world_def)
qed

lemma ex_world1_inv: "net_inv ex_world1"
  using update_refines [OF ex_world_inv ex_update] by (simp add: refines_def)

lemma ex_world1_revert: "revert ex_world1 = Parsed ex_before"
  using update_opens [OF ex_update, of "''3e8-0''"] by (simp add: ex_resp_def read_config_def in_force_def ex_env_def ex_world_def)

theorem unconfirmed_change_does_not_stay_witness:
  "revert (run_steps net_step ex_world1 ex_run) = Parsed ex_before \<or>
     (\<exists>k\<le>length ex_run. txn_abs (run_steps net_step ex_world1 (take k ex_run)) = (ex_before, Idle))"
  by (rule unconfirmed_change_does_not_stay [OF ex_world1_inv ex_world1_revert]) (simp add: ex_run_def ex_env_def)

theorem confirmed_change_stays_witness:
  "phase_of (run_steps net_step (snd (confirm (ex_env ''b'') ''3e8-0'' ex_world1)) [(ex_env ''b'', Restart)]) = Idle"
proof -
  have "fst (confirm (ex_env ''b'') ''3e8-0'' ex_world1) = Inr ()" unfolding ex_world1_def by code_simp
  then have c: "confirm (ex_env ''b'') ''3e8-0'' ex_world1 = (Inr (), snd (confirm (ex_env ''b'') ''3e8-0'' ex_world1))"
    by (simp add: prod_eq_iff)
  from confirmed_change_stays [OF ex_world1_inv c, of "[(ex_env ''b'', Restart)]"] show ?thesis by simp
qed

definition ex_live :: "LiveInterface list" where
  "ex_live = [\<lparr>lv_name = ''eth0'', lv_mac = ''02:00:00:00:00:01'', lv_kind = ''physical'', lv_sriov_total_vfs = None\<rparr>]"

lemma ex_eth0_profile:
  "map (\<lambda>d. (nm_id d, nm_interface_name d)) (to_nm_profiles_with_macs id (to_layered ex_before) (live_ctx ex_live None)) =
     [(''nasty-eth0'', ''eth0'')]"
  by code_simp

theorem timeout_restores_previous_witness:
  "\<exists>w2. rollback_timer (ex_env ''b'') ''3e8-0'' ex_world1 = (Inr (), w2) \<and> disk w2 = Parsed ex_before \<and>
     revert w2 = Absent \<and> txns w2 = [] \<and>
     (\<exists>p s. (p, s) \<in> set (nm_conns (nm w2)) \<and> own_id s = Some ''nasty-eth0'')"
proof -
  have i: "resp_txn_id ex_resp = Some ''3e8-0''" by (simp add: ex_resp_def)
  have rd: "read_out (ex_env ''a'') = None" by (simp add: ex_env_def)
  have ok: "env_ok (ex_env ''b'')" by (simp add: env_ok_def ex_env_def all_ok_def ex_nm_env_def)
  have st: "steady (ex_env ''b'') ex_live" by (simp add: steady_def ex_env_def ex_live_def)
  have k: "keeps_ids (env_nm (ex_env ''b''))" by (simp add: keeps_ids_def ex_env_def ex_nm_env_def)
  have p: "map fst (nm_conns (nm ex_world1)) = [''ax'']" unfolding ex_world1_def by code_simp
  then have "fst ` set (nm_conns (nm ex_world1)) = {''ax''}" by (metis list.set(1,2) list.set_map)
  then have f: "fresh_paths (env_nm (ex_env ''b'')) (nm_conns (nm ex_world1))"
    by (simp add: fresh_paths_def ex_env_def ex_nm_env_def)
  have d: "distinct (map fst (nm_conns (nm ex_world1)))" using p by simp
  have b: "in_force ex_world = ex_before" by (simp add: in_force_def ex_world_def)
  obtain d where d0: "to_nm_profiles_with_macs id (to_layered ex_before) (live_ctx ex_live None) = [d]"
      "nm_id d = ''nasty-eth0''" "nm_interface_name d = ''eth0''"
    using ex_eth0_profile by auto
  from timeout_restores_previous [OF ex_world_inv ex_update i rd ok st k f d] d0 b
  show ?thesis by (fastforce simp: ex_env_def ex_live_def held_def)
qed

theorem failed_update_blocks_updates_witness:
  "fst (update (ex_env ''a'') (ex_req ex_cyclic) None ex_world) = Inl (Rejected (EnslavesItself ''br0'')) \<and>
   fst (update (ex_env ''b'') (ex_req ex_after) None (snd (update (ex_env ''a'') (ex_req ex_cyclic) None ex_world))) =
     Inl SnapshotPending"
proof -
  let ?u = "update (ex_env ''a'') (ex_req ex_cyclic) None ex_world"
  have e: "fst ?u = Inl (Rejected (EnslavesItself ''br0''))" by code_simp
  have r: "revert (snd ?u) = Parsed ex_before" by code_simp
  have u: "?u = (Inl (Rejected (EnslavesItself ''br0'')), snd ?u)" using e by (simp add: prod_eq_iff)
  have a: "revert ex_world = Absent" by (simp add: ex_world_def)
  have s: "stat_out (ex_env ''b'') = None" by (simp add: ex_env_def)
  from failed_update_blocks_updates [OF u a _ s] r e show ?thesis by simp
qed

end
