(* ===== verification/Protocols.thy ===== *)
theory Protocols
  imports Prelude
begin

text \<open>
  The protocols the engine can switch on and off (\<open>engine/nasty-system/src/protocol.rs\<close>): the
  enumeration with its names and the persisted switch of each. The names are the keys of the
  RPC interface and of the firewall's rules and restrictions.
\<close>

datatype Protocol = Nfs | Smb | Iscsi | Nvmeof | Nut | Ssh | Avahi | Smart | Watchdog | RestServer

definition all_protocols :: "Protocol list" where
  "all_protocols = [Nfs, Smb, Iscsi, Nvmeof, Nut, Ssh, Avahi, Smart, Watchdog, RestServer]"

fun is_system_service :: "Protocol \<Rightarrow> bool" where
  "is_system_service Nfs = False"
| "is_system_service Smb = False"
| "is_system_service Iscsi = False"
| "is_system_service Nvmeof = False"
| "is_system_service _ = True"

fun proto_name :: "Protocol \<Rightarrow> string" where
  "proto_name Nfs = ''nfs''"
| "proto_name Smb = ''smb''"
| "proto_name Iscsi = ''iscsi''"
| "proto_name Nvmeof = ''nvmeof''"
| "proto_name Nut = ''nut''"
| "proto_name Ssh = ''ssh''"
| "proto_name Avahi = ''avahi''"
| "proto_name Smart = ''smart''"
| "proto_name Watchdog = ''watchdog''"
| "proto_name RestServer = ''rest-server''"

definition from_name :: "string \<Rightarrow> Protocol option" where
  "from_name n =
     (if n = ''nfs'' then Some Nfs
      else if n = ''smb'' then Some Smb
      else if n = ''iscsi'' then Some Iscsi
      else if n = ''nvmeof'' then Some Nvmeof
      else if n = ''nut'' then Some Nut
      else if n = ''ssh'' then Some Ssh
      else if n = ''avahi'' then Some Avahi
      else if n = ''smart'' then Some Smart
      else if n = ''watchdog'' then Some Watchdog
      else if n = ''rest-server'' then Some RestServer
      else None)"

section \<open>Names\<close>

lemma from_name_name [simp]: "from_name (proto_name p) = Some p"
  by (cases p) (simp_all add: from_name_def)

lemma from_name_Some: "from_name n = Some p \<Longrightarrow> n = proto_name p"
  by (auto simp: from_name_def split: if_splits)

lemma proto_name_inj [simp]: "proto_name p = proto_name q \<longleftrightarrow> p = q"
  by (metis from_name_name option.inject)

lemma set_all_protocols [simp]: "p \<in> set all_protocols"
  by (cases p) (simp_all add: all_protocols_def)

lemma distinct_all_protocols [simp]: "distinct all_protocols"
  by (simp add: all_protocols_def)

lemma distinct_names [simp]: "distinct (map proto_name all_protocols)"
  by (simp add: distinct_map inj_on_def)

end
