(* ===== verification/Firewall_Rules.thy ===== *)
theory Firewall_Rules
  imports Protocols Network_Types Net_Std "HOL-Library.Char_ord" "HOL-Library.List_Lexorder"
    "HOL-Library.Product_Lexorder"
begin

text \<open>
  The firewall's rules (\<open>engine/nasty-system/src/firewall.rs\<close>, everything that does no I/O): the
  ports of each service, restrictions by source and interface, custom rules and their checks,
  and the text of the nftables batch. The theory \<open>Firewall\<close> has the service that applies it.

  \<open>FirewallState\<close> has one field, the rules, and is modelled by it. A restriction is the list of
  allowed sources or interfaces of a service; the two hash maps of \<open>FirewallRestrictions\<close> are
  association lists.
\<close>

section \<open>Types\<close>

datatype Transport = Tcp | Udp

record PortSpec =
  ps_port :: u16
  ps_to :: "u16 option"
  ps_transport :: Transport
  ps_source :: "string option"
  ps_iface :: "string option"

record FirewallRule =
  fr_service :: string
  fr_ports :: "PortSpec list"
  fr_active :: bool

type_synonym FirewallState = "FirewallRule list"

record FirewallRestrictions =
  res_services :: "(string \<times> string list) list"
  res_interfaces :: "(string \<times> string list) list"

record CustomRule =
  cr_id :: string
  cr_label :: string
  cr_transport :: Transport
  cr_from :: u16
  cr_to :: u16
  cr_source :: "string option"
  cr_iface :: "string option"
  cr_enabled :: bool

record CustomRuleInput =
  ci_label :: string
  ci_transport :: Transport
  ci_from :: u16
  ci_to :: u16
  ci_source :: "string option"
  ci_iface :: "string option"
  ci_enabled :: bool

record PublishedAppPort =
  pa_app :: string
  pa_host_port :: u16
  pa_container_port :: u16
  pa_transport :: string

datatype RuleError =
    PortZero
  | RangeReversed
  | LabelMissing
  | LabelTooLong
  | LabelControl
  | BadSource string
  | BadIface string

section \<open>Ports\<close>

definition tcp :: "u16 \<Rightarrow> PortSpec" where
  "tcp p = \<lparr>ps_port = p, ps_to = None, ps_transport = Tcp, ps_source = None, ps_iface = None\<rparr>"

definition udp :: "u16 \<Rightarrow> PortSpec" where
  "udp p = \<lparr>ps_port = p, ps_to = None, ps_transport = Udp, ps_source = None, ps_iface = None\<rparr>"

definition tcp_range :: "u16 \<Rightarrow> u16 \<Rightarrow> PortSpec" where
  "tcp_range a b = \<lparr>ps_port = a, ps_to = Some b, ps_transport = Tcp, ps_source = None, ps_iface = None\<rparr>"

fun ports_for_protocol :: "Protocol \<Rightarrow> PortSpec list" where
  "ports_for_protocol Nfs = [tcp 2049]"
| "ports_for_protocol Smb = [tcp 445, tcp 139, udp 3702, tcp 5357]"
| "ports_for_protocol Iscsi = [tcp 3260]"
| "ports_for_protocol Nvmeof = [tcp 4420]"
| "ports_for_protocol Nut = [tcp 3493]"
| "ports_for_protocol Ssh = [tcp 22]"
| "ports_for_protocol Avahi = [udp 5353]"
| "ports_for_protocol Smart = []"
| "ports_for_protocol Watchdog = []"
| "ports_for_protocol RestServer = [tcp 8000]"

definition webui_ports :: "u16 \<Rightarrow> u16 option \<Rightarrow> PortSpec list" where
  "webui_ports https http = map tcp ((case http of None \<Rightarrow> [] | Some p \<Rightarrow> [p]) @ [https])"

definition rdma_ports :: "PortSpec list" where
  "rdma_ports = [udp 4791, tcp 20049]"

definition dc_ports :: "PortSpec list" where
  "dc_ports =
     concat (map (\<lambda>p. [tcp p, udp p]) [53, 88, 389, 464]) @
     map tcp [135, 139, 445, 636, 3268, 3269] @
     map udp [137, 138] @
     [tcp_range 49152 65535]"

section \<open>Restrictions\<close>

definition strip_iface_refs :: "string list \<Rightarrow> FirewallRestrictions \<Rightarrow> FirewallRestrictions \<times> bool" where
  "strip_iface_refs removed r =
     (if removed = [] \<or> res_interfaces r = [] then (r, False)
      else let kept = map (\<lambda>(s, fs). (s, filter (\<lambda>f. f \<notin> set removed) fs)) (res_interfaces r)
           in (r\<lparr>res_interfaces := filter (\<lambda>(s, fs). fs \<noteq> []) kept\<rparr>,
               list_ex (\<lambda>(s, fs). length (filter (\<lambda>f. f \<notin> set removed) fs) \<noteq> length fs) (res_interfaces r)))"

definition sources_of :: "FirewallRestrictions \<Rightarrow> string \<Rightarrow> string list" where
  "sources_of r s = (case map_of (res_services r) s of None \<Rightarrow> [] | Some xs \<Rightarrow> xs)"

definition ifaces_of :: "FirewallRestrictions \<Rightarrow> string \<Rightarrow> string list" where
  "ifaces_of r s = (case map_of (res_interfaces r) s of None \<Rightarrow> [] | Some xs \<Rightarrow> xs)"

definition apply_restrictions :: "PortSpec list \<Rightarrow> string list \<Rightarrow> string list \<Rightarrow> PortSpec list" where
  "apply_restrictions ports sources ifaces =
     (if sources = [] \<and> ifaces = [] then ports
      else concat (map (\<lambda>p.
        if sources \<noteq> [] \<and> ifaces \<noteq> [] then
          concat (map (\<lambda>s. map (\<lambda>f. p\<lparr>ps_source := Some s, ps_iface := Some f\<rparr>) ifaces) sources)
        else if sources \<noteq> [] then map (\<lambda>s. p\<lparr>ps_source := Some s, ps_iface := None\<rparr>) sources
        else map (\<lambda>f. p\<lparr>ps_source := None, ps_iface := Some f\<rparr>) ifaces) ports))"

definition restrict :: "FirewallRestrictions \<Rightarrow> string \<Rightarrow> PortSpec list \<Rightarrow> PortSpec list" where
  "restrict r service ports = apply_restrictions ports (sources_of r service) (ifaces_of r service)"

definition replace_rule_ports ::
  "FirewallState \<Rightarrow> FirewallRestrictions \<Rightarrow> string \<Rightarrow> PortSpec list \<Rightarrow> FirewallState \<times> bool" where
  "replace_rule_ports st r service ports =
     (let ps = restrict r service ports
      in case find (\<lambda>x. fr_service x = service) st of
           Some rule \<Rightarrow>
             if fr_ports rule = ps then (st, False)
             else (update_first (\<lambda>x. fr_service x = service) (\<lambda>x. x\<lparr>fr_ports := ps\<rparr>) st, True)
         | None \<Rightarrow> (st @ [\<lparr>fr_service = service, fr_ports = ps, fr_active = False\<rparr>], True))"

text \<open>The ports of a rule without their restriction, each once.\<close>

fun base_ports :: "PortSpec list \<Rightarrow> PortSpec list \<Rightarrow> PortSpec list" where
  "base_ports acc [] = acc"
| "base_ports acc (p # ps) =
     (let q = p\<lparr>ps_source := None, ps_iface := None\<rparr>
      in base_ports (if q \<in> set acc then acc else acc @ [q]) ps)"

section \<open>Custom rules\<close>

definition valid_source :: "string \<Rightarrow> bool" where
  "valid_source s =
     (let (addr, prefix) = (case split_once CHR ''/'' s of Some (a, p) \<Rightarrow> (a, Some p) | None \<Rightarrow> (s, None))
      in case parse_ip addr of
           None \<Rightarrow> False
         | Some ip \<Rightarrow>
             (case prefix of
                None \<Rightarrow> True
              | Some p \<Rightarrow>
                  (case parse_uint 255 p of
                     Some bits \<Rightarrow> (case ip of IpV4 _ _ _ _ \<Rightarrow> bits \<le> 32 | IpV6 _ \<Rightarrow> bits \<le> 128)
                   | None \<Rightarrow> False)))"

definition iface_char :: "char \<Rightarrow> bool" where
  "iface_char c \<longleftrightarrow> is_ascii_alphanumeric c \<or> c \<in> set ''._-@''"

definition valid_iface :: "string \<Rightarrow> bool" where
  "valid_iface s \<longleftrightarrow> s \<noteq> [] \<and> length s \<le> 15 \<and> list_all iface_char s"

definition validate_custom_input :: "CustomRuleInput \<Rightarrow> RuleError + unit" where
  "validate_custom_input i =
     res_bind (guard (ci_from i \<noteq> 0) PortZero) (\<lambda>_.
     res_bind (guard (\<not> ci_to i < ci_from i) RangeReversed) (\<lambda>_.
     let label = trim (ci_label i) in
     res_bind (guard (label \<noteq> []) LabelMissing) (\<lambda>_.
     res_bind (guard (\<not> 64 < length label) LabelTooLong) (\<lambda>_.
     res_bind (guard (\<not> has_control (ci_label i)) LabelControl) (\<lambda>_.
     res_bind (case ci_source i of Some s \<Rightarrow> guard (valid_source s) (BadSource s) | None \<Rightarrow> Inr ()) (\<lambda>_.
     case ci_iface i of Some f \<Rightarrow> guard (valid_iface f) (BadIface f) | None \<Rightarrow> Inr ()))))))"

definition port_hi :: "PortSpec \<Rightarrow> u16" where
  "port_hi p = (case ps_to p of Some t \<Rightarrow> t | None \<Rightarrow> ps_port p)"

definition port_conflicts :: "Transport \<Rightarrow> u16 \<Rightarrow> u16 \<Rightarrow> PortSpec \<Rightarrow> bool" where
  "port_conflicts t a b p \<longleftrightarrow> ps_transport p = t \<and> ps_port p \<le> b \<and> a \<le> port_hi p"

definition service_port_conflict :: "FirewallState \<Rightarrow> Transport \<Rightarrow> u16 \<Rightarrow> u16 \<Rightarrow> string option" where
  "service_port_conflict st t a b =
     map_option fr_service (find (\<lambda>r. list_ex (port_conflicts t a b) (fr_ports r)) st)"

definition same_rule :: "CustomRule \<Rightarrow> CustomRuleInput \<Rightarrow> bool" where
  "same_rule r i \<longleftrightarrow>
     cr_transport r = ci_transport i \<and> cr_from r = ci_from i \<and> cr_to r = ci_to i \<and>
     cr_source r = ci_source i \<and> cr_iface r = ci_iface i"

section \<open>The nftables batch\<close>

definition transport_str :: "Transport \<Rightarrow> string" where
  "transport_str t = (case t of Tcp \<Rightarrow> ''tcp'' | Udp \<Rightarrow> ''udp'')"

definition saddr_clause :: "string \<Rightarrow> string" where
  "saddr_clause src =
     (case parse_ip (hd (split_char CHR ''/'' src)) of
        Some (IpV6 _) \<Rightarrow> ''ip6 saddr '' @ src
      | _ \<Rightarrow> ''ip saddr '' @ src)"

definition iface_conds :: "string option \<Rightarrow> string list" where
  "iface_conds f = (case f of None \<Rightarrow> [] | Some n \<Rightarrow> [''iifname '' @ [CHR 0x22] @ n @ [CHR 0x22]])"

definition source_conds :: "string option \<Rightarrow> string list" where
  "source_conds s = (case s of None \<Rightarrow> [] | Some x \<Rightarrow> [saddr_clause x])"

definition show_u16 :: "u16 \<Rightarrow> string" where
  "show_u16 p = show_nat (unat p)"

definition service_line :: "string \<Rightarrow> PortSpec \<Rightarrow> string" where
  "service_line service p =
     ''        '' @
     join '' '' (iface_conds (ps_iface p) @ source_conds (ps_source p) @
       [case ps_to p of
          Some t \<Rightarrow> transport_str (ps_transport p) @ '' dport '' @ show_u16 (ps_port p) @ ''-'' @ show_u16 t
        | None \<Rightarrow> transport_str (ps_transport p) @ '' dport '' @ show_u16 (ps_port p)]) @
     '' accept # '' @ service"

definition service_lines :: "FirewallState \<Rightarrow> string list" where
  "service_lines st = concat (map (\<lambda>r. if fr_active r then map (service_line (fr_service r)) (fr_ports r) else []) st)"

definition custom_line :: "CustomRule \<Rightarrow> string" where
  "custom_line r =
     ''        '' @
     join '' '' (iface_conds (cr_iface r) @ source_conds (cr_source r) @
       [if cr_from r = cr_to r then transport_str (cr_transport r) @ '' dport '' @ show_u16 (cr_from r)
        else transport_str (cr_transport r) @ '' dport '' @ show_u16 (cr_from r) @ ''-'' @ show_u16 (cr_to r)]) @
     '' accept # custom:'' @ cr_id r"

definition ascii_lower :: "char \<Rightarrow> char" where
  "ascii_lower c = (if 65 \<le> byte c \<and> byte c \<le> 90 then char_of (byte c + 32) else c)"

definition eq_ignore_ascii_case :: "string \<Rightarrow> string \<Rightarrow> bool" where
  "eq_ignore_ascii_case a b \<longleftrightarrow> map ascii_lower a = map ascii_lower b"

definition published_lines :: "PublishedAppPort \<Rightarrow> string list" where
  "published_lines p =
     (if eq_ignore_ascii_case (pa_transport p) ''tcp'' \<or> eq_ignore_ascii_case (pa_transport p) ''udp'' then
        [''        ct direction original ct status dnat meta l4proto '' @
         (if eq_ignore_ascii_case (pa_transport p) ''tcp'' then ''tcp'' else ''udp'') @
         '' ct original proto-dst '' @ show_u16 (pa_host_port p) @ '' accept # app-published'']
      else [])"

definition custom_forward_line :: "CustomRule \<Rightarrow> string" where
  "custom_forward_line r =
     ''        '' @
     join '' '' ([''ct direction original'', ''ct status dnat''] @
       iface_conds (cr_iface r) @ source_conds (cr_source r) @
       [''meta l4proto '' @ transport_str (cr_transport r)] @
       [if cr_from r = cr_to r then ''ct original proto-dst '' @ show_u16 (cr_from r)
        else ''ct original proto-dst '' @ show_u16 (cr_from r) @ ''-'' @ show_u16 (cr_to r)]) @
     '' accept # custom:'' @ cr_id r"

definition input_head :: "string list" where
  "input_head =
     [''table inet nasty {'',
      ''    chain dhcp_relay { }'',
      ''    chain input {'',
      ''        type filter hook input priority 0; policy drop;'',
      ''        ct state established,related accept'',
      ''        ct state invalid drop'',
      ''        iif lo accept'',
      ''        # ICMP/ICMPv6 '' @ [CHR 0xE2, CHR 0x80, CHR 0x94] @ '' always allow'',
      ''        ip protocol icmp accept'',
      ''        ip6 nexthdr icmpv6 accept'',
      ''        # DHCPv6 client'',
      ''        udp dport 546 accept'',
      ''        jump dhcp_relay'']"

definition forward_head :: "string list" where
  "forward_head =
     [''    }'',
      ''    chain forward {'',
      ''        type filter hook forward priority -10; policy accept;'',
      ''        # Explicitly allowed Docker-published host ports'']"

definition forward_tail :: "string list" where
  "forward_tail = [''        ct direction original ct status dnat drop'', ''    }'', ''}'']"

definition ruleset_lines :: "FirewallState \<Rightarrow> CustomRule list \<Rightarrow> PublishedAppPort list \<Rightarrow> string list" where
  "ruleset_lines st custom published =
     input_head @ service_lines st @ map custom_line (filter cr_enabled custom) @
     forward_head @ concat (map published_lines published) @
     map custom_forward_line (filter cr_enabled custom) @ forward_tail"

text \<open>Text as lines, each ended by a newline.\<close>

definition text_of_lines :: "string list \<Rightarrow> string" where
  "text_of_lines ls = concat (map (\<lambda>l. l @ [CHR 0x0A]) ls)"

definition render_ruleset_with_published ::
  "FirewallState \<Rightarrow> CustomRule list \<Rightarrow> PublishedAppPort list \<Rightarrow> string" where
  "render_ruleset_with_published st custom published = text_of_lines (ruleset_lines st custom published)"

definition render_transaction ::
  "FirewallState \<Rightarrow> CustomRule list \<Rightarrow> PublishedAppPort list \<Rightarrow> string" where
  "render_transaction st custom published =
     text_of_lines [''destroy table inet nasty''] @ render_ruleset_with_published st custom published"

section \<open>What a restriction lets through\<close>

definition restricted :: "string list \<Rightarrow> string list \<Rightarrow> PortSpec \<Rightarrow> bool" where
  "restricted sources ifaces p \<longleftrightarrow>
     (sources \<noteq> [] \<longrightarrow> ps_source p \<in> Some ` set sources) \<and> (ifaces \<noteq> [] \<longrightarrow> ps_iface p \<in> Some ` set ifaces)"

definition plain :: "PortSpec \<Rightarrow> bool" where
  "plain p \<longleftrightarrow> ps_source p = None \<and> ps_iface p = None"

lemma apply_restrictions_restricted:
  "p \<in> set (apply_restrictions ports sources ifaces) \<Longrightarrow> restricted sources ifaces p"
  by (auto simp: apply_restrictions_def restricted_def split: if_splits)

lemma restrict_restricted:
  "p \<in> set (restrict r s ports) \<Longrightarrow> restricted (sources_of r s) (ifaces_of r s) p"
  unfolding restrict_def by (rule apply_restrictions_restricted)

lemma unrestricted [simp]: "restricted [] [] p"
  by (simp add: restricted_def)

lemma plain_protocol: "p \<in> set (ports_for_protocol proto) \<Longrightarrow> plain p"
  by (cases proto) (auto simp: plain_def tcp_def udp_def)

lemma plain_services:
  "p \<in> set rdma_ports \<Longrightarrow> plain p" "p \<in> set dc_ports \<Longrightarrow> plain p" "p \<in> set (webui_ports a b) \<Longrightarrow> plain p"
  by (auto simp: rdma_ports_def dc_ports_def webui_ports_def plain_def tcp_def udp_def tcp_range_def split: option.splits)

lemma base_ports_append: "base_ports acc (xs @ ys) = base_ports (base_ports acc xs) ys"
  by (induction xs arbitrary: acc) (simp_all add: Let_def)

lemma base_ports_group:
  "\<forall>p\<in>set ps. p\<lparr>ps_source := None, ps_iface := None\<rparr> = q \<Longrightarrow> ps \<noteq> [] \<Longrightarrow>
     base_ports acc ps = (if q \<in> set acc then acc else acc @ [q])"
proof (induction ps arbitrary: acc)
  case (Cons p ps)
  then show ?case by (cases "ps = []") (simp_all add: Let_def)
qed simp

definition restricted_group :: "string list \<Rightarrow> string list \<Rightarrow> PortSpec \<Rightarrow> PortSpec list" where
  "restricted_group sources ifaces p = apply_restrictions [p] sources ifaces"

lemma apply_restrictions_groups:
  "apply_restrictions ports sources ifaces = concat (map (restricted_group sources ifaces) ports)"
  by (cases sources; cases ifaces) (simp_all add: apply_restrictions_def restricted_group_def [abs_def])

lemma plain_strip: "plain p \<Longrightarrow> p\<lparr>ps_source := None, ps_iface := None\<rparr> = p"
  by (cases p) (simp add: plain_def)

lemma restricted_group_strip:
  "plain p \<Longrightarrow> \<forall>q\<in>set (restricted_group sources ifaces p). q\<lparr>ps_source := None, ps_iface := None\<rparr> = p"
  by (auto simp: restricted_group_def apply_restrictions_def plain_strip)

lemma restricted_group_nonempty: "restricted_group sources ifaces p \<noteq> []"
  by (cases sources; cases ifaces) (simp_all add: restricted_group_def apply_restrictions_def)

text \<open>Restricting ports loses nothing: the ports without the restriction can be read back.\<close>

lemma base_ports_restrictions:
  "\<forall>p\<in>set ports. plain p \<Longrightarrow> distinct (acc @ ports) \<Longrightarrow>
     base_ports acc (apply_restrictions ports sources ifaces) = acc @ ports"
  unfolding apply_restrictions_groups
proof (induction ports arbitrary: acc)
  case (Cons p ps)
  then have p: "plain p" "p \<notin> set acc" by simp_all
  have "base_ports acc (restricted_group sources ifaces p) = acc @ [p]"
    using base_ports_group [OF restricted_group_strip [OF p(1)] restricted_group_nonempty] p(2) by simp
  moreover have "base_ports (acc @ [p]) (concat (map (restricted_group sources ifaces) ps)) = (acc @ [p]) @ ps"
    using Cons.prems by (intro Cons.IH) simp_all
  ultimately show ?case by (simp add: base_ports_append)
qed simp

lemma base_ports_plain: "\<forall>p\<in>set acc. plain p \<Longrightarrow> \<forall>p\<in>set (base_ports acc ps). plain p"
proof (induction ps arbitrary: acc)
  case (Cons p ps)
  have "plain (p\<lparr>ps_source := None, ps_iface := None\<rparr>)" by (simp add: plain_def)
  then show ?case unfolding base_ports.simps Let_def by (intro Cons.IH) (use Cons.prems in simp)
qed simp

lemma base_ports_distinct: "distinct acc \<Longrightarrow> distinct (base_ports acc ps)"
  by (induction ps arbitrary: acc) (simp_all add: Let_def)

section \<open>Port ranges\<close>

definition in_range :: "u16 \<Rightarrow> u16 \<Rightarrow> u16 \<Rightarrow> bool" where
  "in_range a b n \<longleftrightarrow> a \<le> n \<and> n \<le> b"

lemma port_conflicts_iff:
  assumes "a \<le> b" "ps_port p \<le> port_hi p"
  shows "port_conflicts t a b p \<longleftrightarrow>
    ps_transport p = t \<and> (\<exists>n. in_range a b n \<and> in_range (ps_port p) (port_hi p) n)"
proof -
  have "ps_port p \<le> b \<and> a \<le> port_hi p \<longleftrightarrow> (\<exists>n. in_range a b n \<and> in_range (ps_port p) (port_hi p) n)"
  proof
    assume "ps_port p \<le> b \<and> a \<le> port_hi p"
    then have "in_range a b (max a (ps_port p))" "in_range (ps_port p) (port_hi p) (max a (ps_port p))"
      using assms by (auto simp: in_range_def max_def)
    then show "\<exists>n. in_range a b n \<and> in_range (ps_port p) (port_hi p) n" by blast
  qed (auto simp: in_range_def intro: order_trans)
  then show ?thesis by (auto simp: port_conflicts_def)
qed

lemma service_port_conflict_None:
  "service_port_conflict st t a b = None \<longleftrightarrow>
     (\<forall>r\<in>set st. \<forall>p\<in>set (fr_ports r). \<not> port_conflicts t a b p)"
  by (auto simp: service_port_conflict_def find_None_iff list_ex_iff)

section \<open>The batch has the lines it was made of\<close>

definition one_line :: "string \<Rightarrow> bool" where
  "one_line s \<longleftrightarrow> CHR 0x0A \<notin> set s"

lemma split_char_append_sep:
  "c \<notin> set l \<Longrightarrow> split_char c (l @ c # s) = l # split_char c s"
  by (induction l) auto

lemma split_text_of_lines:
  "\<forall>l\<in>set ls. one_line l \<Longrightarrow> split_char (CHR 0x0A) (text_of_lines ls) = ls @ [[]]"
proof (induction ls)
  case (Cons l ls)
  then show ?case
    using split_char_append_sep [of "CHR 0x0A" l "text_of_lines ls"]
    by (simp add: text_of_lines_def one_line_def)
qed (simp add: text_of_lines_def)

lemma one_line_append [simp]: "one_line (a @ b) \<longleftrightarrow> one_line a \<and> one_line b"
  by (auto simp: one_line_def)

lemma one_line_Cons [simp]: "one_line (c # s) \<longleftrightarrow> c \<noteq> CHR 0x0A \<and> one_line s"
  by (auto simp: one_line_def)

lemma one_line_Nil [simp]: "one_line []"
  by (simp add: one_line_def)

lemma one_line_join: "one_line sep \<Longrightarrow> \<forall>x\<in>set xs. one_line x \<Longrightarrow> one_line (join sep xs)"
  by (induction sep xs rule: join.induct) auto

lemma not_digit_newline: "\<not> is_ascii_digit (CHR 0x0A)"
  by code_simp

lemma one_line_show_u16 [simp]: "one_line (show_u16 p)"
  using show_nat_digits [of "unat p"] not_digit_newline by (auto simp: show_u16_def one_line_def list_all_iff)

lemma not_ip_char_newline: "\<not> ip_char (CHR 0x0A)"
  by code_simp

lemma ip_char_one_line: "list_all ip_char s \<Longrightarrow> one_line s"
  using not_ip_char_newline by (auto simp: one_line_def list_all_iff)

lemma parse_uint_one_line: "parse_uint mx s = Some v \<Longrightarrow> one_line s"
  using parse_uint_chars [of mx s v "CHR 0x0A"] not_digit_newline by (auto simp: one_line_def)

lemma valid_source_one_line:
  assumes "valid_source s"
  shows "one_line s"
proof (cases "split_once CHR ''/'' s")
  case None
  with assms obtain ip where "parse_ip s = Some ip"
    by (cases "parse_ip s") (simp_all add: valid_source_def)
  then show ?thesis by (intro ip_char_one_line parse_ip_chars)
next
  case (Some q)
  obtain a p where q: "q = (a, p)" by fastforce
  obtain ip bits where "parse_ip a = Some ip" "parse_uint 255 p = Some bits"
    using assms Some q
    by (cases "parse_ip a"; cases "parse_uint 255 p") (simp_all add: valid_source_def)
  then have "one_line a" "one_line p"
    by (auto intro: ip_char_one_line parse_ip_chars parse_uint_one_line)
  moreover have "s = a @ CHR ''/'' # p" using split_once_Some Some q by blast
  ultimately show ?thesis by simp
qed

lemma not_iface_char: "\<not> iface_char (CHR 0x0A)" "\<not> iface_char (CHR 0x22)"
  by code_simp+

lemma valid_iface_chars: "valid_iface s \<Longrightarrow> one_line s \<and> CHR 0x22 \<notin> set s"
  using not_iface_char by (auto simp: valid_iface_def one_line_def list_all_iff)

lemma transport_str_one_line [simp]: "one_line (transport_str t)"
  by (cases t) (simp_all add: transport_str_def)

definition clean_conds :: "string option \<Rightarrow> string option \<Rightarrow> bool" where
  "clean_conds source iface \<longleftrightarrow> pred_option valid_source source \<and> pred_option valid_iface iface"

definition clean_rule :: "FirewallRule \<Rightarrow> bool" where
  "clean_rule r \<longleftrightarrow>
     one_line (fr_service r) \<and> (\<forall>p\<in>set (fr_ports r). clean_conds (ps_source p) (ps_iface p))"

definition clean_custom :: "CustomRule \<Rightarrow> bool" where
  "clean_custom r \<longleftrightarrow> one_line (cr_id r) \<and> clean_conds (cr_source r) (cr_iface r)"

lemma clean_conds_lines:
  assumes "clean_conds source iface" "l \<in> set (iface_conds iface @ source_conds source)"
  shows "one_line l"
  using assms
  by (cases source; cases iface)
    (auto simp: clean_conds_def iface_conds_def source_conds_def saddr_clause_def
      dest: valid_source_one_line valid_iface_chars split: option.splits IpAddr.splits)

lemma service_line_one_line:
  assumes "clean_conds (ps_source p) (ps_iface p)" "one_line service"
  shows "one_line (service_line service p)"
  unfolding service_line_def using assms(2) clean_conds_lines [OF assms(1)]
  by (auto intro!: one_line_join split: option.splits)

lemma custom_line_one_line: "clean_custom r \<Longrightarrow> one_line (custom_line r)"
  unfolding custom_line_def clean_custom_def
  using clean_conds_lines [of "cr_source r" "cr_iface r"] by (auto intro!: one_line_join)

lemma custom_forward_line_one_line: "clean_custom r \<Longrightarrow> one_line (custom_forward_line r)"
  unfolding custom_forward_line_def clean_custom_def
  using clean_conds_lines [of "cr_source r" "cr_iface r"] by (auto intro!: one_line_join)

lemma published_lines_one_line: "l \<in> set (published_lines p) \<Longrightarrow> one_line l"
  by (auto simp: published_lines_def split: if_splits)

lemma fixed_lines_one_line: "l \<in> set (input_head @ forward_head @ forward_tail) \<Longrightarrow> one_line l"
  by (auto simp: input_head_def forward_head_def forward_tail_def)

lemma ruleset_lines_one_line:
  assumes "list_all clean_rule st" "list_all clean_custom custom" "l \<in> set (ruleset_lines st custom published)"
  shows "one_line l"
proof -
  consider "l \<in> set (input_head @ forward_head @ forward_tail)" | "l \<in> set (service_lines st)"
    | r where "r \<in> set custom" "l = custom_line r \<or> l = custom_forward_line r"
    | p where "l \<in> set (published_lines p)"
    using assms(3) by (auto simp: ruleset_lines_def)
  then show ?thesis
  proof cases
    case 2
    then obtain r p where "r \<in> set st" "p \<in> set (fr_ports r)" "l = service_line (fr_service r) p"
      by (auto simp: service_lines_def split: if_splits)
    with assms(1) show ?thesis
      by (auto simp: list_all_iff clean_rule_def intro!: service_line_one_line)
  next
    case 3
    with assms(2) show ?thesis
      by (auto simp: list_all_iff intro: custom_line_one_line custom_forward_line_one_line)
  qed (auto intro: fixed_lines_one_line published_lines_one_line)
qed

end
