(* ===== verification/Webui_Listeners.thy ===== *)
theory Webui_Listeners
  imports Firewall_Rules
begin

text \<open>
  The persisted state of the WebUI's listeners (\<open>engine/nasty-system/src/webui.rs\<close>, the types and
  \<open>load\<close>): the confirmed ports, the change awaiting confirmation and the last error. The firewall
  reads it for the ports of its WebUI rule; the theory \<open>Webui\<close> has the service that changes it.
\<close>

record ListenerPorts =
  https_port :: u16
  http_port :: "u16 option"

datatype ListenerError =
    PortRange
  | PortsEqual
  | PortReserved
  | DefaultHttps
  | DefaultHttp
  | InvalidState

definition validate_listeners :: "ListenerPorts \<Rightarrow> ListenerError + unit" where
  "validate_listeners l =
     res_bind (guard (\<not> (https_port l = 0 \<or> http_port l = Some 0)) PortRange) (\<lambda>_.
     res_bind (guard (http_port l \<noteq> Some (https_port l)) PortsEqual) (\<lambda>_.
     guard (\<not> list_ex (\<lambda>p. p \<in> {2019, 2137})
       (https_port l # (case http_port l of None \<Rightarrow> [] | Some p \<Rightarrow> [p]))) PortReserved))"

definition listener_ports :: "ListenerPorts \<Rightarrow> PortSpec list" where
  "listener_ports l = webui_ports (https_port l) (http_port l)"

record PendingListeners =
  pl_txn_id :: string
  pl_ports :: ListenerPorts
  pl_deadline :: u64

record ListenerState =
  confirmed :: ListenerPorts
  pending_listeners :: "PendingListeners option"
  last_error :: "string option"

text \<open>The two environment variables with the ports the system was built with.\<close>

record listener_vars =
  https_var :: "string option"
  http_var :: "string option"

definition parse_port :: "string \<Rightarrow> u16 option" where
  "parse_port s = map_option of_nat (parse_uint 65535 s)"

definition default_listeners :: "listener_vars \<Rightarrow> ListenerError + ListenerPorts" where
  "default_listeners vars =
     (case parse_port (case https_var vars of None \<Rightarrow> ''443'' | Some v \<Rightarrow> v) of
        None \<Rightarrow> Inl DefaultHttps
      | Some https \<Rightarrow>
          (let http = (case http_var vars of None \<Rightarrow> ''80'' | Some v \<Rightarrow> v)
           in if http = ''disabled'' then Inr \<lparr>https_port = https, http_port = None\<rparr>
              else case parse_port http of
                     None \<Rightarrow> Inl DefaultHttp
                   | Some p \<Rightarrow> Inr \<lparr>https_port = https, http_port = Some p\<rparr>))"

definition load_listeners :: "listener_vars \<Rightarrow> ListenerState json_file \<Rightarrow> ListenerError + ListenerState" where
  "load_listeners vars f =
     (case f of
        Garbage \<Rightarrow> Inl InvalidState
      | Parsed s \<Rightarrow>
          res_bind (validate_listeners (confirmed s)) (\<lambda>_.
          res_bind (case pending_listeners s of None \<Rightarrow> Inr () | Some p \<Rightarrow> validate_listeners (pl_ports p)) (\<lambda>_.
          Inr s))
      | Absent \<Rightarrow>
          res_bind (default_listeners vars) (\<lambda>c.
          res_bind (validate_listeners c) (\<lambda>_.
          Inr \<lparr>confirmed = c, pending_listeners = None, last_error = None\<rparr>)))"

lemma load_listeners_valid:
  "load_listeners vars f = Inr s \<Longrightarrow> validate_listeners (confirmed s) = Inr ()"
  by (cases f) (auto simp: load_listeners_def res_simps)

lemma load_listeners_pending_valid:
  "load_listeners vars f = Inr s \<Longrightarrow> pending_listeners s = Some p \<Longrightarrow> validate_listeners (pl_ports p) = Inr ()"
  by (cases f) (auto simp: load_listeners_def res_simps)

end
