(* ===== verification/Firewall.thy ===== *)
theory Firewall
  imports Webui_Listeners Dhcp_Relay
begin

text \<open>
  The firewall service (\<open>engine/nasty-system/src/firewall.rs\<close>, \<open>FirewallService\<close>). Every operation
  builds a candidate configuration from the current one and commits it: the nftables batch is
  checked and applied, then the changed file is renamed into place, and when that fails the
  previous rules are applied again. All operations hold the lock of the configuration, so an
  execution is a sequence of whole operations.

  The world is the configuration in memory, the two files, the table in the kernel as the text
  of the batch that made it, and the DHCP relay's world, whose policy is appended to every batch
  and whose chain lies in the same table. nft is outside the repository: its outcomes are given
  by the environment. \<open>run_nft\<close> reports an error when nft does, and also when nft has not answered
  within ten seconds, in which case the batch may be in force all the same; both are outcomes of
  the model. The theorems assume \<open>nft_atomic\<close>: no call is cut off after its batch took effect.
  Staging a file writes a temporary file, which no other code reads; only its success is modelled.
\<close>

section \<open>World\<close>

record FirewallConfig =
  fc_state :: FirewallState
  fc_restrictions :: FirewallRestrictions
  fc_custom :: "CustomRule list"
  fc_published :: "PublishedAppPort list"

record fw_world =
  fw_config :: FirewallConfig
  restrictions_file :: "FirewallRestrictions json_file"
  custom_file :: "CustomRule list json_file"
  fw_table :: string
  fw_relay :: relay_world
  fw_calls :: nat

text \<open>The outcome of an nft call: success, or an error and whether the batch took effect.\<close>

datatype nft_outcome = NftOk | NftFailed string bool

record fw_env =
  fw_files :: outcomes
  fw_policy :: outcomes
  fw_nft :: "nat \<Rightarrow> nft_outcome"
  fw_uuid :: "nat \<Rightarrow> string"
  fw_vars :: listener_vars

datatype FwError =
    FwInvalid RuleError
  | FwListeners ListenerError
  | FwIo string
  | FwUnparseable
  | FwRelay ReconcileError
  | FwUnknownService string
  | FwNotInitialized
  | FwOverlaps string
  | FwDuplicate
  | FwNoSuchRule string
  | FwPersist FwError
  | FwPersistAndRollback FwError FwError

type_synonym 'a fw_io = "(fw_world, FwError, 'a) io"

definition fw_default :: FirewallConfig where
  "fw_default = \<lparr>fc_state = [], fc_restrictions = \<lparr>res_services = [], res_interfaces = []\<rparr>,
                 fc_custom = [], fc_published = []\<rparr>"

definition fw_file :: "fw_env \<Rightarrow> (fw_world \<Rightarrow> fw_world) \<Rightarrow> unit fw_io" where
  "fw_file env f w =
     (case fw_files env (fw_calls w) of
        Some e \<Rightarrow> (Inl (FwIo e), w\<lparr>fw_calls := Suc (fw_calls w)\<rparr>)
      | None \<Rightarrow> (Inr (), (f w)\<lparr>fw_calls := Suc (fw_calls w)\<rparr>))"

definition run_nft :: "fw_env \<Rightarrow> (fw_world \<Rightarrow> fw_world) \<Rightarrow> unit fw_io" where
  "run_nft env f w =
     (case fw_nft env (fw_calls w) of
        NftOk \<Rightarrow> (Inr (), (f w)\<lparr>fw_calls := Suc (fw_calls w)\<rparr>)
      | NftFailed e applied \<Rightarrow>
          (Inl (FwIo e), (if applied then f w else w)\<lparr>fw_calls := Suc (fw_calls w)\<rparr>))"

section \<open>Applying and committing\<close>

definition relay_policy :: "fw_env \<Rightarrow> string fw_io" where
  "relay_policy env = zoom fw_relay (\<lambda>r w. w\<lparr>fw_relay := r\<rparr>) FwRelay (policy (fw_policy env))"

definition fw_transaction :: "FirewallConfig \<Rightarrow> string" where
  "fw_transaction c = render_transaction (fc_state c) (fc_custom c) (fc_published c)"

definition apply_nftables_with :: "fw_env \<Rightarrow> FirewallConfig \<Rightarrow> unit fw_io" where
  "apply_nftables_with env c =
     io_bind (relay_policy env) (\<lambda>p.
     io_bind (run_nft env id) (\<lambda>_.
     run_nft env (\<lambda>w. w\<lparr>fw_table := fw_transaction c, fw_relay := (fw_relay w)\<lparr>chain_rules := p\<rparr>\<rparr>)))"

datatype staged = StagedRestrictions FirewallRestrictions | StagedCustom "CustomRule list"

definition stage :: "fw_env \<Rightarrow> staged \<Rightarrow> staged fw_io" where
  "stage env s = io_bind (fw_file env id) (\<lambda>_. io_return s)"

definition commit :: "fw_env \<Rightarrow> staged \<Rightarrow> unit fw_io" where
  "commit env s =
     fw_file env (\<lambda>w. case s of
                        StagedRestrictions r \<Rightarrow> w\<lparr>restrictions_file := Parsed r\<rparr>
                      | StagedCustom c \<Rightarrow> w\<lparr>custom_file := Parsed c\<rparr>)"

definition persist_or_restore :: "fw_env \<Rightarrow> FirewallConfig \<Rightarrow> FirewallConfig \<Rightarrow> staged \<Rightarrow> unit fw_io" where
  "persist_or_restore env current candidate s =
     io_case (commit env s)
       (\<lambda>persist_error.
          io_case (apply_nftables_with env current)
            (\<lambda>rollback_error.
               io_bind (io_modify (\<lambda>w. w\<lparr>fw_config := candidate\<rparr>)) (\<lambda>_.
               io_fail (FwPersistAndRollback persist_error rollback_error)))
            (\<lambda>_. io_fail (FwPersist persist_error)))
       (\<lambda>_. io_modify (\<lambda>w. w\<lparr>fw_config := candidate\<rparr>))"

definition commit_candidate :: "fw_env \<Rightarrow> FirewallConfig \<Rightarrow> staged option \<Rightarrow> unit fw_io" where
  "commit_candidate env candidate staged =
     io_bind (io_get fw_config) (\<lambda>current.
     io_bind (apply_nftables_with env candidate) (\<lambda>_.
     case staged of
       None \<Rightarrow> io_modify (\<lambda>w. w\<lparr>fw_config := candidate\<rparr>)
     | Some s \<Rightarrow> persist_or_restore env current candidate s))"

section \<open>Operations\<close>

definition is_service :: "string \<Rightarrow> FirewallRule \<Rightarrow> bool" where
  "is_service s r \<longleftrightarrow> fr_service r = s"

definition new_rule :: "FirewallRestrictions \<Rightarrow> string \<Rightarrow> PortSpec list \<Rightarrow> bool \<Rightarrow> FirewallRule" where
  "new_rule r service ports active =
     \<lparr>fr_service = service, fr_ports = restrict r service ports, fr_active = active\<rparr>"

definition set_rule_active :: "fw_env \<Rightarrow> string \<Rightarrow> PortSpec list \<Rightarrow> bool \<Rightarrow> unit fw_io" where
  "set_rule_active env service ports active =
     (if ports = [] then io_return ()
      else io_bind (io_get fw_config) (\<lambda>c.
        case find (is_service service) (fc_state c) of
          Some rule \<Rightarrow>
            if fr_active rule = active then io_return ()
            else commit_candidate env
                   (c\<lparr>fc_state := update_first (is_service service) (\<lambda>r. r\<lparr>fr_active := active\<rparr>) (fc_state c)\<rparr>)
                   None
        | None \<Rightarrow>
            commit_candidate env
              (c\<lparr>fc_state := fc_state c @ [new_rule (fc_restrictions c) service ports active]\<rparr>) None))"

definition load_restrictions :: "fw_env \<Rightarrow> FirewallRestrictions fw_io" where
  "load_restrictions env =
     io_bind (fw_file env id) (\<lambda>_.
     io_bind (io_get restrictions_file) (\<lambda>f.
       case f of
         Absent \<Rightarrow> io_return (fc_restrictions fw_default)
       | Garbage \<Rightarrow> io_fail FwUnparseable
       | Parsed r \<Rightarrow> io_return r))"

definition load_custom_rules :: "fw_env \<Rightarrow> CustomRule list fw_io" where
  "load_custom_rules env =
     io_bind (fw_file env id) (\<lambda>_.
     io_bind (io_get custom_file) (\<lambda>f.
       case f of
         Absent \<Rightarrow> io_return []
       | Garbage \<Rightarrow> io_fail FwUnparseable
       | Parsed c \<Rightarrow> io_return c))"

definition webui_load :: "fw_env \<Rightarrow> ListenerState json_file \<Rightarrow> ListenerState fw_io" where
  "webui_load env listeners =
     io_bind (fw_file env id) (\<lambda>_. io_lift (map_sum FwListeners id (load_listeners (fw_vars env) listeners)))"

definition initial_rules ::
  "FirewallRestrictions \<Rightarrow> ListenerPorts \<Rightarrow> (Protocol \<times> bool) list \<Rightarrow> bool \<Rightarrow> bool \<Rightarrow>
     PortSpec list \<Rightarrow> PortSpec list \<Rightarrow> FirewallState" where
  "initial_rules r ports protocols rdma dc iscsi nvmeof =
     (let rules =
        [new_rule r ''webui'' (listener_ports ports) True] @
        map (\<lambda>(p, enabled). new_rule r (proto_name p) (ports_for_protocol p) enabled)
          (filter (\<lambda>(p, enabled). ports_for_protocol p \<noteq> []) protocols) @
        (if rdma then [new_rule r ''rdma'' rdma_ports True] else []) @
        (if dc then [new_rule r ''dc'' dc_ports True] else [])
      in fst (replace_rule_ports (fst (replace_rule_ports rules r (proto_name Iscsi) iscsi))
                r (proto_name Nvmeof) nvmeof))"

definition init ::
  "fw_env \<Rightarrow> ListenerState json_file \<Rightarrow> (Protocol \<times> bool) list \<Rightarrow> bool \<Rightarrow> bool \<Rightarrow>
     PortSpec list \<Rightarrow> PortSpec list \<Rightarrow> PublishedAppPort list \<Rightarrow> unit fw_io" where
  "init env listeners protocols rdma dc iscsi nvmeof published =
     io_bind (load_restrictions env) (\<lambda>r.
     io_bind (load_custom_rules env) (\<lambda>custom.
     io_bind (webui_load env listeners) (\<lambda>s.
     commit_candidate env
       \<lparr>fc_state = initial_rules r (confirmed s) protocols rdma dc iscsi nvmeof,
        fc_restrictions = r, fc_custom = custom, fc_published = published\<rparr> None)))"

fun protocol_states :: "(Protocol \<times> bool) list \<Rightarrow> FirewallState \<times> bool \<Rightarrow> FirewallState \<times> bool" where
  "protocol_states [] acc = acc"
| "protocol_states ((p, enabled) # ps) (st, changed) =
     protocol_states ps
       (case find (is_service (proto_name p)) st of
          Some rule \<Rightarrow>
            if fr_active rule \<noteq> enabled then
              (update_first (is_service (proto_name p)) (\<lambda>r. r\<lparr>fr_active := enabled\<rparr>) st, True)
            else (st, changed)
        | None \<Rightarrow> (st, changed))"

definition set_protocol_states :: "fw_env \<Rightarrow> (Protocol \<times> bool) list \<Rightarrow> unit fw_io" where
  "set_protocol_states env protocols =
     io_bind (io_get fw_config) (\<lambda>c.
     let (st, changed) = protocol_states protocols (fc_state c, False)
     in if \<not> changed then io_return () else commit_candidate env (c\<lparr>fc_state := st\<rparr>) None)"

definition published_key :: "PublishedAppPort \<Rightarrow> string \<times> nat \<times> string" where
  "published_key p = (pa_transport p, unat (pa_host_port p), pa_app p)"

definition normalize_published :: "PublishedAppPort list \<Rightarrow> PublishedAppPort list" where
  "normalize_published ps = dedup_by (\<lambda>a b. published_key a = published_key b) (sort_key published_key ps)"

definition set_published_app_ports :: "fw_env \<Rightarrow> PublishedAppPort list \<Rightarrow> unit fw_io" where
  "set_published_app_ports env ps =
     (let published = normalize_published ps
      in io_bind (io_get fw_config) (\<lambda>c.
         if fc_published c = published then io_return ()
         else commit_candidate env (c\<lparr>fc_published := published\<rparr>) None))"

definition fw_open :: "fw_env \<Rightarrow> Protocol \<Rightarrow> unit fw_io" where
  "fw_open env p = set_rule_active env (proto_name p) (ports_for_protocol p) True"

definition fw_close :: "fw_env \<Rightarrow> Protocol \<Rightarrow> unit fw_io" where
  "fw_close env p = set_rule_active env (proto_name p) (ports_for_protocol p) False"

definition open_rdma :: "fw_env \<Rightarrow> unit fw_io" where
  "open_rdma env = set_rule_active env ''rdma'' rdma_ports True"

definition close_rdma :: "fw_env \<Rightarrow> unit fw_io" where
  "close_rdma env = set_rule_active env ''rdma'' rdma_ports False"

definition open_dc :: "fw_env \<Rightarrow> unit fw_io" where
  "open_dc env = set_rule_active env ''dc'' dc_ports True"

definition close_dc :: "fw_env \<Rightarrow> unit fw_io" where
  "close_dc env = set_rule_active env ''dc'' dc_ports False"

definition set_webui_ports :: "fw_env \<Rightarrow> u16 \<Rightarrow> u16 option \<Rightarrow> unit fw_io" where
  "set_webui_ports env https http =
     io_bind (io_get fw_config) (\<lambda>c.
       case find (is_service ''webui'') (fc_state c) of
         None \<Rightarrow> io_fail FwNotInitialized
       | Some _ \<Rightarrow>
           commit_candidate env
             (c\<lparr>fc_state := update_first (is_service ''webui'')
                  (\<lambda>r. r\<lparr>fr_ports := restrict (fc_restrictions c) ''webui'' (webui_ports https http)\<rparr>)
                  (fc_state c)\<rparr>)
             None)"

definition default_ports :: "fw_env \<Rightarrow> ListenerState json_file \<Rightarrow> string \<Rightarrow> PortSpec list fw_io" where
  "default_ports env listeners service =
     (if service = ''webui'' then io_bind (webui_load env listeners) (\<lambda>s. io_return (listener_ports (confirmed s)))
      else if service = ''rdma'' then io_return rdma_ports
      else if service = ''dc'' then io_return dc_ports
      else case from_name service of
             Some p \<Rightarrow> io_return (ports_for_protocol p)
           | None \<Rightarrow> io_fail (FwUnknownService service))"

definition check_restriction :: "string list \<Rightarrow> string list \<Rightarrow> FwError + unit" where
  "check_restriction sources ifaces =
     res_bind (try_all (\<lambda>s. guard (valid_source s) (FwInvalid (BadSource s))) sources) (\<lambda>_.
     try_all (\<lambda>f. guard (valid_iface f) (FwInvalid (BadIface f))) ifaces)"

definition set_entry :: "string \<Rightarrow> string list \<Rightarrow> (string \<times> string list) list \<Rightarrow> (string \<times> string list) list" where
  "set_entry service xs m = (if xs = [] then AList.delete service m else AList.update service xs m)"

definition restricted_config :: "FirewallConfig \<Rightarrow> string \<Rightarrow> PortSpec list \<Rightarrow> string list \<Rightarrow> string list \<Rightarrow> FirewallConfig" where
  "restricted_config c service defaults sources ifaces =
     (let base = (case find (is_service service) (fc_state c) of
                    Some rule \<Rightarrow> base_ports [] (fr_ports rule)
                  | None \<Rightarrow> defaults)
      in c\<lparr>fc_restrictions := \<lparr>res_services = set_entry service sources (res_services (fc_restrictions c)),
                              res_interfaces = set_entry service ifaces (res_interfaces (fc_restrictions c))\<rparr>,
          fc_state := update_first (is_service service)
            (\<lambda>r. r\<lparr>fr_ports := apply_restrictions base sources ifaces\<rparr>) (fc_state c)\<rparr>)"

definition set_restriction ::
  "fw_env \<Rightarrow> ListenerState json_file \<Rightarrow> string \<Rightarrow> string list \<Rightarrow> string list \<Rightarrow> unit fw_io" where
  "set_restriction env listeners service sources ifaces =
     io_bind (io_lift (check_restriction sources ifaces)) (\<lambda>_.
     io_bind (default_ports env listeners service) (\<lambda>defaults.
     io_bind (io_get fw_config) (\<lambda>c.
     let candidate = restricted_config c service defaults sources ifaces
     in io_bind (stage env (StagedRestrictions (fc_restrictions candidate))) (\<lambda>s.
        commit_candidate env candidate (Some s)))))"

definition set_service_ports :: "fw_env \<Rightarrow> Protocol \<Rightarrow> PortSpec list \<Rightarrow> unit fw_io" where
  "set_service_ports env p ports =
     io_bind (io_get fw_config) (\<lambda>c.
     let (st, changed) = replace_rule_ports (fc_state c) (fc_restrictions c) (proto_name p) ports
     in if \<not> changed then io_return () else commit_candidate env (c\<lparr>fc_state := st\<rparr>) None)"

definition set_portal_ports :: "fw_env \<Rightarrow> PortSpec list \<Rightarrow> PortSpec list \<Rightarrow> unit fw_io" where
  "set_portal_ports env iscsi nvmeof =
     io_bind (io_get fw_config) (\<lambda>c.
     let (st1, ch1) = replace_rule_ports (fc_state c) (fc_restrictions c) (proto_name Iscsi) iscsi;
         (st2, ch2) = replace_rule_ports st1 (fc_restrictions c) (proto_name Nvmeof) nvmeof
     in if \<not> ch1 \<and> \<not> ch2 then io_return () else commit_candidate env (c\<lparr>fc_state := st2\<rparr>) None)"

definition custom_of :: "string \<Rightarrow> CustomRuleInput \<Rightarrow> CustomRule" where
  "custom_of i inp =
     \<lparr>cr_id = i, cr_label = trim (ci_label inp), cr_transport = ci_transport inp, cr_from = ci_from inp,
      cr_to = ci_to inp, cr_source = ci_source inp, cr_iface = ci_iface inp, cr_enabled = ci_enabled inp\<rparr>"

definition check_custom :: "FirewallConfig \<Rightarrow> (CustomRule \<Rightarrow> bool) \<Rightarrow> CustomRuleInput \<Rightarrow> FwError + unit" where
  "check_custom c other inp =
     (case service_port_conflict (fc_state c) (ci_transport inp) (ci_from inp) (ci_to inp) of
        Some owner \<Rightarrow> Inl (FwOverlaps owner)
      | None \<Rightarrow> guard (\<not> list_ex (\<lambda>r. other r \<and> same_rule r inp) (fc_custom c)) FwDuplicate)"

definition add_custom_rule :: "fw_env \<Rightarrow> CustomRuleInput \<Rightarrow> CustomRule fw_io" where
  "add_custom_rule env inp =
     io_bind (io_lift (map_sum FwInvalid id (validate_custom_input inp))) (\<lambda>_.
     io_bind (io_get fw_config) (\<lambda>c.
     io_bind (io_lift (check_custom c (\<lambda>_. True) inp)) (\<lambda>_.
     io_bind (io_get fw_calls) (\<lambda>n.
     let rule = custom_of (fw_uuid env n) inp;
         candidate = c\<lparr>fc_custom := fc_custom c @ [rule]\<rparr>
     in io_bind (stage env (StagedCustom (fc_custom candidate))) (\<lambda>s.
        io_bind (commit_candidate env candidate (Some s)) (\<lambda>_.
        io_return rule))))))"

definition update_custom_rule :: "fw_env \<Rightarrow> string \<Rightarrow> CustomRuleInput \<Rightarrow> CustomRule fw_io" where
  "update_custom_rule env i inp =
     io_bind (io_lift (map_sum FwInvalid id (validate_custom_input inp))) (\<lambda>_.
     io_bind (io_get fw_config) (\<lambda>c.
     io_bind (io_lift (check_custom c (\<lambda>r. cr_id r \<noteq> i) inp)) (\<lambda>_.
     case find (\<lambda>r. cr_id r = i) (fc_custom c) of
       None \<Rightarrow> io_fail (FwNoSuchRule i)
     | Some _ \<Rightarrow>
         let candidate = c\<lparr>fc_custom := update_first (\<lambda>r. cr_id r = i) (\<lambda>r. custom_of (cr_id r) inp) (fc_custom c)\<rparr>
         in io_bind (stage env (StagedCustom (fc_custom candidate))) (\<lambda>s.
            io_bind (commit_candidate env candidate (Some s)) (\<lambda>_.
            io_return (custom_of i inp))))))"

definition remove_custom_rule :: "fw_env \<Rightarrow> string \<Rightarrow> unit fw_io" where
  "remove_custom_rule env i =
     io_bind (io_get fw_config) (\<lambda>c.
     let kept = filter (\<lambda>r. cr_id r \<noteq> i) (fc_custom c)
     in if length kept = length (fc_custom c) then io_fail (FwNoSuchRule i)
        else io_bind (stage env (StagedCustom kept)) (\<lambda>s.
             commit_candidate env (c\<lparr>fc_custom := kept\<rparr>) (Some s)))"

section \<open>Outcome of a commit\<close>

text \<open>
  What \<open>apply_nftables_with\<close> relies on: a call that reports an error has changed nothing. nft
  documents a batch as one transaction, which settles the errors nft reports. It does not settle
  the ten-second limit of \<open>run_nft\<close> itself: the assumption also says that nft never runs into it
  between taking the batch and answering.
\<close>

definition nft_atomic :: "fw_env \<Rightarrow> bool" where
  "nft_atomic env \<longleftrightarrow> (\<forall>n e. fw_nft env n \<noteq> NftFailed e True)"

definition fw_core ::
  "fw_world \<Rightarrow> FirewallConfig \<times> string \<times> FirewallRestrictions json_file \<times> CustomRule list json_file" where
  "fw_core w = (fw_config w, fw_table w, restrictions_file w, custom_file w)"

definition relay_in_force :: "fw_world \<Rightarrow> bool" where
  "relay_in_force w \<longleftrightarrow> chain_rules (fw_relay w) = contents (policy_file (fw_relay w))"

definition same :: "fw_world \<Rightarrow> fw_world \<Rightarrow> bool" where
  "same w w' \<longleftrightarrow>
     fw_core w' = fw_core w \<and> fw_calls w \<le> fw_calls w' \<and>
     chain_rules (fw_relay w') = chain_rules (fw_relay w) \<and> policy_file (fw_relay w') = policy_file (fw_relay w)"

lemma same_refl [simp]: "same w w"
  by (simp add: same_def)

lemma same_trans: "same a b \<Longrightarrow> same b c \<Longrightarrow> same a c"
  by (auto simp: same_def)

lemma same_relay: "same w w' \<Longrightarrow> relay_in_force w' = relay_in_force w"
  by (simp add: same_def relay_in_force_def)

lemma file_id_same: "fw_file env id w = (r, w') \<Longrightarrow> same w w'"
  by (auto simp: fw_file_def same_def fw_core_def split: option.splits)

lemma relay_policy_same:
  "relay_policy env w = (r, w') \<Longrightarrow> same w w' \<and> (\<forall>p. r = Inr p \<longrightarrow> p = contents (policy_file (fw_relay w)))"
  by (auto simp: relay_policy_def zoom_def policy_def call_def io_defs same_def fw_core_def split: option.splits)

lemma nft_check_same: "run_nft env id w = (r, w') \<Longrightarrow> same w w'"
  by (auto simp: run_nft_def same_def fw_core_def split: nft_outcome.splits)

definition installed :: "FirewallConfig \<Rightarrow> fw_world \<Rightarrow> fw_world \<Rightarrow> bool" where
  "installed c w w' \<longleftrightarrow>
     fw_core w' = (fw_config w, fw_transaction c, restrictions_file w, custom_file w) \<and>
     fw_calls w \<le> fw_calls w' \<and> policy_file (fw_relay w') = policy_file (fw_relay w) \<and> relay_in_force w'"

lemma apply_outcome:
  assumes "nft_atomic env" "apply_nftables_with env c w = (r, w')"
  shows "(\<forall>e. r = Inl e \<longrightarrow> same w w') \<and> (\<forall>u. r = Inr u \<longrightarrow> installed c w w')"
proof -
  obtain r1 w1 where 1: "relay_policy env w = (r1, w1)" by fastforce
  obtain r2 w2 where 2: "run_nft env id w1 = (r2, w2)" by fastforce
  note s1 = relay_policy_same [OF 1] and s2 = nft_check_same [OF 2]
  show ?thesis
  proof (cases r1)
    case (Inl e)
    with assms(2) 1 s1 show ?thesis by (auto simp: apply_nftables_with_def io_defs)
  next
    case (Inr p)
    show ?thesis
    proof (cases r2)
      case (Inl e)
      with assms(2) 1 2 \<open>r1 = Inr p\<close> s1 s2 show ?thesis
        by (auto simp: apply_nftables_with_def io_defs intro: same_trans)
    next
      case (Inr u)
      with assms 1 2 \<open>r1 = Inr p\<close> s1 s2 show ?thesis
        by (auto simp: apply_nftables_with_def io_defs run_nft_def nft_atomic_def installed_def same_def
            fw_core_def relay_in_force_def split: nft_outcome.splits bool.splits)
    qed
  qed
qed

definition written :: "staged option \<Rightarrow> fw_world \<Rightarrow> FirewallRestrictions json_file \<times> CustomRule list json_file" where
  "written st w =
     (case st of
        None \<Rightarrow> (restrictions_file w, custom_file w)
      | Some (StagedRestrictions r) \<Rightarrow> (Parsed r, custom_file w)
      | Some (StagedCustom c) \<Rightarrow> (restrictions_file w, Parsed c))"

text \<open>
  The three ways a commit ends: nothing has changed; the candidate is live and stored; or it is
  live and in memory while the file is stale, which the error says.
\<close>

datatype verdict = Unchanged | Committed | Degraded

fun verdict_of :: "FwError + 'a \<Rightarrow> verdict" where
  "verdict_of (Inr _) = Committed"
| "verdict_of (Inl (FwPersistAndRollback _ _)) = Degraded"
| "verdict_of (Inl _) = Unchanged"

definition live_with :: "FirewallConfig \<Rightarrow> fw_world \<Rightarrow> bool" where
  "live_with c w \<longleftrightarrow> fw_config w = c \<and> fw_table w = fw_transaction c"

definition settled :: "FirewallConfig \<Rightarrow> staged option \<Rightarrow> verdict \<Rightarrow> fw_world \<Rightarrow> fw_world \<Rightarrow> bool" where
  "settled c st v w w' \<longleftrightarrow>
     fw_calls w \<le> fw_calls w' \<and> policy_file (fw_relay w') = policy_file (fw_relay w) \<and> relay_in_force w' \<and>
     (case v of
        Unchanged \<Rightarrow> fw_core w' = fw_core w
      | Committed \<Rightarrow> live_with c w' \<and> (restrictions_file w', custom_file w') = written st w
      | Degraded \<Rightarrow> live_with c w' \<and> restrictions_file w' = restrictions_file w \<and> custom_file w' = custom_file w)"

lemma commit_outcome:
  "commit env s w = (r, w') \<Longrightarrow>
     (\<forall>e. r = Inl e \<longrightarrow> same w w') \<and>
     (\<forall>u. r = Inr u \<longrightarrow>
       fw_core w' = (fw_config w, fw_table w, fst (written (Some s) w), snd (written (Some s) w)) \<and>
       fw_calls w \<le> fw_calls w' \<and> fw_relay w' = fw_relay w)"
  by (cases s) (auto simp: commit_def fw_file_def same_def fw_core_def written_def split: option.splits)

lemma apply_error: "apply_nftables_with env c w = (Inl e, w') \<Longrightarrow> verdict_of (Inl e :: FwError + 'a) = Unchanged"
  by (auto simp: apply_nftables_with_def relay_policy_def zoom_def policy_def call_def run_nft_def io_defs
      split: option.splits sum.splits nft_outcome.splits prod.splits)

lemmas settled_defs = settled_def installed_def fw_core_def live_with_def written_def relay_in_force_def

lemma persist_or_restore_outcome:
  assumes "nft_atomic env" "live_with (fw_config w) w" "installed c w w1"
    and "persist_or_restore env (fw_config w) c s w1 = (r, w')"
  shows "settled c (Some s) (verdict_of r) w w'"
proof -
  obtain r2 w2 where 2: "commit env s w1 = (r2, w2)" by fastforce
  note a2 = commit_outcome [OF 2]
  obtain r3 w3 where 3: "apply_nftables_with env (fw_config w) w2 = (r3, w3)" by fastforce
  note a3 = apply_outcome [OF assms(1) 3]
  consider u where "r2 = Inr u" | pe re where "r2 = Inl pe" "r3 = Inl re" | pe u where "r2 = Inl pe" "r3 = Inr u"
    by (cases r2; cases r3) auto
  then show ?thesis
  proof cases
    case 1
    with assms(4) 2 have "r = Inr ()" "w' = w2\<lparr>fw_config := c\<rparr>"
      by (auto simp: persist_or_restore_def io_defs)
    with assms(3) a2 1 show ?thesis by (cases s) (auto simp: settled_defs)
  next
    case (2 pe re)
    with assms(4) \<open>commit env s w1 = (r2, w2)\<close> 3
    have "r = Inl (FwPersistAndRollback pe re)" "w' = w3\<lparr>fw_config := c\<rparr>"
      by (auto simp: persist_or_restore_def io_defs)
    moreover have "same w1 w3" using a2 a3 2 same_trans by blast
    ultimately show ?thesis using assms(3) by (auto simp: settled_defs same_def)
  next
    case (3 pe u)
    with assms(4) 2 \<open>apply_nftables_with env (fw_config w) w2 = (r3, w3)\<close>
    have "r = Inl (FwPersist pe)" "w' = w3" by (auto simp: persist_or_restore_def io_defs)
    with assms(2,3) a2 a3 3 show ?thesis by (auto simp: settled_defs same_def)
  qed
qed

lemma commit_candidate_outcome:
  assumes "nft_atomic env" "live_with (fw_config w) w" "relay_in_force w"
    and "commit_candidate env c st w = (r, w')"
  shows "settled c st (verdict_of r) w w'"
proof -
  obtain r1 w1 where 1: "apply_nftables_with env c w = (r1, w1)" by fastforce
  note a1 = apply_outcome [OF assms(1) 1]
  show ?thesis
  proof (cases r1)
    case (Inl e)
    with assms(4) 1 have "r = Inl e" "w' = w1" by (auto simp: commit_candidate_def io_defs)
    moreover have "verdict_of (Inl e :: FwError + unit) = Unchanged" using apply_error 1 Inl by blast
    ultimately show ?thesis
      using Inl a1 assms(3) same_relay [of w w1] by (auto simp: settled_def same_def)
  next
    case (Inr u)
    with a1 have i: "installed c w w1" by simp
    show ?thesis
    proof (cases st)
      case None
      with assms(4) 1 Inr have "r = Inr ()" "w' = w1\<lparr>fw_config := c\<rparr>"
        by (auto simp: commit_candidate_def io_defs)
      with i None show ?thesis by (auto simp: settled_defs)
    next
      case (Some s)
      with assms(4) 1 Inr have "persist_or_restore env (fw_config w) c s w1 = (r, w')"
        by (auto simp: commit_candidate_def io_defs)
      with persist_or_restore_outcome [OF assms(1,2) i] Some show ?thesis by simp
    qed
  qed
qed

section \<open>Sound configurations\<close>

definition known_service :: "string \<Rightarrow> bool" where
  "known_service s \<longleftrightarrow> s = ''webui'' \<or> s = ''rdma'' \<or> s = ''dc'' \<or> from_name s \<noteq> None"

text \<open>A rule is made of ports without conditions, under the restriction of its service.\<close>

definition well_restricted :: "FirewallRestrictions \<Rightarrow> FirewallRule \<Rightarrow> bool" where
  "well_restricted r x \<longleftrightarrow> (\<exists>base. (\<forall>p\<in>set base. plain p) \<and> fr_ports x = restrict r (fr_service x) base)"

definition rules_ok :: "FirewallRestrictions \<Rightarrow> FirewallState \<Rightarrow> bool" where
  "rules_ok r st \<longleftrightarrow>
     distinct (map fr_service st) \<and> (\<forall>x\<in>set st. known_service (fr_service x) \<and> well_restricted r x)"

definition clean_restrictions :: "FirewallRestrictions \<Rightarrow> bool" where
  "clean_restrictions r \<longleftrightarrow>
     (\<forall>(s, xs)\<in>set (res_services r). \<forall>x\<in>set xs. valid_source x) \<and>
     (\<forall>(s, xs)\<in>set (res_interfaces r). \<forall>x\<in>set xs. valid_iface x)"

definition signature :: "CustomRule \<Rightarrow> Transport \<times> u16 \<times> u16 \<times> string option \<times> string option" where
  "signature r = (cr_transport r, cr_from r, cr_to r, cr_source r, cr_iface r)"

definition custom_ok :: "CustomRule list \<Rightarrow> bool" where
  "custom_ok cs \<longleftrightarrow>
     (\<forall>r\<in>set cs. clean_custom r \<and> cr_from r \<noteq> 0 \<and> cr_from r \<le> cr_to r \<and> cr_label r \<noteq> []) \<and>
     distinct (map cr_id cs) \<and> distinct (map signature cs)"

definition config_ok :: "FirewallConfig \<Rightarrow> bool" where
  "config_ok c \<longleftrightarrow>
     rules_ok (fc_restrictions c) (fc_state c) \<and> clean_restrictions (fc_restrictions c) \<and> custom_ok (fc_custom c)"

lemma known_services [simp]:
  "known_service ''webui''" "known_service ''rdma''" "known_service ''dc''" "known_service (proto_name p)"
  by (simp_all add: known_service_def)

lemma proto_name_other [simp]:
  "proto_name p \<noteq> ''webui''" "proto_name p \<noteq> ''rdma''" "proto_name p \<noteq> ''dc''"
  "''webui'' \<noteq> proto_name p" "''rdma'' \<noteq> proto_name p" "''dc'' \<noteq> proto_name p"
  by (cases p; simp)+

lemma rules_ok_update:
  assumes "rules_ok r st" "\<And>x. fr_service (f x) = fr_service x"
    and "\<And>x. x \<in> set st \<Longrightarrow> p x \<Longrightarrow> well_restricted r (f x)"
  shows "rules_ok r (update_first p f st)"
proof -
  have "map fr_service (update_first p f st) = map fr_service st" using assms(2) by simp
  moreover have "known_service (fr_service x) \<and> well_restricted r x" if "x \<in> set (update_first p f st)" for x
    using that set_update_first [of p f st] assms by (fastforce simp: rules_ok_def)
  ultimately show ?thesis using assms(1) by (auto simp: rules_ok_def)
qed

lemma well_restricted_active [simp]: "well_restricted r (x\<lparr>fr_active := a\<rparr>) = well_restricted r x"
  by (simp add: well_restricted_def)

lemma well_restricted_ports:
  "\<forall>p\<in>set ports. plain p \<Longrightarrow> fr_service x = s \<Longrightarrow> well_restricted r (x\<lparr>fr_ports := restrict r s ports\<rparr>)"
  by (auto simp: well_restricted_def)

lemma well_restricted_new: "\<forall>p\<in>set ports. plain p \<Longrightarrow> well_restricted r (new_rule r s ports a)"
  by (auto simp: well_restricted_def new_rule_def)

lemma new_rule_service [simp]: "fr_service (new_rule r s ports a) = s"
  by (simp add: new_rule_def)

lemma rules_ok_append:
  assumes "rules_ok r st" "find (is_service s) st = None" "known_service s" "\<forall>p\<in>set ports. plain p"
  shows "rules_ok r (st @ [new_rule r s ports a])"
  using assms well_restricted_new [OF assms(4)] by (auto simp: rules_ok_def find_None_iff is_service_def)

lemma is_service_abs: "(\<lambda>x. fr_service x = s) = is_service s"
  by (auto simp: is_service_def)

lemma rules_ok_replace:
  assumes "rules_ok r st" "known_service s" "\<forall>p\<in>set ports. plain p"
  shows "rules_ok r (fst (replace_rule_ports st r s ports))"
proof (cases "find (is_service s) st")
  case None
  with rules_ok_append [OF assms(1) None assms(2,3), of False] show ?thesis
    by (simp add: replace_rule_ports_def new_rule_def is_service_abs Let_def)
next
  case (Some x)
  have "rules_ok r (update_first (is_service s) (\<lambda>x. x\<lparr>fr_ports := restrict r s ports\<rparr>) st)"
    using assms by (intro rules_ok_update) (auto simp: is_service_def intro: well_restricted_ports)
  with assms(1) Some show ?thesis by (simp add: replace_rule_ports_def is_service_abs Let_def)
qed

lemma rules_ok_protocol_states: "rules_ok r (fst acc) \<Longrightarrow> rules_ok r (fst (protocol_states ps acc))"
proof (induction ps acc rule: protocol_states.induct)
  case (2 p enabled ps st changed)
  have u: "rules_ok r (update_first (is_service (proto_name p)) (\<lambda>x. x\<lparr>fr_active := enabled\<rparr>) st)"
    using "2.prems" by (intro rules_ok_update) (simp_all add: rules_ok_def)
  show ?case unfolding protocol_states.simps
    by (rule "2.IH") (use u "2.prems" in \<open>simp split: option.split\<close>)
qed simp

lemma rules_ok_initial:
  assumes "\<forall>p\<in>set iscsi. plain p" "\<forall>p\<in>set nvmeof. plain p" "distinct (map fst protocols)"
  shows "rules_ok r (initial_rules r l protocols rdma dc iscsi nvmeof)"
proof -
  let ?protos = "map (\<lambda>(p, enabled). new_rule r (proto_name p) (ports_for_protocol p) enabled)
      (filter (\<lambda>(p, enabled). ports_for_protocol p \<noteq> []) protocols)"
  let ?rules = "[new_rule r ''webui'' (listener_ports l) True] @ ?protos @
      (if rdma then [new_rule r ''rdma'' rdma_ports True] else []) @
      (if dc then [new_rule r ''dc'' dc_ports True] else [])"
  have names: "map fr_service ?protos = map proto_name (map fst (filter (\<lambda>(p, enabled). ports_for_protocol p \<noteq> []) protocols))"
    by (auto simp: new_rule_def)
  have d: "distinct (map fr_service ?protos)"
    unfolding names distinct_map using assms(3) by (auto simp: distinct_map inj_on_def distinct_map_filter)
  have plain: "\<forall>p\<in>set (listener_ports l). plain p" "\<forall>p\<in>set rdma_ports. plain p" "\<forall>p\<in>set dc_ports. plain p"
    "\<forall>p\<in>set (ports_for_protocol q). plain p" for q
    using plain_services plain_protocol by (auto simp: listener_ports_def)
  have "rules_ok r ?rules"
    unfolding rules_ok_def using d plain
    by (auto simp: well_restricted_new split: if_splits)
  then show ?thesis
    unfolding initial_rules_def Let_def using assms(1,2)
    by (intro rules_ok_replace known_services) simp_all
qed

lemma sources_of_set_entry:
  "sources_of \<lparr>res_services = set_entry s xs (res_services r), res_interfaces = n\<rparr> t =
     (if t = s then xs else sources_of r t)"
  by (auto simp: sources_of_def set_entry_def update_conv' delete_conv' split: option.splits)

lemma ifaces_of_set_entry:
  "ifaces_of \<lparr>res_services = m, res_interfaces = set_entry s xs (res_interfaces r)\<rparr> t =
     (if t = s then xs else ifaces_of r t)"
  by (auto simp: ifaces_of_def set_entry_def update_conv' delete_conv' split: option.splits)

lemma set_AList_update: "q \<in> set (AList.update k v m) \<Longrightarrow> q = (k, v) \<or> q \<in> set m"
  by (induction m) (auto split: if_splits)

lemma set_set_entry: "q \<in> set (set_entry s xs m) \<Longrightarrow> q = (s, xs) \<or> q \<in> set m"
  by (auto simp: set_entry_def AList.delete_eq dest: set_AList_update split: if_splits)

lemma check_restriction_ok:
  "check_restriction sources ifaces = Inr () \<longleftrightarrow>
     (\<forall>s\<in>set sources. valid_source s) \<and> (\<forall>f\<in>set ifaces. valid_iface f)"
  by (auto simp: check_restriction_def res_simps)

lemma restricted_config_ok:
  assumes "config_ok c" "check_restriction sources ifaces = Inr ()"
  shows "config_ok (restricted_config c service defaults sources ifaces)"
proof -
  let ?c = "restricted_config c service defaults sources ifaces"
  let ?R = "fc_restrictions c" and ?R' = "fc_restrictions ?c"
  have src: "sources_of ?R' t = (if t = service then sources else sources_of ?R t)" for t
    by (simp add: restricted_config_def Let_def sources_of_set_entry)
  have ifc: "ifaces_of ?R' t = (if t = service then ifaces else ifaces_of ?R t)" for t
    by (simp add: restricted_config_def Let_def ifaces_of_set_entry)
  have "clean_restrictions ?R'"
    using assms unfolding check_restriction_ok
    by (auto simp: restricted_config_def Let_def config_ok_def clean_restrictions_def dest!: set_set_entry)
  moreover have "rules_ok ?R' (fc_state ?c)"
  proof -
    let ?base = "case find (is_service service) (fc_state c) of Some x \<Rightarrow> base_ports [] (fr_ports x) | None \<Rightarrow> defaults"
    let ?f = "\<lambda>x. x\<lparr>fr_ports := apply_restrictions ?base sources ifaces\<rparr>"
    have d: "distinct (map fr_service (fc_state c))" using assms(1) by (simp add: config_ok_def rules_ok_def)
    have st: "fc_state ?c = map (\<lambda>x. if fr_service x = service then ?f x else x) (fc_state c)"
      using update_first_distinct [OF d, of service ?f]
      by (simp add: restricted_config_def Let_def is_service_abs)
    have "well_restricted ?R' (?f x)" if "x \<in> set (fc_state c)" "fr_service x = service" for x
    proof -
      from that obtain y where "find (is_service service) (fc_state c) = Some y"
        by (cases "find (is_service service) (fc_state c)") (auto simp: find_None_iff is_service_def)
      then have "\<forall>p\<in>set ?base. plain p" using base_ports_plain [of "[]"] by simp
      moreover have "restrict ?R' service ?base = apply_restrictions ?base sources ifaces"
        by (simp add: restrict_def src ifc)
      ultimately show ?thesis using that(2) unfolding well_restricted_def by (intro exI [of _ ?base]) simp
    qed
    moreover have "well_restricted ?R' x" if "x \<in> set (fc_state c)" "fr_service x \<noteq> service" for x
      using that assms(1) by (auto simp: config_ok_def rules_ok_def well_restricted_def restrict_def src ifc)
    ultimately have "known_service (fr_service x) \<and> well_restricted ?R' x" if "x \<in> set (fc_state ?c)" for x
      using that assms(1) unfolding st by (auto simp: config_ok_def rules_ok_def split: if_splits)
    moreover have "map fr_service (fc_state ?c) = map fr_service (fc_state c)" unfolding st by simp
    ultimately show ?thesis using d by (simp add: rules_ok_def)
  qed
  moreover have "custom_ok (fc_custom ?c)"
    using assms(1) by (simp add: restricted_config_def Let_def config_ok_def)
  ultimately show ?thesis by (simp add: config_ok_def)
qed

lemma same_rule_signature: "same_rule r inp \<longleftrightarrow> signature r = signature (custom_of i inp)"
  by (auto simp: same_rule_def signature_def custom_of_def)

lemma custom_of_sound:
  "validate_custom_input inp = Inr () \<Longrightarrow> one_line i \<Longrightarrow>
     clean_custom (custom_of i inp) \<and> cr_from (custom_of i inp) \<noteq> 0 \<and>
     cr_from (custom_of i inp) \<le> cr_to (custom_of i inp) \<and> cr_label (custom_of i inp) \<noteq> []"
  by (auto simp: validate_custom_input_def Let_def res_simps custom_of_def clean_custom_def clean_conds_def
      not_less split: option.splits)

lemma custom_ok_add:
  assumes "custom_ok cs" "validate_custom_input inp = Inr ()" "\<not> list_ex (\<lambda>r. same_rule r inp) cs"
    and "one_line i" "i \<notin> cr_id ` set cs"
  shows "custom_ok (cs @ [custom_of i inp])"
  using assms custom_of_sound [OF assms(2,4)] same_rule_signature [of _ inp i]
  by (auto simp: custom_ok_def list_ex_iff) (auto simp: custom_of_def)

lemma custom_ok_update:
  assumes "custom_ok cs" "validate_custom_input inp = Inr ()"
    and "\<not> list_ex (\<lambda>r. cr_id r \<noteq> i \<and> same_rule r inp) cs"
  shows "custom_ok (update_first (\<lambda>r. cr_id r = i) (\<lambda>r. custom_of (cr_id r) inp) cs)"
proof -
  let ?g = "\<lambda>r. if cr_id r = i then custom_of (cr_id r) inp else r"
  have d: "distinct (map cr_id cs)" using assms(1) by (simp add: custom_ok_def)
  have u: "update_first (\<lambda>r. cr_id r = i) (\<lambda>r. custom_of (cr_id r) inp) cs = map ?g cs"
    by (rule update_first_distinct [OF d])
  have ids: "map cr_id (map ?g cs) = map cr_id cs" by (simp add: custom_of_def)
  have "signature (?g a) \<noteq> signature (?g b)" if "a \<in> set cs" "b \<in> set cs" "a \<noteq> b" for a b
    using that assms(1,3) d same_rule_signature [of _ inp i]
    by (auto simp: list_ex_iff custom_ok_def distinct_map inj_on_def)
  then have "inj_on (\<lambda>r. signature (?g r)) (set cs)" unfolding inj_on_def by blast
  then have "distinct (map signature (map ?g cs))" using d by (simp add: distinct_map comp_def)
  moreover have "clean_custom r \<and> cr_from r \<noteq> 0 \<and> cr_from r \<le> cr_to r \<and> cr_label r \<noteq> []"
    if "r \<in> set (map ?g cs)" for r
    using that assms(1) custom_of_sound [OF assms(2)] by (auto simp: custom_ok_def clean_custom_def split: if_splits)
  moreover have "distinct (map cr_id (map ?g cs))" unfolding ids by (rule d)
  ultimately show ?thesis unfolding u custom_ok_def by blast
qed

lemma custom_ok_remove: "custom_ok cs \<Longrightarrow> custom_ok (filter P cs)"
  by (auto simp: custom_ok_def distinct_map_filter)

section \<open>Executions\<close>

text \<open>
  Operations with the arguments their callers pass: the states of all protocols come from
  \<open>Protocol::ALL\<close>, and the portal ports are the TCP ports of the configured targets, the default
  when there are none (\<open>portal_firewall_ports\<close> in \<open>engine/nasty-engine/src/router/share.rs\<close>).
\<close>

definition portal_specs :: "u16 \<Rightarrow> u16 list \<Rightarrow> PortSpec list" where
  "portal_specs standard ports = map tcp (if ports = [] then [standard] else remdups (sort ports))"

definition all_states :: "(Protocol \<Rightarrow> bool) \<Rightarrow> (Protocol \<times> bool) list" where
  "all_states enabled = map (\<lambda>p. (p, enabled p)) all_protocols"

datatype fw_op =
    FwInit "ListenerState json_file" "Protocol \<Rightarrow> bool" bool bool "u16 list" "u16 list" "PublishedAppPort list"
  | FwStates "Protocol \<Rightarrow> bool"
  | FwPublished "PublishedAppPort list"
  | FwProtocol Protocol bool
  | FwRdma bool
  | FwDc bool
  | FwWebui u16 "u16 option"
  | FwRestrict "ListenerState json_file" string "string list" "string list"
  | FwServicePorts Protocol "u16 list"
  | FwPortals "u16 list" "u16 list"
  | FwAdd CustomRuleInput
  | FwUpdate string CustomRuleInput
  | FwRemove string

definition ignore_result :: "('w, 'e, 'a) io \<Rightarrow> ('w, 'e, unit) io" where
  "ignore_result m = io_bind m (\<lambda>_. io_return ())"

fun fw_do :: "fw_env \<Rightarrow> fw_op \<Rightarrow> unit fw_io" where
  "fw_do env (FwInit f enabled rdma dc iscsi nvmeof published) =
     init env f (all_states enabled) rdma dc (portal_specs 3260 iscsi) (portal_specs 4420 nvmeof) published"
| "fw_do env (FwStates enabled) = set_protocol_states env (all_states enabled)"
| "fw_do env (FwPublished ps) = set_published_app_ports env ps"
| "fw_do env (FwProtocol p on) = (if on then fw_open env p else fw_close env p)"
| "fw_do env (FwRdma on) = (if on then open_rdma env else close_rdma env)"
| "fw_do env (FwDc on) = (if on then open_dc env else close_dc env)"
| "fw_do env (FwWebui https http) = set_webui_ports env https http"
| "fw_do env (FwRestrict f service sources ifaces) = set_restriction env f service sources ifaces"
| "fw_do env (FwServicePorts p ports) = set_service_ports env p (map tcp ports)"
| "fw_do env (FwPortals iscsi nvmeof) = set_portal_ports env (portal_specs 3260 iscsi) (portal_specs 4420 nvmeof)"
| "fw_do env (FwAdd inp) = ignore_result (add_custom_rule env inp)"
| "fw_do env (FwUpdate i inp) = ignore_result (update_custom_rule env i inp)"
| "fw_do env (FwRemove i) = remove_custom_rule env i"

definition fw_step :: "fw_env \<Rightarrow> fw_world \<Rightarrow> fw_op \<Rightarrow> fw_world" where
  "fw_step env w op = snd (fw_do env op w)"

text \<open>
  The environment of an execution: nft is atomic, and the generated identifiers are those of a
  UUID generator, never repeated and without line breaks.
\<close>

definition fw_env_ok :: "fw_env \<Rightarrow> bool" where
  "fw_env_ok env \<longleftrightarrow> nft_atomic env \<and> inj (fw_uuid env) \<and> (\<forall>n. one_line (fw_uuid env n))"

definition unused_ids :: "fw_env \<Rightarrow> nat \<Rightarrow> CustomRule list \<Rightarrow> bool" where
  "unused_ids env n cs \<longleftrightarrow> (\<forall>m\<ge>n. fw_uuid env m \<notin> cr_id ` set cs)"

definition file_ok :: "('a \<Rightarrow> bool) \<Rightarrow> 'a json_file \<Rightarrow> bool" where
  "file_ok P f = (case f of Parsed x \<Rightarrow> P x | _ \<Rightarrow> True)"

definition fw_inv :: "fw_env \<Rightarrow> fw_world \<Rightarrow> bool" where
  "fw_inv env w \<longleftrightarrow>
     config_ok (fw_config w) \<and> live_with (fw_config w) w \<and> relay_in_force w \<and>
     file_ok clean_restrictions (restrictions_file w) \<and>
     file_ok (\<lambda>cs. custom_ok cs \<and> unused_ids env (fw_calls w) cs) (custom_file w) \<and>
     unused_ids env (fw_calls w) (fc_custom (fw_config w))"

text \<open>The files hold what is in memory; a file that was never written stands for its default.\<close>

definition stored :: "'a \<Rightarrow> 'a json_file \<Rightarrow> 'a \<Rightarrow> bool" where
  "stored d f x \<longleftrightarrow> f = Parsed x \<or> f = Absent \<and> x = d"

definition fw_synced_with :: "fw_world \<Rightarrow> FirewallConfig \<Rightarrow> bool" where
  "fw_synced_with w c \<longleftrightarrow>
     stored (fc_restrictions fw_default) (restrictions_file w) (fc_restrictions c) \<and>
     stored [] (custom_file w) (fc_custom c)"

definition fw_synced :: "fw_world \<Rightarrow> bool" where
  "fw_synced w = fw_synced_with w (fw_config w)"

definition proposes :: "fw_env \<Rightarrow> fw_world \<Rightarrow> FirewallConfig \<Rightarrow> staged option \<Rightarrow> bool" where
  "proposes env w c st \<longleftrightarrow>
     config_ok c \<and> unused_ids env (fw_calls w) (fc_custom c) \<and>
     (case st of
        None \<Rightarrow> fw_synced_with w c \<or>
                fc_restrictions c = fc_restrictions (fw_config w) \<and> fc_custom c = fc_custom (fw_config w)
      | Some (StagedRestrictions r) \<Rightarrow> r = fc_restrictions c \<and> fc_custom c = fc_custom (fw_config w)
      | Some (StagedCustom cs) \<Rightarrow> cs = fc_custom c \<and> fc_restrictions c = fc_restrictions (fw_config w))"

text \<open>An operation changes nothing, or commits one sound candidate and reports what came of it.\<close>

definition commits_at :: "fw_env \<Rightarrow> fw_world \<Rightarrow> 'a fw_io \<Rightarrow> bool" where
  "commits_at env w m \<longleftrightarrow>
     same w (snd (m w)) \<or>
     (\<exists>w0 c st r. same w w0 \<and> proposes env w0 c st \<and> commit_candidate env c st w0 = (r, snd (m w)) \<and>
        verdict_of (fst (m w)) = verdict_of r)"

lemma commits_return: "commits_at env w (io_return x)"
  by (simp add: commits_at_def io_defs)

lemma commits_fail: "commits_at env w (io_fail e)"
  by (simp add: commits_at_def io_defs)

lemma commits_get: "commits_at env w (g (f w)) \<Longrightarrow> commits_at env w (io_bind (io_get f) g)"
  by (simp add: commits_at_def io_defs)

lemma commits_lift: "(\<And>x. r = Inr x \<Longrightarrow> commits_at env w (g x)) \<Longrightarrow> commits_at env w (io_bind (io_lift r) g)"
  by (cases r) (simp_all add: commits_at_def io_defs)

lemma commits_quiet:
  assumes "\<And>r w'. m w = (r, w') \<Longrightarrow> same w w'"
    and "\<And>x w'. m w = (Inr x, w') \<Longrightarrow> same w w' \<Longrightarrow> commits_at env w' (g x)"
  shows "commits_at env w (io_bind m g)"
proof -
  obtain r w' where m: "m w = (r, w')" by fastforce
  note s = assms(1) [OF m]
  show ?thesis
  proof (cases r)
    case (Inl e)
    with m s show ?thesis by (simp add: commits_at_def io_defs)
  next
    case (Inr x)
    then have b: "io_bind m g w = g x w'" using m by (simp add: io_defs)
    have "commits_at env w' (g x)" using assms(2) m Inr s by simp
    then consider "same w' (snd (g x w'))"
      | w0 c st r where "same w' w0" "proposes env w0 c st" "commit_candidate env c st w0 = (r, snd (g x w'))"
          "verdict_of (fst (g x w')) = verdict_of r"
      unfolding commits_at_def by blast
    then show ?thesis
    proof cases
      case 1
      with s b show ?thesis by (auto simp: commits_at_def intro: same_trans)
    next
      case 2
      with same_trans [OF s 2(1)] b show ?thesis unfolding commits_at_def by auto
    qed
  qed
qed

lemma commits_commit: "proposes env w c st \<Longrightarrow> commits_at env w (commit_candidate env c st)"
  unfolding commits_at_def
  by (intro disjI2 exI [of _ w] exI [of _ c] exI [of _ st] exI [of _ "fst (commit_candidate env c st w)"]) simp

lemma verdict_of_Inl: "verdict_of (Inl e :: FwError + 'a) = verdict_of (Inl e :: FwError + 'b)"
  by (cases e) simp_all

lemma commits_result:
  assumes "commits_at env w m"
  shows "commits_at env w (io_bind m (\<lambda>y. io_return x))"
proof (cases "m w")
  case (Pair r w')
  then have "snd (io_bind m (\<lambda>y. io_return x) w) = w'" by (cases r) (simp_all add: io_defs)
  moreover have "verdict_of (fst (io_bind m (\<lambda>y. io_return x) w)) = verdict_of r"
    using Pair by (cases r) (simp_all add: io_defs verdict_of_Inl)
  ultimately show ?thesis using assms Pair unfolding commits_at_def by simp
qed

lemma unused_mono: "unused_ids env n cs \<Longrightarrow> n \<le> m \<Longrightarrow> unused_ids env m cs"
  by (simp add: unused_ids_def)

lemma fw_inv_same: "fw_inv env w \<Longrightarrow> same w w' \<Longrightarrow> fw_inv env w'"
  by (auto simp: fw_inv_def same_def fw_core_def relay_in_force_def live_with_def file_ok_def
      intro: unused_mono split: json_file.splits)

lemma propose_state:
  "fw_inv env w \<Longrightarrow> rules_ok (fc_restrictions (fw_config w)) st \<Longrightarrow>
     proposes env w ((fw_config w)\<lparr>fc_state := st\<rparr>) None"
  by (simp add: proposes_def fw_inv_def config_ok_def)

lemma fw_inv_rules: "fw_inv env w \<Longrightarrow> rules_ok (fc_restrictions (fw_config w)) (fc_state (fw_config w))"
  by (simp add: fw_inv_def config_ok_def)

lemma plain_tcp: "\<forall>p\<in>set (map tcp ports). plain p"
  by (simp add: plain_def tcp_def)

lemma plain_portals: "\<forall>p\<in>set (portal_specs d ports). plain p"
  unfolding portal_specs_def by (rule plain_tcp)

lemma set_rule_active_commits:
  assumes "fw_inv env w" "known_service s" "\<forall>p\<in>set ports. plain p"
  shows "commits_at env w (set_rule_active env s ports active)"
proof (cases "ports = []")
  case False
  have "commits_at env w
      (case find (is_service s) (fc_state (fw_config w)) of
         Some rule \<Rightarrow>
           if fr_active rule = active then io_return ()
           else commit_candidate env
             ((fw_config w)\<lparr>fc_state := update_first (is_service s) (\<lambda>r. r\<lparr>fr_active := active\<rparr>) (fc_state (fw_config w))\<rparr>) None
       | None \<Rightarrow>
           commit_candidate env
             ((fw_config w)\<lparr>fc_state := fc_state (fw_config w) @ [new_rule (fc_restrictions (fw_config w)) s ports active]\<rparr>) None)"
    using assms fw_inv_rules [OF assms(1)]
    by (auto split: option.split intro!: commits_return commits_commit propose_state rules_ok_append rules_ok_update)
      (auto simp: rules_ok_def)
  then show ?thesis unfolding set_rule_active_def using False by (auto intro: commits_get)
qed (simp add: set_rule_active_def commits_return)

lemma default_sound:
  "clean_restrictions (fc_restrictions fw_default)" "custom_ok []" "unused_ids env n []"
  by (simp_all add: fw_default_def clean_restrictions_def custom_ok_def unused_ids_def)

lemma stored_ok: "stored d f x \<Longrightarrow> file_ok P f \<Longrightarrow> P d \<Longrightarrow> P x"
  by (auto simp: stored_def file_ok_def)

lemma loads_same:
  "load_restrictions env w = (x, w') \<Longrightarrow> same w w'" "load_custom_rules env w = (y, w') \<Longrightarrow> same w w'"
  "webui_load env f w = (z, w') \<Longrightarrow> same w w'" "stage env s w = (u, w') \<Longrightarrow> same w w'"
  by (auto simp: load_restrictions_def load_custom_rules_def webui_load_def stage_def io_defs dest: file_id_same
      split: prod.splits sum.splits json_file.splits)

lemma loads_stored:
  "load_restrictions env w = (Inr r, w') \<Longrightarrow> stored (fc_restrictions fw_default) (restrictions_file w') r"
  "load_custom_rules env w = (Inr cs, w') \<Longrightarrow> stored [] (custom_file w') cs"
  by (auto simp: load_restrictions_def load_custom_rules_def io_defs stored_def fw_file_def
      split: option.splits json_file.splits)

lemma init_proposes:
  assumes "fw_inv env w" "stored (fc_restrictions fw_default) (restrictions_file w) r" "stored [] (custom_file w) cs"
  shows "proposes env w
    \<lparr>fc_state = initial_rules r l (all_states enabled) rdma dc (portal_specs a iscsi) (portal_specs b nvmeof),
     fc_restrictions = r, fc_custom = cs, fc_published = published\<rparr> None"
proof -
  have "clean_restrictions r" "custom_ok cs \<and> unused_ids env (fw_calls w) cs"
    using assms(1) stored_ok [OF assms(2), of clean_restrictions]
      stored_ok [OF assms(3), of "\<lambda>cs. custom_ok cs \<and> unused_ids env (fw_calls w) cs"] default_sound
    by (simp_all add: fw_inv_def)
  moreover have "rules_ok r (initial_rules r l (all_states enabled) rdma dc (portal_specs a iscsi) (portal_specs b nvmeof))"
    by (intro rules_ok_initial plain_portals) (simp add: all_states_def comp_def)
  ultimately show ?thesis
    using assms(2,3) by (simp add: proposes_def config_ok_def fw_synced_with_def)
qed

lemma init_commits:
  assumes "fw_inv env w"
  shows "commits_at env w (init env f (all_states enabled) rdma dc (portal_specs a iscsi) (portal_specs b nvmeof) published)"
  unfolding init_def
proof (intro commits_quiet commits_commit)
  fix r w1 cs w2 s w3
  assume 1: "load_restrictions env w = (Inr r, w1)" and 2: "load_custom_rules env w1 = (Inr cs, w2)"
    and s: "same w w1" "same w1 w2" "same w2 w3"
  have "fw_inv env w3" using fw_inv_same assms s by blast
  moreover have "stored (fc_restrictions fw_default) (restrictions_file w3) r" "stored [] (custom_file w3) cs"
    using loads_stored(1) [OF 1] loads_stored(2) [OF 2] s by (auto simp: same_def fw_core_def)
  ultimately show "proposes env w3
      \<lparr>fc_state = initial_rules r (confirmed s) (all_states enabled) rdma dc (portal_specs a iscsi) (portal_specs b nvmeof),
       fc_restrictions = r, fc_custom = cs, fc_published = published\<rparr> None" for s
    by (rule init_proposes)
qed (auto intro: loads_same)

lemma ports_commits:
  assumes "fw_inv env w"
  shows "commits_at env w (set_service_ports env p (map tcp ports))"
    and "commits_at env w (set_portal_ports env (portal_specs a iscsi) (portal_specs b nvmeof))"
    and "commits_at env w (set_webui_ports env https http)"
proof -
  note r = fw_inv_rules [OF assms]
  have "rules_ok (fc_restrictions (fw_config w))
      (fst (replace_rule_ports (fc_state (fw_config w)) (fc_restrictions (fw_config w)) (proto_name p) (map tcp ports)))"
    using r known_services(4) plain_tcp by (rule rules_ok_replace)
  then show "commits_at env w (set_service_ports env p (map tcp ports))"
    unfolding set_service_ports_def
    by (intro commits_get) (auto simp: split_beta intro!: commits_return commits_commit propose_state assms)
  have "rules_ok (fc_restrictions (fw_config w))
      (fst (replace_rule_ports (fst (replace_rule_ports (fc_state (fw_config w)) (fc_restrictions (fw_config w))
         (proto_name Iscsi) (portal_specs a iscsi))) (fc_restrictions (fw_config w)) (proto_name Nvmeof) (portal_specs b nvmeof)))"
    by (intro rules_ok_replace r known_services plain_portals)
  then show "commits_at env w (set_portal_ports env (portal_specs a iscsi) (portal_specs b nvmeof))"
    unfolding set_portal_ports_def
    by (intro commits_get) (auto simp: split_beta simp del: proto_name.simps intro!: commits_return commits_commit propose_state assms)
  have "rules_ok (fc_restrictions (fw_config w)) (update_first (is_service ''webui'')
      (\<lambda>r. r\<lparr>fr_ports := restrict (fc_restrictions (fw_config w)) ''webui'' (webui_ports https http)\<rparr>) (fc_state (fw_config w)))"
    using r plain_services(3) by (intro rules_ok_update well_restricted_ports) (auto simp: is_service_def)
  then show "commits_at env w (set_webui_ports env https http)"
    unfolding set_webui_ports_def
    by (intro commits_get) (auto intro!: commits_fail commits_commit propose_state assms split: option.split)
qed

lemma states_commits:
  assumes "fw_inv env w"
  shows "commits_at env w (set_protocol_states env ps)" and "commits_at env w (set_published_app_ports env qs)"
proof -
  have "rules_ok (fc_restrictions (fw_config w)) (fst (protocol_states ps (fc_state (fw_config w), False)))"
    using fw_inv_rules [OF assms] by (intro rules_ok_protocol_states) simp
  then show "commits_at env w (set_protocol_states env ps)"
    unfolding set_protocol_states_def
    by (intro commits_get) (auto simp: split_beta intro!: commits_return commits_commit propose_state assms)
  have "proposes env w ((fw_config w)\<lparr>fc_published := q\<rparr>) None" for q
    using assms by (simp add: proposes_def fw_inv_def config_ok_def)
  then show "commits_at env w (set_published_app_ports env qs)"
    unfolding set_published_app_ports_def Let_def by (intro commits_get) (auto intro: commits_return commits_commit)
qed

lemma default_ports_same: "default_ports env f s w = (r, w') \<Longrightarrow> same w w'"
  by (auto simp: default_ports_def io_defs dest: loads_same split: if_splits option.splits prod.splits sum.splits)

lemma stage_result: "stage env s w = (Inr s', w') \<Longrightarrow> s' = s"
  by (auto simp: stage_def io_defs split: prod.splits sum.splits)

lemma set_restriction_commits:
  assumes "fw_inv env w"
  shows "commits_at env w (set_restriction env f service sources ifaces)"
  unfolding set_restriction_def Let_def
proof (rule commits_lift, rule commits_quiet, erule default_ports_same, rule commits_get, rule commits_quiet, erule loads_same)
  fix u d and w1 :: fw_world and s w2
  let ?c = "restricted_config (fw_config w1) service d sources ifaces"
  assume check: "check_restriction sources ifaces = Inr u" and s1: "same w w1" and s2: "same w1 w2"
    and st: "stage env (StagedRestrictions (fc_restrictions ?c)) w1 = (Inr s, w2)"
  have inv: "fw_inv env w2" using fw_inv_same assms s1 s2 by blast
  have c: "fw_config w2 = fw_config w1" using s2 by (simp add: same_def fw_core_def)
  have "config_ok ?c" using restricted_config_ok inv check unfolding c fw_inv_def by auto
  moreover have "fc_custom ?c = fc_custom (fw_config w1)" by (simp add: restricted_config_def Let_def)
  ultimately have "proposes env w2 ?c (Some s)"
    using inv c stage_result [OF st] by (simp add: proposes_def fw_inv_def)
  then show "commits_at env w2 (commit_candidate env ?c (Some s))" by (rule commits_commit)
qed

lemma custom_commits:
  assumes "fw_inv env w" "custom_ok cs" "unused_ids env (Suc (fw_calls w)) cs"
  shows "commits_at env w (io_bind (stage env (StagedCustom cs)) (\<lambda>s.
    commit_candidate env ((fw_config w)\<lparr>fc_custom := cs\<rparr>) (Some s)))"
proof (rule commits_quiet, erule loads_same)
  fix s w'
  assume st: "stage env (StagedCustom cs) w = (Inr s, w')" and sm: "same w w'"
  have "fw_calls w' = Suc (fw_calls w)"
    using st by (auto simp: stage_def io_defs fw_file_def split: option.splits)
  moreover have "fw_config w' = fw_config w" using sm by (simp add: same_def fw_core_def)
  ultimately have "proposes env w' ((fw_config w)\<lparr>fc_custom := cs\<rparr>) (Some s)"
    using fw_inv_same [OF assms(1) sm] assms(2,3) stage_result [OF st]
    by (simp add: proposes_def fw_inv_def config_ok_def)
  then show "commits_at env w' (commit_candidate env ((fw_config w)\<lparr>fc_custom := cs\<rparr>) (Some s))"
    by (rule commits_commit)
qed

lemma unused_subset: "unused_ids env n cs \<Longrightarrow> set cs' \<subseteq> set cs \<Longrightarrow> n \<le> m \<Longrightarrow> unused_ids env m cs'"
  unfolding unused_ids_def by (meson image_mono le_trans subsetD)

lemma add_commits:
  assumes "fw_env_ok env" "fw_inv env w"
  shows "commits_at env w (add_custom_rule env inp)"
  unfolding add_custom_rule_def Let_def
proof (intro commits_lift commits_get)
  fix u v
  let ?cs = "fc_custom (fw_config w) @ [custom_of (fw_uuid env (fw_calls w)) inp]"
  assume v: "map_sum FwInvalid id (validate_custom_input inp) = Inr u"
    and k: "check_custom (fw_config w) (\<lambda>_. True) inp = Inr v"
  have "validate_custom_input inp = Inr ()" using v by (cases "validate_custom_input inp") auto
  moreover have "\<not> list_ex (\<lambda>r. same_rule r inp) (fc_custom (fw_config w))"
    using k by (auto simp: check_custom_def res_simps split: option.splits)
  moreover have ids: "unused_ids env (fw_calls w) (fc_custom (fw_config w))" and
    "custom_ok (fc_custom (fw_config w))" using assms(2) by (simp_all add: fw_inv_def config_ok_def)
  moreover have "one_line (fw_uuid env (fw_calls w))" using assms(1) by (simp add: fw_env_ok_def)
  ultimately have ok: "custom_ok ?cs" by (intro custom_ok_add) (auto simp: unused_ids_def)
  have "fw_uuid env m \<noteq> fw_uuid env (fw_calls w)" if "Suc (fw_calls w) \<le> m" for m
    using assms(1) that by (auto simp: fw_env_ok_def dest: injD)
  then have "unused_ids env (Suc (fw_calls w)) ?cs"
    using ids by (auto simp: unused_ids_def custom_of_def)
  then have "commits_at env w (io_bind (io_bind (stage env (StagedCustom ?cs)) (\<lambda>s.
      commit_candidate env ((fw_config w)\<lparr>fc_custom := ?cs\<rparr>) (Some s))) (\<lambda>_. io_return (custom_of (fw_uuid env (fw_calls w)) inp)))"
    by (intro commits_result custom_commits assms(2) ok)
  then show "commits_at env w (io_bind (stage env (StagedCustom (fc_custom ((fw_config w)\<lparr>fc_custom := ?cs\<rparr>)))) (\<lambda>s.
      io_bind (commit_candidate env ((fw_config w)\<lparr>fc_custom := ?cs\<rparr>) (Some s)) (\<lambda>_. io_return (custom_of (fw_uuid env (fw_calls w)) inp))))"
    by (simp add: io_bind_assoc)
qed

lemma update_commits:
  assumes "fw_inv env w"
  shows "commits_at env w (update_custom_rule env i inp)"
  unfolding update_custom_rule_def Let_def
proof (intro commits_lift commits_get)
  fix u v
  let ?cs = "update_first (\<lambda>r. cr_id r = i) (\<lambda>r. custom_of (cr_id r) inp) (fc_custom (fw_config w))"
  assume v: "map_sum FwInvalid id (validate_custom_input inp) = Inr u"
    and k: "check_custom (fw_config w) (\<lambda>r. cr_id r \<noteq> i) inp = Inr v"
  have "validate_custom_input inp = Inr ()" using v by (cases "validate_custom_input inp") auto
  moreover have "\<not> list_ex (\<lambda>r. cr_id r \<noteq> i \<and> same_rule r inp) (fc_custom (fw_config w))"
    using k by (auto simp: check_custom_def res_simps split: option.splits)
  moreover have "custom_ok (fc_custom (fw_config w))" using assms by (simp add: fw_inv_def config_ok_def)
  ultimately have ok: "custom_ok ?cs" by (intro custom_ok_update)
  have ids: "map cr_id ?cs = map cr_id (fc_custom (fw_config w))"
    by (rule map_update_first) (simp add: custom_of_def)
  have "unused_ids env (fw_calls w) (fc_custom (fw_config w))" using assms by (simp add: fw_inv_def)
  then have "unused_ids env (Suc (fw_calls w)) ?cs"
    unfolding unused_ids_def using ids by (metis Suc_leD set_map)
  then have "commits_at env w (io_bind (io_bind (stage env (StagedCustom ?cs)) (\<lambda>s.
      commit_candidate env ((fw_config w)\<lparr>fc_custom := ?cs\<rparr>) (Some s))) (\<lambda>_. io_return (custom_of i inp)))"
    by (intro commits_result custom_commits assms ok)
  then show "commits_at env w
      (case find (\<lambda>r. cr_id r = i) (fc_custom (fw_config w)) of None \<Rightarrow> io_fail (FwNoSuchRule i)
       | Some _ \<Rightarrow> io_bind (stage env (StagedCustom (fc_custom ((fw_config w)\<lparr>fc_custom := ?cs\<rparr>)))) (\<lambda>s.
           io_bind (commit_candidate env ((fw_config w)\<lparr>fc_custom := ?cs\<rparr>) (Some s)) (\<lambda>_. io_return (custom_of i inp))))"
    by (simp add: io_bind_assoc commits_fail split: option.split)
qed

lemma remove_commits:
  assumes "fw_inv env w"
  shows "commits_at env w (remove_custom_rule env i)"
  unfolding remove_custom_rule_def Let_def
proof (rule commits_get)
  let ?cs = "filter (\<lambda>r. cr_id r \<noteq> i) (fc_custom (fw_config w))"
  have "custom_ok ?cs" "unused_ids env (Suc (fw_calls w)) ?cs"
    using assms by (auto simp: fw_inv_def config_ok_def intro: custom_ok_remove unused_subset)
  then show "commits_at env w (if length ?cs = length (fc_custom (fw_config w)) then io_fail (FwNoSuchRule i)
      else io_bind (stage env (StagedCustom ?cs)) (\<lambda>s. commit_candidate env ((fw_config w)\<lparr>fc_custom := ?cs\<rparr>) (Some s)))"
    by (simp add: commits_fail custom_commits [OF assms])
qed

lemma fw_do_commits:
  assumes "fw_env_ok env" "fw_inv env w"
  shows "commits_at env w (fw_do env op)"
  using assms plain_protocol plain_services(1,2)
  by (cases op)
    (auto simp: fw_open_def fw_close_def open_rdma_def close_rdma_def open_dc_def close_dc_def ignore_result_def
      simp del: proto_name.simps
      intro!: init_commits states_commits set_rule_active_commits ports_commits set_restriction_commits
        commits_result add_commits update_commits remove_commits)

lemma file_ok_mono:
  "file_ok (\<lambda>cs. custom_ok cs \<and> unused_ids env n cs) f \<Longrightarrow> n \<le> m \<Longrightarrow>
     file_ok (\<lambda>cs. custom_ok cs \<and> unused_ids env m cs) f"
  by (auto simp: file_ok_def intro: unused_mono split: json_file.splits)

lemma commit_inv:
  assumes "fw_env_ok env" "fw_inv env w" "proposes env w c st" "commit_candidate env c st w = (r, w')"
  shows "fw_inv env w'"
proof -
  have s: "settled c st (verdict_of r) w w'"
    using commit_candidate_outcome [OF _ _ _ assms(4)] assms(1,2) by (simp add: fw_env_ok_def fw_inv_def)
  have le: "fw_calls w \<le> fw_calls w'" using s by (simp add: settled_def)
  note unused = unused_mono [OF _ le] and files = file_ok_mono [OF _ le]
  show ?thesis
  proof (cases "verdict_of r")
    case Unchanged
    then show ?thesis using s assms(2) unused files
      by (auto simp: settled_def fw_core_def fw_inv_def live_with_def)
  next
    case Committed
    then show ?thesis using s assms(2,3) unused files
      by (auto simp: settled_def fw_inv_def live_with_def proposes_def config_ok_def written_def file_ok_def
          split: option.splits staged.splits)
  next
    case Degraded
    then show ?thesis using s assms(2,3) unused files
      by (auto simp: settled_def fw_inv_def live_with_def proposes_def)
  qed
qed

lemma fw_step_inv: "fw_env_ok env \<Longrightarrow> fw_inv env w \<Longrightarrow> fw_inv env (fw_step env w op)"
  using fw_do_commits [of env w op] fw_inv_same commit_inv
  unfolding commits_at_def fw_step_def by metis

interpretation fw: machine "fw_step env" "\<lambda>w. fw_env_ok env \<and> fw_inv env w" for env
  by unfold_locales (auto intro: fw_step_inv)

lemma settled_synced:
  assumes "settled c st Committed w w'" "proposes env w c st" "fw_synced w"
  shows "fw_synced w'"
  using assms
  by (auto simp: settled_def fw_synced_def fw_synced_with_def live_with_def proposes_def written_def stored_def
      split: option.splits staged.splits)

section \<open>Properties\<close>

lemma rules_ok_restricted:
  "rules_ok r st \<Longrightarrow> x \<in> set st \<Longrightarrow> p \<in> set (fr_ports x) \<Longrightarrow>
     restricted (sources_of r (fr_service x)) (ifaces_of r (fr_service x)) p"
proof -
  assume "rules_ok r st" "x \<in> set st" and p: "p \<in> set (fr_ports x)"
  then obtain base where "fr_ports x = restrict r (fr_service x) base"
    by (auto simp: rules_ok_def well_restricted_def)
  with p show ?thesis by (metis restrict_restricted)
qed

lemma known_service_one_line: "known_service s \<Longrightarrow> one_line s"
proof -
  have "one_line (proto_name p)" for p by (cases p) simp_all
  then show "known_service s \<Longrightarrow> one_line s" by (auto simp: known_service_def dest: from_name_Some)
qed

lemma restriction_values:
  assumes "clean_restrictions r"
  shows "x \<in> set (sources_of r s) \<Longrightarrow> valid_source x" "x \<in> set (ifaces_of r s) \<Longrightarrow> valid_iface x"
  using assms map_of_SomeD [of "res_services r" s] map_of_SomeD [of "res_interfaces r" s]
  by (cases "map_of (res_services r) s"; cases "map_of (res_interfaces r) s";
      fastforce simp: sources_of_def ifaces_of_def clean_restrictions_def)+

lemma restrict_conds:
  "\<forall>p\<in>set base. plain p \<Longrightarrow> q \<in> set (restrict r s base) \<Longrightarrow>
     (ps_source q = None \<or> ps_source q \<in> Some ` set (sources_of r s)) \<and>
     (ps_iface q = None \<or> ps_iface q \<in> Some ` set (ifaces_of r s))"
  by (auto simp: restrict_def apply_restrictions_def plain_def split: if_splits)

lemma config_clean:
  assumes "config_ok c"
  shows "list_all clean_rule (fc_state c)" "list_all clean_custom (fc_custom c)"
proof -
  have "clean_conds (ps_source p) (ps_iface p)" if "x \<in> set (fc_state c)" "p \<in> set (fr_ports x)" for x p
  proof -
    from assms that obtain base where "\<forall>p\<in>set base. plain p" "fr_ports x = restrict (fc_restrictions c) (fr_service x) base"
      by (auto simp: config_ok_def rules_ok_def well_restricted_def)
    then have "(ps_source p = None \<or> ps_source p \<in> Some ` set (sources_of (fc_restrictions c) (fr_service x))) \<and>
        (ps_iface p = None \<or> ps_iface p \<in> Some ` set (ifaces_of (fc_restrictions c) (fr_service x)))"
      using restrict_conds that(2) by metis
    moreover have "clean_restrictions (fc_restrictions c)" using assms by (simp add: config_ok_def)
    ultimately show ?thesis
      using restriction_values [of "fc_restrictions c" _ "fr_service x"]
      by (cases "ps_source p"; cases "ps_iface p") (auto simp: clean_conds_def)
  qed
  then show "list_all clean_rule (fc_state c)"
    using assms known_service_one_line by (auto simp: list_all_iff clean_rule_def config_ok_def rules_ok_def)
  show "list_all clean_custom (fc_custom c)" using assms by (simp add: list_all_iff config_ok_def custom_ok_def)
qed

lemma transaction_lines:
  assumes "config_ok c"
  shows "split_char (CHR 0x0A) (fw_transaction c) =
    (''destroy table inet nasty'' # ruleset_lines (fc_state c) (fc_custom c) (fc_published c)) @ [[]]"
proof -
  let ?ls = "''destroy table inet nasty'' # ruleset_lines (fc_state c) (fc_custom c) (fc_published c)"
  have "fw_transaction c = text_of_lines ?ls"
    by (simp add: fw_transaction_def render_transaction_def render_ruleset_with_published_def text_of_lines_def)
  moreover have "\<forall>l\<in>set ?ls. one_line l" using ruleset_lines_one_line [OF config_clean [OF assms]] by simp
  ultimately show ?thesis by (metis split_text_of_lines)
qed

text \<open>
  C9. In every execution of the firewall service, whatever calls fail, as long as an nft call that
  fails has changed nothing, the table in the kernel is the one rendered from the configuration in memory, so the status shown is the policy in force;
  the relay's chain holds the relay's persisted policy; and no rule lets a source or interface
  through that the restriction of its service excludes.
\<close>
theorem restrictions_always_in_force:
  assumes "fw_env_ok env" "fw_inv env w" and "w' = run_steps (fw_step env) w ops"
  shows "fw_table w' = fw_transaction (fw_config w') \<and>
    chain_rules (fw_relay w') = contents (policy_file (fw_relay w')) \<and>
    (\<forall>x\<in>set (fc_state (fw_config w')). \<forall>p\<in>set (fr_ports x).
       restricted (sources_of (fc_restrictions (fw_config w')) (fr_service x))
         (ifaces_of (fc_restrictions (fw_config w')) (fr_service x)) p)"
proof -
  have "fw_inv env w'" using fw.run_inv [of env w ops] assms by simp
  then show ?thesis
    using rules_ok_restricted by (auto simp: fw_inv_def live_with_def relay_in_force_def config_ok_def)
qed

text \<open>
  C10. A firewall operation is atomic, as long as an nft call that fails has changed nothing: when
  the operation fails, memory, table and files are as before, except when storing the new policy and restoring the old rules both fail, which the error reports;
  then the files are as before and memory follows the table. When it succeeds from a state whose
  files agree with memory, they agree again.
\<close>
theorem firewall_operation_atomic:
  assumes "fw_env_ok env" "fw_inv env w" "fw_synced w" "fw_do env op w = (r, w')"
  shows "(case verdict_of r of
      Committed \<Rightarrow> fw_synced w'
    | Unchanged \<Rightarrow> fw_core w' = fw_core w
    | Degraded \<Rightarrow> restrictions_file w' = restrictions_file w \<and> custom_file w' = custom_file w \<and>
        fw_table w' = fw_transaction (fw_config w'))"
proof -
  consider "same w w'"
    | w0 c st r0 where "same w w0" "proposes env w0 c st" "commit_candidate env c st w0 = (r0, w')"
        "verdict_of r = verdict_of r0"
    using fw_do_commits [OF assms(1,2), of op] assms(4) unfolding commits_at_def by auto
  then show ?thesis
  proof cases
    case 1
    with assms(2,3) show ?thesis
      by (auto simp: same_def fw_core_def fw_synced_def fw_synced_with_def fw_inv_def live_with_def split: verdict.splits)
  next
    case 2
    have inv: "fw_inv env w0" using fw_inv_same assms(2) 2(1) by blast
    have "settled c st (verdict_of r) w0 w'"
      using commit_candidate_outcome [OF _ _ _ 2(3)] inv assms(1) 2(4) by (simp add: fw_env_ok_def fw_inv_def)
    moreover have "fw_synced w0" using assms(3) 2(1) by (simp add: same_def fw_core_def fw_synced_def fw_synced_with_def)
    moreover have "fw_core w0 = fw_core w" using 2(1) by (simp add: same_def)
    ultimately show ?thesis
      using settled_synced [OF _ 2(2)]
      by (cases "verdict_of r") (auto simp: settled_def live_with_def fw_core_def)
  qed
qed

text \<open>
  C21. In every execution the batch given to nft has exactly the lines of the rules: no name,
  address, interface or identifier in the configuration can add a command.
\<close>
theorem firewall_batch_no_injection:
  assumes "fw_env_ok env" "fw_inv env w" and "w' = run_steps (fw_step env) w ops"
  shows "split_char (CHR 0x0A) (fw_table w') =
    (''destroy table inet nasty'' # ruleset_lines (fc_state (fw_config w')) (fc_custom (fw_config w'))
       (fc_published (fw_config w'))) @ [[]]"
proof -
  have "fw_inv env w'" using fw.run_inv [of env w ops] assms by simp
  then show ?thesis using transaction_lines by (simp add: fw_inv_def live_with_def)
qed

lemma commit_candidate_config: "commit_candidate env c st w = (Inr u, w') \<Longrightarrow> fw_config w' = c"
  by (auto simp: commit_candidate_def persist_or_restore_def io_defs split: option.splits prod.splits sum.splits)

lemma set_restriction_config:
  assumes "set_restriction env f s sources ifaces w = (Inr (), w')"
  shows "\<exists>d. fw_config w' = restricted_config (fw_config w) s d sources ifaces"
proof -
  obtain r1 w1 where 1: "default_ports env f s w = (r1, w1)" by fastforce
  from assms 1 obtain d where d: "r1 = Inr d"
    by (cases r1) (auto simp: set_restriction_def io_defs split: sum.splits)
  let ?c = "restricted_config (fw_config w1) s d sources ifaces"
  obtain r2 w2 where 2: "stage env (StagedRestrictions (fc_restrictions ?c)) w1 = (r2, w2)" by fastforce
  from assms 1 2 d obtain st where "commit_candidate env ?c (Some st) w2 = (Inr (), w')"
    by (cases r2) (auto simp: set_restriction_def io_defs Let_def split: sum.splits)
  moreover have "fw_config w1 = fw_config w" using default_ports_same [OF 1] by (simp add: same_def fw_core_def)
  ultimately show ?thesis using commit_candidate_config by metis
qed

lemma find_update_first:
  "find p xs = Some x \<Longrightarrow> p (f x) \<Longrightarrow> find p (update_first p f xs) = Some (f x)"
  by (induction xs) (auto split: if_splits)

lemma restricted_config_rule:
  assumes "find (is_service s) (fc_state c) = Some x"
  shows "find (is_service s) (fc_state (restricted_config c s d sources ifaces)) =
    Some (x\<lparr>fr_ports := apply_restrictions (base_ports [] (fr_ports x)) sources ifaces\<rparr>)"
proof -
  have "is_service s x" using assms find_set by metis
  then show ?thesis
    using assms by (auto simp: restricted_config_def Let_def is_service_def intro!: find_update_first)
qed

text \<open>
  C22. Lifting a restriction gives back what was restricted: for a rule with plain ports, a
  restriction and its removal, both successful, leave the rule as it was and no restriction; in
  between the rule has its ports once for each allowed source and interface.
\<close>
theorem restriction_round_trip:
  assumes "find (is_service s) (fc_state (fw_config w)) = Some x"
    and "list_all plain (fr_ports x)" "distinct (fr_ports x)"
    and "set_restriction env f s sources ifaces w = (Inr (), w1)"
    and "set_restriction env f' s [] [] w1 = (Inr (), w2)"
  shows "find (is_service s) (fc_state (fw_config w1)) = Some (x\<lparr>fr_ports := apply_restrictions (fr_ports x) sources ifaces\<rparr>) \<and>
    find (is_service s) (fc_state (fw_config w2)) = Some x \<and>
    sources_of (fc_restrictions (fw_config w2)) s = [] \<and> ifaces_of (fc_restrictions (fw_config w2)) s = []"
proof -
  obtain d where c1: "fw_config w1 = restricted_config (fw_config w) s d sources ifaces"
    using set_restriction_config [OF assms(4)] by blast
  obtain d' where c2: "fw_config w2 = restricted_config (fw_config w1) s d' [] []"
    using set_restriction_config [OF assms(5)] by blast
  have base: "base_ports [] (apply_restrictions (fr_ports x) a b) = fr_ports x" for a b
    using base_ports_restrictions [of "fr_ports x" "[]"] assms(2,3) by (simp add: list_all_iff)
  from base [of "[]" "[]"] have b0: "base_ports [] (fr_ports x) = fr_ports x" by (simp add: apply_restrictions_def)
  let ?y = "x\<lparr>fr_ports := apply_restrictions (fr_ports x) sources ifaces\<rparr>"
  have 1: "find (is_service s) (fc_state (fw_config w1)) = Some ?y"
    using restricted_config_rule [OF assms(1)] unfolding c1 b0 .
  have "find (is_service s) (fc_state (fw_config w2)) = Some x"
    using restricted_config_rule [OF 1, of d' "[]" "[]"] base unfolding c2 by (simp add: apply_restrictions_def)
  moreover have "sources_of (fc_restrictions (fw_config w2)) s = []" "ifaces_of (fc_restrictions (fw_config w2)) s = []"
    unfolding c2 by (simp_all add: restricted_config_def Let_def sources_of_set_entry ifaces_of_set_entry)
  ultimately show ?thesis using 1 by simp
qed

section \<open>Witnesses\<close>

definition fw_ex_env :: fw_env where
  "fw_ex_env = \<lparr>fw_files = (\<lambda>_. None), fw_policy = (\<lambda>_. None), fw_nft = (\<lambda>_. NftOk), fw_uuid = show_nat,
                fw_vars = \<lparr>https_var = None, http_var = None\<rparr>\<rparr>"

definition fw_ex_world :: fw_world where
  "fw_ex_world = \<lparr>fw_config = fw_default, restrictions_file = Absent, custom_file = Absent,
                  fw_table = fw_transaction fw_default,
                  fw_relay = \<lparr>conf_file = None, policy_file = None, chain_rules = [], daemon = False, calls = 0\<rparr>,
                  fw_calls = 0\<rparr>"

definition fw_ex_ops :: "fw_op list" where
  "fw_ex_ops = [FwInit Absent (\<lambda>p. p = Ssh) False False [] [] [], FwRestrict Absent ''ssh'' [''10.0.0.0/8''] []]"

lemma fw_ex_env_ok: "fw_env_ok fw_ex_env"
  using show_nat_digits not_digit_newline
  by (auto simp: fw_env_ok_def fw_ex_env_def nft_atomic_def inj_def one_line_def list_all_iff)

lemma fw_ex_inv: "fw_inv fw_ex_env fw_ex_world" "fw_synced fw_ex_world"
  by (simp_all add: fw_inv_def fw_ex_world_def config_ok_def fw_default_def rules_ok_def clean_restrictions_def
      custom_ok_def live_with_def relay_in_force_def contents_def file_ok_def unused_ids_def fw_synced_def
      fw_synced_with_def stored_def)

lemma fw_ex_ssh:
  "find (is_service ''ssh'') (fc_state (fw_config (run_steps (fw_step fw_ex_env) fw_ex_world fw_ex_ops))) =
     Some \<lparr>fr_service = ''ssh'', fr_ports = [(tcp 22)\<lparr>ps_source := Some ''10.0.0.0/8''\<rparr>], fr_active = True\<rparr>"
  by code_simp

theorem restrictions_always_in_force_witness:
  "fw_table (run_steps (fw_step fw_ex_env) fw_ex_world fw_ex_ops) =
     fw_transaction (fw_config (run_steps (fw_step fw_ex_env) fw_ex_world fw_ex_ops)) \<and>
   restricted
     (sources_of (fc_restrictions (fw_config (run_steps (fw_step fw_ex_env) fw_ex_world fw_ex_ops))) ''ssh'')
     (ifaces_of (fc_restrictions (fw_config (run_steps (fw_step fw_ex_env) fw_ex_world fw_ex_ops))) ''ssh'')
     ((tcp 22)\<lparr>ps_source := Some ''10.0.0.0/8''\<rparr>)"
  using restrictions_always_in_force [OF fw_ex_env_ok fw_ex_inv(1) refl, of fw_ex_ops] find_set [OF fw_ex_ssh]
  by force

text \<open>Adding a rule while the disk is full: the old rules are applied again.\<close>

definition fw_ex_full :: fw_env where
  "fw_ex_full = fw_ex_env\<lparr>fw_files := (\<lambda>n. if n = 3 then Some ''disk full'' else None)\<rparr>"

definition fw_ex_input :: CustomRuleInput where
  "fw_ex_input = \<lparr>ci_label = ''Plex'', ci_transport = Tcp, ci_from = 32400, ci_to = 32400, ci_source = None,
                  ci_iface = None, ci_enabled = True\<rparr>"

lemma fw_ex_full_ok: "fw_env_ok fw_ex_full" "fw_inv fw_ex_full fw_ex_world"
  using fw_ex_env_ok fw_ex_inv(1)
  by (simp_all add: fw_ex_full_def fw_env_ok_def nft_atomic_def fw_inv_def unused_ids_def)

lemma fw_ex_full_result: "fst (fw_do fw_ex_full (FwAdd fw_ex_input) fw_ex_world) = Inl (FwPersist (FwIo ''disk full''))"
  by code_simp

theorem firewall_operation_atomic_witness:
  "fst (fw_do fw_ex_full (FwAdd fw_ex_input) fw_ex_world) = Inl (FwPersist (FwIo ''disk full'')) \<and>
   fw_core (snd (fw_do fw_ex_full (FwAdd fw_ex_input) fw_ex_world)) = fw_core fw_ex_world"
  using firewall_operation_atomic [OF fw_ex_full_ok fw_ex_inv(2) prod.collapse [symmetric], of "FwAdd fw_ex_input"]
    fw_ex_full_result by simp

theorem firewall_batch_no_injection_witness:
  "\<exists>ls. split_char (CHR 0x0A) (fw_table (run_steps (fw_step fw_ex_env) fw_ex_world fw_ex_ops)) =
     (''destroy table inet nasty'' # ls) @ [[]]"
  using firewall_batch_no_injection [OF fw_ex_env_ok fw_ex_inv(1) refl, of fw_ex_ops] by blast

definition fw_ex_ready :: fw_world where
  "fw_ex_ready = run_steps (fw_step fw_ex_env) fw_ex_world (take 1 fw_ex_ops)"

definition fw_ex_limited :: fw_world where
  "fw_ex_limited = snd (set_restriction fw_ex_env Absent ''ssh'' [''10.0.0.0/8''] [] fw_ex_ready)"

definition fw_ex_lifted :: fw_world where
  "fw_ex_lifted = snd (set_restriction fw_ex_env Absent ''ssh'' [] [] fw_ex_limited)"

lemma fw_ex_rule:
  "find (is_service ''ssh'') (fc_state (fw_config fw_ex_ready)) =
     Some \<lparr>fr_service = ''ssh'', fr_ports = [tcp 22], fr_active = True\<rparr>"
  by code_simp

lemma fw_ex_restrict_ok:
  "fst (set_restriction fw_ex_env Absent ''ssh'' [''10.0.0.0/8''] [] fw_ex_ready) = Inr ()"
  "fst (set_restriction fw_ex_env Absent ''ssh'' [] [] fw_ex_limited) = Inr ()"
  by code_simp+

theorem restriction_round_trip_witness:
  "find (is_service ''ssh'') (fc_state (fw_config fw_ex_lifted)) =
     Some \<lparr>fr_service = ''ssh'', fr_ports = [tcp 22], fr_active = True\<rparr>"
proof -
  have 1: "set_restriction fw_ex_env Absent ''ssh'' [''10.0.0.0/8''] [] fw_ex_ready = (Inr (), fw_ex_limited)"
    using fw_ex_restrict_ok(1) unfolding fw_ex_limited_def by (metis prod.collapse)
  have 2: "set_restriction fw_ex_env Absent ''ssh'' [] [] fw_ex_limited = (Inr (), fw_ex_lifted)"
    using fw_ex_restrict_ok(2) unfolding fw_ex_lifted_def by (metis prod.collapse)
  show ?thesis
    using restriction_round_trip [OF fw_ex_rule _ _ 1 2] by (simp add: plain_def tcp_def)
qed

end
