(* ===== verification/Json.thy ===== *)
theory Json
  imports Prelude "HOL-Library.Char_ord" "HOL-Library.List_Lexorder"
begin

text \<open>
  JSON values as the code manipulates them through \<open>serde_json::Value\<close>. An object is the list of
  its entries in the order of a \<open>BTreeMap\<close>, sorted by key with every key once (\<open>wf_obj\<close>), so two
  values are equal when the lists are. Numbers are the integers the code writes.
\<close>

datatype json =
    JNull
  | JBool bool
  | JNum int
  | JStr string
  | JArr "json list"
  | JObj "(string \<times> json) list"

fun obj_insert :: "string \<Rightarrow> json \<Rightarrow> (string \<times> json) list \<Rightarrow> (string \<times> json) list" where
  "obj_insert k v [] = [(k, v)]"
| "obj_insert k v ((k', v') # m) =
     (if k = k' then (k, v) # m
      else if k < k' then (k, v) # (k', v') # m
      else (k', v') # obj_insert k v m)"

definition jobj :: "(string \<times> json) list \<Rightarrow> json" where
  "jobj kvs = JObj (fold (\<lambda>(k, v). obj_insert k v) kvs [])"

text \<open>\<open>Value::get\<close>; indexing a shared value, which gives null where there is nothing.\<close>

fun jget :: "string \<Rightarrow> json \<Rightarrow> json option" where
  "jget k (JObj m) = map_of m k"
| "jget k _ = None"

definition jindex :: "string \<Rightarrow> json \<Rightarrow> json" where
  "jindex k v = (case jget k v of None \<Rightarrow> JNull | Some x \<Rightarrow> x)"

fun as_array :: "json \<Rightarrow> json list option" where
  "as_array (JArr xs) = Some xs"
| "as_array _ = None"

fun as_str :: "json \<Rightarrow> string option" where
  "as_str (JStr s) = Some s"
| "as_str _ = None"

text \<open>
  Assignment through a mutable index: null becomes an object, anything else that is no object
  panics, which is \<open>None\<close>.
\<close>

fun jset :: "string \<Rightarrow> json \<Rightarrow> json \<Rightarrow> json option" where
  "jset k x (JObj m) = Some (JObj (obj_insert k x m))"
| "jset k x JNull = Some (JObj [(k, x)])"
| "jset k x _ = None"

definition wf_obj :: "(string \<times> json) list \<Rightarrow> bool" where
  "wf_obj m \<longleftrightarrow> sorted_wrt (<) (map fst m)"

lemma map_of_obj_insert [simp]: "map_of (obj_insert k v m) = (map_of m)(k \<mapsto> v)"
  by (induction m) (auto simp: fun_eq_iff)

lemma keys_obj_insert [simp]: "fst ` set (obj_insert k v m) = insert k (fst ` set m)"
  by (induction k v m rule: obj_insert.induct) (simp_all add: insert_commute)

lemma wf_obj_insert: "wf_obj m \<Longrightarrow> wf_obj (obj_insert k v m)"
  unfolding wf_obj_def
proof (induction m)
  case (Cons a m)
  obtain k' v' where a: "a = (k', v')" by fastforce
  have "fst ` set (obj_insert k v m) = insert k (fst ` set m)" by simp
  then have "\<forall>x\<in>set (map fst (obj_insert k v m)). x = k \<or> x \<in> set (map fst m)" by auto
  with Cons a show ?case by (auto intro: less_trans)
qed simp

lemma wf_obj_filter: "wf_obj m \<Longrightarrow> wf_obj (filter P m)"
  unfolding wf_obj_def by (induction m) auto

lemma wf_obj_distinct: "wf_obj m \<Longrightarrow> distinct (map fst m)"
  unfolding wf_obj_def by (simp add: strict_sorted_iff)

lemma map_of_filter_distinct:
  "distinct (map fst m) \<Longrightarrow> map_of (filter P m) k = (case map_of m k of Some v \<Rightarrow> if P (k, v) then Some v else None | None \<Rightarrow> None)"
  by (induction m) (auto split: option.splits dest: map_of_SomeD simp: rev_image_eqI)

text \<open>Replacing the value of a key an object has keeps the places of the entries.\<close>

lemma obj_insert_replace:
  "wf_obj m \<Longrightarrow> k \<in> fst ` set m \<Longrightarrow> obj_insert k v m = map (\<lambda>e. if fst e = k then (k, v) else e) m"
proof (induction m)
  case (Cons a m)
  obtain k' v' where a: "a = (k', v')" by fastforce
  show ?case
  proof (cases "k = k'")
    case True
    with Cons.prems a have "k \<notin> fst ` set m" by (auto simp: wf_obj_def)
    then have "map (\<lambda>e. if fst e = k then (k, v) else e) m = m"
      by (intro map_idI) force
    with True a show ?thesis by simp
  next
    case False
    with Cons.prems a have k: "k \<in> fst ` set m" by simp
    with Cons.prems a have "k' < k" by (auto simp: wf_obj_def)
    with Cons k False a show ?thesis by (auto simp: wf_obj_def)
  qed
qed simp

end
