(* ===== verification/Webui.thy ===== *)
theory Webui
  imports Firewall Json
begin

text \<open>
  The confirm-or-rollback change of the WebUI's listener ports
  (\<open>engine/nasty-system/src/webui.rs\<close>). An update journals the candidate, opens its ports in the
  firewall and moves Caddy's listeners; it becomes final when it is confirmed over the new
  listener in time, and is rolled back otherwise. The handlers take the firewall as an argument,
  as they do in the source: \<open>set_ports\<close> is its operation on the ports of the WebUI, over any
  firewall world, and the locale \<open>listener_firewall\<close> states what the handlers rely on.

  Caddy is outside the repository. Its HTTP configuration is a JSON value in the world; between
  the read and the conditional write of \<open>apply_caddy\<close> another client may change it
  (\<open>we_edit\<close>), in which case the write is refused, as the entity tag demands. A write that is
  reported as failed may have been carried out nevertheless, when the answer was lost or came
  after the client's ten seconds. A restart of Caddy brings it up on the configuration the
  installation bakes in (\<open>we_baseline\<close>), after which the unit runs the engine binary to restore the
  confirmed ports (\<open>engine/nasty-engine/src/main.rs\<close>).
\<close>

section \<open>Caddy's configuration\<close>

datatype WebuiError =
    WuListeners ListenerError
  | WuNoServers
  | WuAmbiguous
  | WuNoListen
  | WuBadAddress
  | WuBadPort
  | WuPanic
  | WuNameTaken
  | WuIo string
  | WuConcurrent
  | WuFirewall FwError
  | WuRecovering
  | WuPending
  | WuNoPending
  | WuUnknownOrExpired
  | WuUnreachable string
  | WuUnhealthy
  | WuExpired
  | WuRollbackFailed WebuiError WebuiError
  | WuRetrying WebuiError

definition is_tls_server :: "json \<Rightarrow> bool" where
  "is_tls_server s =
     (case jget ''tls_connection_policies'' s of
        Some (JArr p) \<Rightarrow> p \<noteq> []
      | _ \<Rightarrow> False)"

definition is_redirect_url :: "json \<Rightarrow> bool" where
  "is_redirect_url v =
     (case v of
        JStr url \<Rightarrow>
          take 27 url = ''https://{http.request.host}'' \<and>
          drop (length url - 18) url = ''{http.request.uri}'' \<and> 18 \<le> length url
      | _ \<Rightarrow> False)"

definition is_redirect_handler :: "json \<Rightarrow> bool" where
  "is_redirect_handler h \<longleftrightarrow>
     jindex ''handler'' h = JStr ''static_response'' \<and>
     (case as_array (jindex ''Location'' (jindex ''headers'' h)) of
        Some [url] \<Rightarrow> is_redirect_url url
      | _ \<Rightarrow> False)"

definition is_redirect_server :: "json \<Rightarrow> bool" where
  "is_redirect_server s =
     (case jget ''routes'' s of
        Some (JArr [route]) \<Rightarrow>
          jget ''@id'' route = Some (JStr ''nasty-webui-redirect'') \<or>
          (case jget ''handle'' route of
             Some (JArr [h]) \<Rightarrow> is_redirect_handler h
           | _ \<Rightarrow> False)
      | _ \<Rightarrow> False)"

fun relisten :: "u16 \<Rightarrow> json list \<Rightarrow> WebuiError + json list" where
  "relisten port [] = Inr []"
| "relisten port (a # as) =
     (case Option.bind (as_str a) (rsplit_once CHR '':'') of
        None \<Rightarrow> Inl WuBadAddress
      | Some (host, old_port) \<Rightarrow>
          if parse_uint 65535 old_port = None then Inl WuBadPort
          else res_bind (relisten port as) (\<lambda>ls. Inr (JStr (host @ '':'' @ show_u16 port) # ls)))"

definition redirect_server :: "ListenerPorts \<Rightarrow> u16 \<Rightarrow> json" where
  "redirect_server l port =
     (let suffix = (if https_port l = 443 then [] else '':'' @ show_u16 (https_port l))
      in jobj [(''listen'', JArr [JStr ('':'' @ show_u16 port)]),
               (''routes'', JArr [jobj
                 [(''@id'', JStr ''nasty-webui-redirect''),
                  (''handle'', JArr
                    [jobj [(''handler'', JStr ''map''),
                           (''source'', JStr ''{http.request.host}''),
                           (''destinations'', JArr [JStr ''{nasty.redirect_host}'']),
                           (''mappings'', JArr [jobj [(''input_regexp'', JStr ''^(.+:.*)$''),
                                                      (''outputs'', JArr [JStr ''[${1}]''])]]),
                           (''defaults'', JArr [JStr ''{http.request.host}''])],
                     jobj [(''handler'', JStr ''static_response''),
                           (''status_code'', JNum 308),
                           (''headers'', jobj [(''Location'',
                              JArr [JStr (''https://{nasty.redirect_host}'' @ suffix @ ''{http.request.uri}'')])])]])]])])"

definition set_listeners :: "u16 \<Rightarrow> json \<Rightarrow> WebuiError + json" where
  "set_listeners port tls =
     (case as_array (jindex ''listen'' tls) of
        None \<Rightarrow> Inl WuNoListen
      | Some addresses \<Rightarrow>
          res_bind (relisten port addresses) (\<lambda>listen.
          case jset ''listen'' (JArr listen) tls of
            None \<Rightarrow> Inl WuPanic
          | Some tls' \<Rightarrow>
              (case jset ''disable_redirects'' (JBool True) (jindex ''automatic_https'' tls') of
                 None \<Rightarrow> Inl WuPanic
               | Some auto \<Rightarrow>
                   (case jset ''automatic_https'' auto tls' of None \<Rightarrow> Inl WuPanic | Some tls'' \<Rightarrow> Inr tls''))))"

definition configure_servers :: "ListenerPorts \<Rightarrow> (string \<times> json) list \<Rightarrow> WebuiError + (string \<times> json) list" where
  "configure_servers l servers =
     (case filter (\<lambda>(n, s). is_tls_server s) servers of
        [(name, tls)] \<Rightarrow>
          res_bind (set_listeners (https_port l) tls) (\<lambda>tls'.
          let kept = filter (\<lambda>(n, s). \<not> is_redirect_server s) (obj_insert name tls' servers)
          in case http_port l of
               None \<Rightarrow> Inr kept
             | Some port \<Rightarrow>
                 if ''nasty_webui_redirect'' \<in> fst ` set kept then Inl WuNameTaken
                 else Inr (obj_insert ''nasty_webui_redirect'' (redirect_server l port) kept))
      | _ \<Rightarrow> Inl WuAmbiguous)"

definition configure_http :: "ListenerPorts \<Rightarrow> json \<Rightarrow> WebuiError + json" where
  "configure_http l http =
     res_bind (map_sum WuListeners id (validate_listeners l)) (\<lambda>_.
     case http of
       JObj m \<Rightarrow>
         (case map_of m ''servers'' of
            Some (JObj servers) \<Rightarrow>
              res_bind (configure_servers l servers) (\<lambda>servers'.
              Inr (JObj
                (obj_insert ''http_port'' (JNum (case http_port l of None \<Rightarrow> 80 | Some p \<Rightarrow> uint p))
                (obj_insert ''https_port'' (JNum (uint (https_port l)))
                (obj_insert ''servers'' (JObj servers') m)))))
          | _ \<Rightarrow> Inl WuNoServers)
     | _ \<Rightarrow> Inl WuNoServers)"

section \<open>World\<close>

record 'f webui_world =
  wu_state :: ListenerState
  wu_recovering :: bool
  wu_file :: "ListenerState json_file"
  wu_caddy :: json
  wu_firewall :: 'f
  wu_calls :: nat

datatype patch_outcome = PatchOk | PatchError string bool

record webui_env =
  we_files :: outcomes
  we_get :: outcomes
  we_edit :: "nat \<Rightarrow> json \<Rightarrow> json"
  we_patch :: "nat \<Rightarrow> patch_outcome"
  we_baseline :: json
  we_health :: "nat \<Rightarrow> string + bool"
  we_now :: "nat \<Rightarrow> u64"
  we_uuid :: "nat \<Rightarrow> string"
  we_message :: "WebuiError \<Rightarrow> string"

type_synonym ('f, 'a) wu_io = "('f webui_world, WebuiError, 'a) io"
type_synonym 'f port_setter = "u16 \<Rightarrow> u16 option \<Rightarrow> ('f, FwError, unit) io"

definition tick_call :: "'f webui_world \<Rightarrow> 'f webui_world" where
  "tick_call w = w\<lparr>wu_calls := Suc (wu_calls w)\<rparr>"

definition save :: "webui_env \<Rightarrow> ListenerState \<Rightarrow> ('f, unit) wu_io" where
  "save env s w =
     (case we_files env (wu_calls w) of
        Some e \<Rightarrow> (Inl (WuIo e), tick_call w)
      | None \<Rightarrow> (Inr (), tick_call (w\<lparr>wu_file := Parsed s\<rparr>)))"

definition set_firewall :: "'f port_setter \<Rightarrow> ListenerPorts \<Rightarrow> ('f, unit) wu_io" where
  "set_firewall set_ports l =
     zoom wu_firewall (\<lambda>f w. w\<lparr>wu_firewall := f\<rparr>) WuFirewall (set_ports (https_port l) (http_port l))"

text \<open>One round of \<open>apply_caddy\<close>: \<open>None\<close> is a refused conditional write, after which it tries again.\<close>

definition caddy_round :: "webui_env \<Rightarrow> ListenerPorts \<Rightarrow> ('f, unit option) wu_io" where
  "caddy_round env l w =
     (case we_get env (wu_calls w) of
        Some e \<Rightarrow> (Inl (WuIo e), tick_call w)
      | None \<Rightarrow>
          (case configure_http l (wu_caddy w) of
             Inl e \<Rightarrow> (Inl e, tick_call w)
           | Inr http \<Rightarrow>
               if http = wu_caddy w then (Inr (Some ()), tick_call w)
               else
                 let current = we_edit env (wu_calls w) (wu_caddy w)
                 in if current \<noteq> wu_caddy w then (Inr None, tick_call (w\<lparr>wu_caddy := current\<rparr>))
                    else case we_patch env (wu_calls w) of
                           PatchError e applied \<Rightarrow>
                             (Inl (WuIo e), tick_call (if applied then w\<lparr>wu_caddy := http\<rparr> else w))
                         | PatchOk \<Rightarrow> (Inr (Some ()), tick_call (w\<lparr>wu_caddy := http\<rparr>))))"

fun caddy_rounds :: "nat \<Rightarrow> webui_env \<Rightarrow> ListenerPorts \<Rightarrow> ('f, unit) wu_io" where
  "caddy_rounds 0 env l = io_fail WuConcurrent"
| "caddy_rounds (Suc n) env l =
     io_bind (caddy_round env l) (\<lambda>r. case r of Some _ \<Rightarrow> io_return () | None \<Rightarrow> caddy_rounds n env l)"

definition apply_caddy :: "webui_env \<Rightarrow> ListenerPorts \<Rightarrow> ('f, unit) wu_io" where
  "apply_caddy env l = caddy_rounds 4 env l"

section \<open>Handlers\<close>

definition set_state :: "(ListenerState \<Rightarrow> ListenerState) \<Rightarrow> ('f, unit) wu_io" where
  "set_state f = io_modify (\<lambda>w. w\<lparr>wu_state := f (wu_state w)\<rparr>)"

definition rollback_locked :: "'f port_setter \<Rightarrow> webui_env \<Rightarrow> ('f, unit) wu_io" where
  "rollback_locked set_ports env =
     io_bind (io_modify (\<lambda>w. w\<lparr>wu_recovering := True\<rparr>)) (\<lambda>_.
     io_bind (io_get wu_state) (\<lambda>s.
     io_bind (apply_caddy env (confirmed s)) (\<lambda>_.
     io_bind (set_firewall set_ports (confirmed s)) (\<lambda>_.
     let restored = s\<lparr>pending_listeners := None\<rparr> in
     io_bind (io_get wu_file) (\<lambda>f.
     io_bind (if f \<noteq> Absent then save env restored else io_return ()) (\<lambda>_.
     io_modify (\<lambda>w. w\<lparr>wu_state := restored, wu_recovering := False\<rparr>)))))))"

definition try_candidate ::
  "'f port_setter \<Rightarrow> webui_env \<Rightarrow> ListenerPorts \<Rightarrow> ListenerState \<Rightarrow> ('f, ListenerState) wu_io" where
  "try_candidate set_ports env l candidate =
     io_bind (set_state (\<lambda>_. candidate)) (\<lambda>_.
     io_case (save env candidate)
       (\<lambda>e. io_bind (set_state (\<lambda>s. s\<lparr>pending_listeners := None\<rparr>)) (\<lambda>_. io_fail e))
       (\<lambda>_. io_case (io_bind (set_firewall set_ports l) (\<lambda>_. apply_caddy env l))
          (\<lambda>e. io_bind (set_state (\<lambda>s. s\<lparr>last_error := Some (we_message env e)\<rparr>)) (\<lambda>_.
               io_case (rollback_locked set_ports env)
                 (\<lambda>e'. io_fail (WuRollbackFailed e e'))
                 (\<lambda>_. io_fail e)))
          (\<lambda>_. io_get wu_state)))"

definition webui_update :: "'f port_setter \<Rightarrow> webui_env \<Rightarrow> ListenerPorts \<Rightarrow> ('f, ListenerState) wu_io" where
  "webui_update set_ports env l =
     io_bind (io_lift (map_sum WuListeners id (validate_listeners l))) (\<lambda>_.
     io_bind (io_get id) (\<lambda>w.
     if wu_recovering w then io_fail WuRecovering
     else if pending_listeners (wu_state w) \<noteq> None then io_fail WuPending
     else if l = confirmed (wu_state w) then io_return (wu_state w)
     else
       try_candidate set_ports env l
         ((wu_state w)\<lparr>last_error := None,
            pending_listeners := Some \<lparr>pl_txn_id = we_uuid env (wu_calls w), pl_ports = l,
                                       pl_deadline = we_now env (wu_calls w) + 30\<rparr>\<rparr>)))"

definition webui_confirm :: "webui_env \<Rightarrow> string \<Rightarrow> ('f, ListenerState) wu_io" where
  "webui_confirm env txn_id =
     io_bind (io_get id) (\<lambda>w.
     if wu_recovering w then io_fail WuRecovering
     else case pending_listeners (wu_state w) of
       None \<Rightarrow> io_fail WuNoPending
     | Some p \<Rightarrow>
         if pl_txn_id p \<noteq> txn_id \<or> pl_deadline p \<le> we_now env (wu_calls w) then io_fail WuUnknownOrExpired
         else
           io_bind (io_modify tick_call) (\<lambda>_.
           case we_health env (wu_calls w) of
             Inl e \<Rightarrow> io_fail (WuUnreachable e)
           | Inr False \<Rightarrow> io_fail WuUnhealthy
           | Inr True \<Rightarrow>
               if pl_deadline p \<le> we_now env (Suc (wu_calls w)) then io_fail WuExpired
               else
                 let s = \<lparr>confirmed = pl_ports p, pending_listeners = None, last_error = None\<rparr>
                 in io_bind (save env s) (\<lambda>_.
                    io_bind (set_state (\<lambda>_. s)) (\<lambda>_. io_return s))))"

definition webui_rollback :: "'f port_setter \<Rightarrow> webui_env \<Rightarrow> ('f, ListenerState) wu_io" where
  "webui_rollback set_ports env = io_bind (rollback_locked set_ports env) (\<lambda>_. io_get wu_state)"

definition webui_tick :: "'f port_setter \<Rightarrow> webui_env \<Rightarrow> ('f, unit) wu_io" where
  "webui_tick set_ports env =
     io_bind (io_get id) (\<lambda>w.
     io_bind (io_modify tick_call) (\<lambda>_.
     if wu_recovering w \<or>
        (case pending_listeners (wu_state w) of Some p \<Rightarrow> pl_deadline p \<le> we_now env (wu_calls w) | None \<Rightarrow> False)
     then io_case (rollback_locked set_ports env)
            (\<lambda>e. io_bind (set_state (\<lambda>s. s\<lparr>last_error := Some (we_message env (WuRetrying e))\<rparr>)) (\<lambda>_. io_fail e))
            (\<lambda>_. io_return ())
     else io_return ()))"

definition from_state :: "ListenerState \<Rightarrow> 'f webui_world \<Rightarrow> 'f webui_world" where
  "from_state s w = w\<lparr>wu_state := s\<lparr>pending_listeners := None\<rparr>, wu_recovering := True\<rparr>"

text \<open>A restart of the engine: the constructor reads the file; when it refuses, the engine does not start.\<close>

definition webui_new :: "listener_vars \<Rightarrow> ('f, unit) wu_io" where
  "webui_new vars =
     io_bind (io_get wu_file) (\<lambda>f.
     io_bind (io_lift (map_sum WuListeners id (load_listeners vars f))) (\<lambda>s.
     io_modify (from_state s)))"

text \<open>A restart of Caddy, and what its unit runs after it: the engine binary as \<open>webui-listeners-restore\<close>.\<close>

definition webui_listeners_restore :: "webui_env \<Rightarrow> listener_vars \<Rightarrow> ('f, unit) wu_io" where
  "webui_listeners_restore env vars =
     io_bind (io_get wu_file) (\<lambda>f.
     io_bind (io_lift (map_sum WuListeners id (load_listeners vars f))) (\<lambda>s.
     apply_caddy env (confirmed s)))"

definition restart_caddy :: "webui_env \<Rightarrow> listener_vars \<Rightarrow> ('f, unit) wu_io" where
  "restart_caddy env vars =
     io_bind (io_modify (\<lambda>w. w\<lparr>wu_caddy := we_baseline env\<rparr>)) (\<lambda>_. webui_listeners_restore env vars)"

section \<open>What a configured Caddy serves\<close>

definition listens_on :: "u16 \<Rightarrow> json \<Rightarrow> bool" where
  "listens_on port s =
     (case jget ''listen'' s of
        Some (JArr as) \<Rightarrow>
          list_all (\<lambda>a. case Option.bind (as_str a) (rsplit_once CHR '':'') of
                          Some (_, p) \<Rightarrow> p = show_u16 port
                        | None \<Rightarrow> False) as
      | _ \<Rightarrow> False)"

text \<open>
  The one TLS server listens on the HTTPS port on all its addresses, and the redirect server on
  the HTTP port is there exactly when that port is set.
\<close>

definition serves :: "ListenerPorts \<Rightarrow> json \<Rightarrow> bool" where
  "serves l http =
     (case jget ''servers'' http of
        Some (JObj m) \<Rightarrow>
          (case filter (\<lambda>(n, s). is_tls_server s) m of [(n, s)] \<Rightarrow> listens_on (https_port l) s | _ \<Rightarrow> False) \<and>
          filter (\<lambda>(n, s). is_redirect_server s) m =
            (case http_port l of None \<Rightarrow> [] | Some p \<Rightarrow> [(''nasty_webui_redirect'', redirect_server l p)])
      | _ \<Rightarrow> False)"

text \<open>The servers are an object, and no TLS server is itself of the shape of a redirect.\<close>

definition caddy_ok :: "json \<Rightarrow> bool" where
  "caddy_ok http =
     (case jget ''servers'' http of
        Some (JObj m) \<Rightarrow> wf_obj m \<and> list_all (\<lambda>(n, s). \<not> (is_tls_server s \<and> is_redirect_server s)) m
      | _ \<Rightarrow> True)"

lemma rsplit_show_u16: "rsplit_once CHR '':'' (host @ '':'' @ show_u16 p) = Some (host, show_u16 p)"
proof -
  have "CHR '':'' \<notin> set (show_u16 p)"
    using show_nat_digits [of "unat p"] by (auto simp: show_u16_def list_all_iff is_ascii_digit_def byte_def)
  then show ?thesis by (simp add: rsplit_once_append)
qed

lemma relisten_ports:
  "relisten port as = Inr ls \<Longrightarrow>
     list_all (\<lambda>a. case Option.bind (as_str a) (rsplit_once CHR '':'') of
                     Some (_, p) \<Rightarrow> p = show_u16 port | None \<Rightarrow> False) ls"
proof (induction as arbitrary: ls)
  case (Cons a as)
  then obtain host q ls' where "Option.bind (as_str a) (rsplit_once CHR '':'') = Some (host, q)"
    "relisten port as = Inr ls'" "ls = JStr (host @ '':'' @ show_u16 port) # ls'"
    by (auto simp: res_simps split: option.splits if_splits)
  with Cons.IH show ?case using rsplit_show_u16 [of host port] by simp
qed simp

lemma set_listeners_facts:
  assumes "set_listeners port tls = Inr tls'"
  shows "k \<noteq> ''listen'' \<Longrightarrow> k \<noteq> ''automatic_https'' \<Longrightarrow> jget k tls' = jget k tls"
    and "listens_on port tls'"
proof -
  obtain as where as: "as_array (jindex ''listen'' tls) = Some as"
    using assms by (cases "as_array (jindex ''listen'' tls)") (simp_all add: set_listeners_def)
  obtain ls where ls: "relisten port as = Inr ls"
    using assms as by (cases "relisten port as") (simp_all add: set_listeners_def)
  obtain t1 where t1: "jset ''listen'' (JArr ls) tls = Some t1"
    using assms as ls by (cases "jset ''listen'' (JArr ls) tls") (simp_all add: set_listeners_def)
  obtain auto where t2: "jset ''automatic_https'' auto t1 = Some tls'"
    using assms as ls t1 by (auto simp: set_listeners_def split: option.splits)
  have m: "\<exists>m. tls = JObj m" using as by (cases tls) (simp_all add: jindex_def)
  then show "k \<noteq> ''listen'' \<Longrightarrow> k \<noteq> ''automatic_https'' \<Longrightarrow> jget k tls' = jget k tls"
    using t1 t2 by auto
  have "jget ''listen'' tls' = Some (JArr ls)" using m t1 t2 by auto
  with relisten_ports [OF ls] show "listens_on port tls'" by (simp add: listens_on_def)
qed

lemma set_listeners_kind:
  assumes "set_listeners port tls = Inr tls'"
  shows "is_tls_server tls' = is_tls_server tls" "is_redirect_server tls' = is_redirect_server tls"
  using set_listeners_facts(1) [OF assms] by (simp_all add: is_tls_server_def is_redirect_server_def)

lemma redirect_server_kind: "is_redirect_server (redirect_server l p)" "\<not> is_tls_server (redirect_server l p)"
  by (simp_all add: redirect_server_def Let_def jobj_def is_redirect_server_def is_tls_server_def
      del: obj_insert.simps)

lemma filter_obj_insert_other:
  "\<not> P (k, v) \<Longrightarrow> k \<notin> fst ` set m \<Longrightarrow> filter P (obj_insert k v m) = filter P m"
  by (induction k v m rule: obj_insert.induct) auto

lemma filter_obj_insert_only:
  "P (k, v) \<Longrightarrow> k \<notin> fst ` set m \<Longrightarrow> filter P m = [] \<Longrightarrow> filter P (obj_insert k v m) = [(k, v)]"
  by (induction k v m rule: obj_insert.induct) (auto split: if_splits)

lemma filter_replace:
  assumes "wf_obj m" "filter P m = [(k, u)]" "P (k, v)"
  shows "filter P (obj_insert k v m) = [(k, v)]"
proof -
  let ?f = "\<lambda>e. if fst e = k then (k, v) else e"
  have "(k, u) \<in> set (filter P m)" using assms(2) by simp
  then have ku: "(k, u) \<in> set m" and p: "P (k, u)" by simp_all
  have "P (?f e) = P e" if "e \<in> set m" for e
  proof (cases "fst e = k")
    case True
    then have "e = (k, u)"
      using that ku eq_key_imp_eq_value [OF wf_obj_distinct [OF assms(1)]] by (metis prod.collapse)
    with p assms(3) show ?thesis by simp
  qed simp
  then have "filter P (map ?f m) = map ?f (filter P m)"
    by (simp add: filter_map comp_def cong: filter_cong)
  moreover have "obj_insert k v m = map ?f m"
    using obj_insert_replace [OF assms(1)] ku by force
  ultimately show ?thesis using assms(2) by simp
qed

lemma configure_servers_Inr:
  assumes "configure_servers l m = Inr m'"
  shows "\<exists>n tls tls' kept. filter (\<lambda>(n, s). is_tls_server s) m = [(n, tls)] \<and>
    set_listeners (https_port l) tls = Inr tls' \<and>
    kept = filter (\<lambda>(n, s). \<not> is_redirect_server s) (obj_insert n tls' m) \<and>
    m' = (case http_port l of None \<Rightarrow> kept | Some p \<Rightarrow> obj_insert ''nasty_webui_redirect'' (redirect_server l p) kept) \<and>
    (http_port l \<noteq> None \<longrightarrow> ''nasty_webui_redirect'' \<notin> fst ` set kept)"
proof -
  have "\<exists>n tls. filter (\<lambda>(n, s). is_tls_server s) m = [(n, tls)]"
    using assms by (auto simp: configure_servers_def split: list.splits)
  then obtain n tls where f: "filter (\<lambda>(n, s). is_tls_server s) m = [(n, tls)]" by blast
  obtain tls' where s: "set_listeners (https_port l) tls = Inr tls'"
    using assms f by (cases "set_listeners (https_port l) tls") (simp_all add: configure_servers_def)
  have "m' = (case http_port l of None \<Rightarrow> filter (\<lambda>(n, s). \<not> is_redirect_server s) (obj_insert n tls' m)
      | Some p \<Rightarrow> obj_insert ''nasty_webui_redirect'' (redirect_server l p)
          (filter (\<lambda>(n, s). \<not> is_redirect_server s) (obj_insert n tls' m))) \<and>
    (http_port l \<noteq> None \<longrightarrow>
      ''nasty_webui_redirect'' \<notin> fst ` set (filter (\<lambda>(n, s). \<not> is_redirect_server s) (obj_insert n tls' m)))"
    using assms f s by (auto simp: configure_servers_def Let_def split: option.splits if_splits)
  with f s show ?thesis by blast
qed

lemma configure_servers_serves:
  assumes "configure_servers l m = Inr m'" "wf_obj m" "list_all (\<lambda>(n, s). \<not> (is_tls_server s \<and> is_redirect_server s)) m"
  shows "(\<exists>n s. filter (\<lambda>(n, s). is_tls_server s) m' = [(n, s)] \<and> listens_on (https_port l) s \<and> \<not> is_redirect_server s)"
    and "filter (\<lambda>(n, s). is_redirect_server s) m' =
      (case http_port l of None \<Rightarrow> [] | Some p \<Rightarrow> [(''nasty_webui_redirect'', redirect_server l p)])"
    and "wf_obj m'"
proof -
  obtain n tls tls' kept where f: "filter (\<lambda>(n, s). is_tls_server s) m = [(n, tls)]"
    and sl: "set_listeners (https_port l) tls = Inr tls'"
    and kept: "kept = filter (\<lambda>(n, s). \<not> is_redirect_server s) (obj_insert n tls' m)"
    and m': "m' = (case http_port l of None \<Rightarrow> kept | Some p \<Rightarrow> obj_insert ''nasty_webui_redirect'' (redirect_server l p) kept)"
    and new: "http_port l \<noteq> None \<longrightarrow> ''nasty_webui_redirect'' \<notin> fst ` set kept"
    using configure_servers_Inr [OF assms(1)] by blast
  have "(n, tls) \<in> set (filter (\<lambda>(n, s). is_tls_server s) m)" using f by simp
  then have tls: "is_tls_server tls" "\<not> is_redirect_server tls" using assms(3) by (auto simp: list_all_iff)
  have tls': "is_tls_server tls'" "\<not> is_redirect_server tls'" "listens_on (https_port l) tls'"
    using set_listeners_kind [OF sl] set_listeners_facts(2) [OF sl] tls by simp_all
  have "filter (\<lambda>(n, s). is_tls_server s) (obj_insert n tls' m) = [(n, tls')]"
    using filter_replace [OF assms(2) f] tls'(1) by simp
  then have "filter (\<lambda>(n, s). \<not> is_redirect_server s) (filter (\<lambda>(n, s). is_tls_server s) (obj_insert n tls' m)) = [(n, tls')]"
    using tls'(2) by simp
  then have k1: "filter (\<lambda>(n, s). is_tls_server s) kept = [(n, tls')]"
    unfolding kept filter_filter by (simp add: conj_commute case_prod_beta)
  have k2: "filter (\<lambda>(n, s). is_redirect_server s) kept = []" unfolding kept by (auto simp: filter_empty_conv)
  have "filter (\<lambda>(n, s). is_tls_server s) m' = [(n, tls')]"
    using k1 new redirect_server_kind(2) [of l] by (auto simp: m' filter_obj_insert_other split: option.splits)
  with tls' show "\<exists>n s. filter (\<lambda>(n, s). is_tls_server s) m' = [(n, s)] \<and> listens_on (https_port l) s \<and> \<not> is_redirect_server s"
    by blast
  show "filter (\<lambda>(n, s). is_redirect_server s) m' =
      (case http_port l of None \<Rightarrow> [] | Some p \<Rightarrow> [(''nasty_webui_redirect'', redirect_server l p)])"
    using k2 new redirect_server_kind(1) [of l] by (auto simp: m' filter_obj_insert_only split: option.splits)
  show "wf_obj m'"
    using assms(2) by (auto simp: m' kept intro!: wf_obj_insert wf_obj_filter split: option.splits)
qed

lemma configure_http_Inr:
  assumes "configure_http l http = Inr http'"
  obtains m servers servers' where "http = JObj m" "map_of m ''servers'' = Some (JObj servers)"
    "configure_servers l servers = Inr servers'" "validate_listeners l = Inr ()"
    "http' = JObj (obj_insert ''http_port'' (JNum (case http_port l of None \<Rightarrow> 80 | Some p \<Rightarrow> uint p))
       (obj_insert ''https_port'' (JNum (uint (https_port l))) (obj_insert ''servers'' (JObj servers') m)))"
proof -
  have v: "validate_listeners l = Inr ()"
    using assms by (cases "validate_listeners l") (auto simp: configure_http_def)
  obtain m where m: "http = JObj m" using assms v by (cases http) (simp_all add: configure_http_def)
  obtain servers where s: "map_of m ''servers'' = Some (JObj servers)"
    using assms v m by (auto simp: configure_http_def split: option.splits json.splits)
  obtain servers' where "configure_servers l servers = Inr servers'"
    using assms v m s by (cases "configure_servers l servers") (simp_all add: configure_http_def)
  then show ?thesis using that [OF m s] assms v m s by (simp add: configure_http_def)
qed

lemma configure_http_serves:
  assumes "configure_http l http = Inr http'" "caddy_ok http"
  shows "serves l http'" "caddy_ok http'"
proof -
  obtain m servers servers' where m: "http = JObj m" "map_of m ''servers'' = Some (JObj servers)"
    and c: "configure_servers l servers = Inr servers'"
    and j: "jget ''servers'' http' = Some (JObj servers')"
    using assms(1) by (elim configure_http_Inr) auto
  have w: "wf_obj servers" "list_all (\<lambda>(n, s). \<not> (is_tls_server s \<and> is_redirect_server s)) servers"
    using assms(2) m by (simp_all add: caddy_ok_def)
  note r = configure_servers_serves [OF c w]
  obtain n s where t: "filter (\<lambda>(n, s). is_tls_server s) servers' = [(n, s)]" "listens_on (https_port l) s" "\<not> is_redirect_server s"
    using r(1) by blast
  then show "serves l http'" using r(2) j by (simp add: serves_def)
  have "\<not> (is_tls_server y \<and> is_redirect_server y)" if "(x, y) \<in> set servers'" for x y
  proof
    assume "is_tls_server y \<and> is_redirect_server y"
    with that have "(x, y) \<in> set (filter (\<lambda>(n, s). is_tls_server s) servers')" by simp
    with t \<open>is_tls_server y \<and> is_redirect_server y\<close> show False by simp
  qed
  then show "caddy_ok http'" using r(3) j by (auto simp: caddy_ok_def list_all_iff)
qed

definition wu_frame :: "'f webui_world \<Rightarrow> 'f webui_world \<Rightarrow> bool" where
  "wu_frame w w' \<longleftrightarrow>
     wu_state w' = wu_state w \<and> wu_recovering w' = wu_recovering w \<and> wu_file w' = wu_file w \<and>
     wu_firewall w' = wu_firewall w"

text \<open>
  What the service relies on of Caddy's other clients: they leave the listeners alone. The
  application routes and certificate policies they edit are no listeners. The configuration
  Caddy starts with has the expected shape; its ports are of no concern.
\<close>

definition edits_ok :: "webui_env \<Rightarrow> bool" where
  "edits_ok env \<longleftrightarrow>
     caddy_ok (we_baseline env) \<and>
     (\<forall>n h. caddy_ok h \<longrightarrow> caddy_ok (we_edit env n h) \<and> (\<forall>l. serves l h \<longrightarrow> serves l (we_edit env n h)))"

definition caddy_outcome :: "ListenerPorts \<Rightarrow> bool \<Rightarrow> 'f webui_world \<Rightarrow> 'f webui_world \<Rightarrow> bool" where
  "caddy_outcome l moved w w' \<longleftrightarrow>
     wu_frame w w' \<and> caddy_ok (wu_caddy w') \<and>
     (moved \<longrightarrow> serves l (wu_caddy w'))"

lemma caddy_round_outcome:
  assumes "edits_ok env" "caddy_ok (wu_caddy w)" "caddy_round env l w = (r, w')"
  shows "caddy_outcome l (r = Inr (Some ())) w w'"
  using assms configure_http_serves [of l "wu_caddy w"]
  by (auto simp: caddy_round_def caddy_outcome_def wu_frame_def tick_call_def edits_ok_def Let_def
      split: option.splits sum.splits if_splits patch_outcome.splits)

lemma caddy_rounds_outcome:
  assumes "edits_ok env"
  shows "caddy_ok (wu_caddy w) \<Longrightarrow> caddy_rounds n env l w = (r, w') \<Longrightarrow> caddy_outcome l (r = Inr ()) w w'"
proof (induction n arbitrary: w)
  case 0
  then show ?case by (auto simp: io_defs caddy_outcome_def wu_frame_def)
next
  case (Suc n)
  obtain r1 w1 where 1: "caddy_round env l w = (r1, w1)" by fastforce
  note o1 = caddy_round_outcome [OF assms Suc.prems(1) 1]
  consider e where "r1 = Inl e" | "r1 = Inr (Some ())" | "r1 = Inr None"
    by (cases r1) (metis option.exhaust unit.exhaust)+
  then show ?case
  proof cases
    case 3
    then have "caddy_rounds n env l w1 = (r, w')" "caddy_ok (wu_caddy w1)"
      using Suc.prems(2) 1 o1 by (auto simp: io_defs caddy_outcome_def)
    from Suc.IH [OF this(2,1)] o1 3 show ?thesis by (auto simp: caddy_outcome_def wu_frame_def split: if_splits)
  qed (use Suc.prems 1 o1 in \<open>auto simp: io_defs\<close>)
qed

lemma apply_caddy_outcome:
  "edits_ok env \<Longrightarrow> caddy_ok (wu_caddy w) \<Longrightarrow> apply_caddy env l w = (r, w') \<Longrightarrow> caddy_outcome l (r = Inr ()) w w'"
  unfolding apply_caddy_def by (rule caddy_rounds_outcome)

section \<open>The firewall the handlers rely on\<close>

locale listener_firewall =
  fixes set_ports :: "'f port_setter" and opens :: "ListenerPorts \<Rightarrow> 'f \<Rightarrow> bool" and fw_ok :: "'f \<Rightarrow> bool"
  assumes set_ports_ok:
      "fw_ok f \<Longrightarrow> set_ports (https_port l) (http_port l) f = (Inr (), f') \<Longrightarrow> fw_ok f' \<and> opens l f'"
    and set_ports_failed:
      "fw_ok f \<Longrightarrow> set_ports a b f = (Inl e, f') \<Longrightarrow> fw_ok f' \<and> (\<forall>l. opens l f \<longrightarrow> opens l f')"

datatype webui_op =
    WuUpdate ListenerPorts
  | WuConfirm string
  | WuRollback
  | WuTick
  | WuRestart listener_vars
  | WuEdit nat
  | WuRestartCaddy listener_vars

fun webui_do :: "'f port_setter \<Rightarrow> webui_env \<Rightarrow> webui_op \<Rightarrow> ('f, unit) wu_io" where
  "webui_do set_ports env (WuUpdate l) = ignore_result (webui_update set_ports env l)"
| "webui_do set_ports env (WuConfirm i) = ignore_result (webui_confirm env i)"
| "webui_do set_ports env WuRollback = ignore_result (webui_rollback set_ports env)"
| "webui_do set_ports env WuTick = webui_tick set_ports env"
| "webui_do set_ports env (WuRestart vars) = webui_new vars"
| "webui_do set_ports env (WuEdit n) = io_modify (\<lambda>w. w\<lparr>wu_caddy := we_edit env n (wu_caddy w)\<rparr>)"
| "webui_do set_ports env (WuRestartCaddy vars) = restart_caddy env vars"

definition webui_step :: "'f port_setter \<Rightarrow> webui_env \<Rightarrow> 'f webui_world \<Rightarrow> webui_op \<Rightarrow> 'f webui_world" where
  "webui_step set_ports env w op = snd (webui_do set_ports env op w)"

definition in_force :: "ListenerState \<Rightarrow> ListenerPorts" where
  "in_force s = (case pending_listeners s of Some p \<Rightarrow> pl_ports p | None \<Rightarrow> confirmed s)"

definition listeners_at :: "(ListenerPorts \<Rightarrow> 'f \<Rightarrow> bool) \<Rightarrow> ListenerPorts \<Rightarrow> 'f webui_world \<Rightarrow> bool" where
  "listeners_at opens l w \<longleftrightarrow> opens l (wu_firewall w) \<and> serves l (wu_caddy w)"

fun journal_of :: "ListenerPorts \<Rightarrow> ListenerState json_file \<Rightarrow> bool" where
  "journal_of c (Parsed s) = (confirmed s = c)"
| "journal_of c _ = True"

definition file_agrees :: "'f webui_world \<Rightarrow> bool" where
  "file_agrees w = journal_of (confirmed (wu_state w)) (wu_file w)"

text \<open>
  The invariant. With \<open>agree\<close> it also says that Caddy is on the ports in force; that part
  outlives a restart of Caddy only when no change is pending at that moment.
\<close>

definition webui_inv ::
  "(ListenerPorts \<Rightarrow> 'f \<Rightarrow> bool) \<Rightarrow> ('f \<Rightarrow> bool) \<Rightarrow> bool \<Rightarrow> webui_env \<Rightarrow> 'f webui_world \<Rightarrow> bool" where
  "webui_inv opens fw_ok agree env w \<longleftrightarrow>
     edits_ok env \<and> caddy_ok (wu_caddy w) \<and> fw_ok (wu_firewall w) \<and>
     file_agrees w \<and>
     (\<not> wu_recovering w \<longrightarrow>
        opens (in_force (wu_state w)) (wu_firewall w) \<and> (agree \<longrightarrow> serves (in_force (wu_state w)) (wu_caddy w)))"

text \<open>
  A restart of Caddy that takes nothing back: no change awaits confirmation, the helper
  succeeds, and where nothing was ever journalled the unit's ports are the engine's.
\<close>

definition undisturbing :: "webui_env \<Rightarrow> 'f webui_world \<Rightarrow> webui_op \<Rightarrow> bool" where
  "undisturbing env w op \<longleftrightarrow>
     (case op of
        WuRestartCaddy vars \<Rightarrow>
          wu_recovering w \<or>
          pending_listeners (wu_state w) = None \<and> fst (restart_caddy env vars w) = Inr () \<and>
          (wu_file w = Absent \<longrightarrow>
             (\<exists>s. load_listeners vars Absent = Inr s \<and> confirmed s = confirmed (wu_state w)))
      | _ \<Rightarrow> True)"

fun undisturbed :: "'f port_setter \<Rightarrow> webui_env \<Rightarrow> 'f webui_world \<Rightarrow> webui_op list \<Rightarrow> bool" where
  "undisturbed set_ports env w [] \<longleftrightarrow> True"
| "undisturbed set_ports env w (op # ops) \<longleftrightarrow>
     undisturbing env w op \<and> undisturbed set_ports env (webui_step set_ports env w op) ops"

context listener_firewall
begin

lemma set_firewall_outcome:
  assumes "set_firewall set_ports l w = (r, w')" "fw_ok (wu_firewall w)"
  shows "fw_ok (wu_firewall w') \<and> wu_state w' = wu_state w \<and> wu_recovering w' = wu_recovering w \<and>
    wu_file w' = wu_file w \<and> wu_caddy w' = wu_caddy w \<and>
    (if r = Inr () then opens l (wu_firewall w') else (\<forall>l'. opens l' (wu_firewall w) \<longrightarrow> opens l' (wu_firewall w')))"
proof -
  obtain r0 f where s: "set_ports (https_port l) (http_port l) (wu_firewall w) = (r0, f)" by fastforce
  then have r: "r = map_sum WuFirewall id r0" "w' = w\<lparr>wu_firewall := f\<rparr>"
    using assms(1) by (auto simp: set_firewall_def zoom_def)
  then show ?thesis
    using set_ports_ok [OF assms(2)] set_ports_failed [OF assms(2)] s by (cases r0) auto
qed

end

lemma save_outcome:
  "save env s w = (r, w') \<Longrightarrow>
     w' = w\<lparr>wu_file := (if r = Inr () then Parsed s else wu_file w), wu_calls := Suc (wu_calls w)\<rparr>"
  by (auto simp: save_def tick_call_def split: option.splits)

definition rolled_back ::
  "(ListenerPorts \<Rightarrow> 'f \<Rightarrow> bool) \<Rightarrow> ('f \<Rightarrow> bool) \<Rightarrow> bool \<Rightarrow> 'f webui_world \<Rightarrow> 'f webui_world \<Rightarrow> bool" where
  "rolled_back opens fw_ok done w w' \<longleftrightarrow>
     caddy_ok (wu_caddy w') \<and> fw_ok (wu_firewall w') \<and> file_agrees w' \<and>
     (if done then wu_state w' = (wu_state w)\<lparr>pending_listeners := None\<rparr> \<and> \<not> wu_recovering w' \<and>
        listeners_at opens (confirmed (wu_state w)) w'
      else wu_recovering w' \<and> wu_state w' = wu_state w)"

context listener_firewall
begin

lemma rollback_outcome:
  assumes "edits_ok env" "caddy_ok (wu_caddy w)" "fw_ok (wu_firewall w)" "file_agrees w"
    and "rollback_locked set_ports env w = (r, w')"
  shows "rolled_back opens fw_ok (r = Inr ()) w w'"
proof -
  let ?w0 = "w\<lparr>wu_recovering := True\<rparr>" and ?c = "confirmed (wu_state w)"
  obtain r1 w1 where 1: "apply_caddy env ?c ?w0 = (r1, w1)" by fastforce
  have o1: "caddy_outcome ?c (r1 = Inr ()) ?w0 w1"
    using apply_caddy_outcome [OF assms(1) _ 1] assms(2) by simp
  then have f1: "fw_ok (wu_firewall w1)" using assms(3) by (simp add: caddy_outcome_def wu_frame_def)
  obtain r2 w2 where 2: "set_firewall set_ports ?c w1 = (r2, w2)" by fastforce
  note o2 = set_firewall_outcome [OF 2 f1]
  obtain r3 w3 where 3: "save env ((wu_state w)\<lparr>pending_listeners := None\<rparr>) w2 = (r3, w3)" by fastforce
  note o3 = save_outcome [OF 3]
  consider e where "r1 = Inl e" | e where "r1 = Inr ()" "r2 = Inl e"
    | "r1 = Inr ()" "r2 = Inr ()" "wu_file w2 = Absent"
    | e where "r1 = Inr ()" "r2 = Inr ()" "wu_file w2 \<noteq> Absent" "r3 = Inl e"
    | "r1 = Inr ()" "r2 = Inr ()" "wu_file w2 \<noteq> Absent" "r3 = Inr ()"
    by (cases r1; cases r2; cases r3) auto
  then show ?thesis
  proof cases
    case 1
    then have "r = Inl e" "w' = w1" using assms(5) \<open>apply_caddy env ?c ?w0 = (r1, w1)\<close>
      by (simp_all add: rollback_locked_def io_defs)
    with 1 assms(4) o1 f1 show ?thesis
      by (simp add: rolled_back_def caddy_outcome_def wu_frame_def file_agrees_def)
  next
    case 2
    then have "r = Inl e" "w' = w2" using assms(5) 1 \<open>set_firewall set_ports ?c w1 = (r2, w2)\<close>
      by (simp_all add: rollback_locked_def io_defs)
    with 2 assms(4) o1 o2 show ?thesis
      by (simp add: rolled_back_def caddy_outcome_def wu_frame_def file_agrees_def)
  next
    case 3
    then have "r = Inr ()" "w' = w2\<lparr>wu_state := (wu_state w)\<lparr>pending_listeners := None\<rparr>, wu_recovering := False\<rparr>"
      using assms(5) 1 2 by (simp_all add: rollback_locked_def io_defs Let_def)
    with 3 o1 o2 show ?thesis
      by (simp add: rolled_back_def caddy_outcome_def wu_frame_def file_agrees_def listeners_at_def)
  next
    case 4
    then have "r = Inl e" "w' = w3" using assms(5) 1 2 3 by (simp_all add: rollback_locked_def io_defs Let_def)
    with 4 assms(4) o1 o2 o3 show ?thesis
      by (simp add: rolled_back_def caddy_outcome_def wu_frame_def file_agrees_def)
  next
    case 5
    then have "r = Inr ()" "w' = w3\<lparr>wu_state := (wu_state w)\<lparr>pending_listeners := None\<rparr>, wu_recovering := False\<rparr>"
      using assms(5) 1 2 3 by (simp_all add: rollback_locked_def io_defs Let_def)
    with 5 o1 o2 o3 show ?thesis
      by (simp add: rolled_back_def caddy_outcome_def wu_frame_def file_agrees_def listeners_at_def)
  qed
qed

end

lemma rolled_back_inv: "edits_ok env \<Longrightarrow> rolled_back opens fw_ok b w w' \<Longrightarrow> webui_inv opens fw_ok agree env w'"
  by (auto simp: rolled_back_def webui_inv_def in_force_def listeners_at_def split: if_splits)

lemma ignore_result_snd: "snd (ignore_result m w) = snd (m w)"
  by (simp add: ignore_result_def io_defs split: prod.split sum.split)

context listener_firewall
begin

abbreviation winv :: "bool \<Rightarrow> webui_env \<Rightarrow> 'f webui_world \<Rightarrow> bool" where
  "winv \<equiv> webui_inv opens fw_ok"

lemma move_outcome:
  assumes "edits_ok env" "caddy_ok (wu_caddy w)" "fw_ok (wu_firewall w)"
    and "io_bind (set_firewall set_ports l) (\<lambda>_. apply_caddy env l) w = (r, w')"
  shows "caddy_ok (wu_caddy w') \<and> fw_ok (wu_firewall w') \<and> wu_state w' = wu_state w \<and>
    wu_recovering w' = wu_recovering w \<and> wu_file w' = wu_file w \<and> (r = Inr () \<longrightarrow> listeners_at opens l w')"
proof -
  obtain r1 w1 where 1: "set_firewall set_ports l w = (r1, w1)" by fastforce
  note o1 = set_firewall_outcome [OF 1 assms(3)]
  show ?thesis
  proof (cases r1)
    case (Inl e)
    then have "r = Inl e" "w' = w1" using assms(4) 1 by (simp_all add: io_defs)
    then show ?thesis using o1 assms(2) by simp
  next
    case (Inr u)
    then have 2: "apply_caddy env l w1 = (r, w')" using assms(4) 1 by (simp add: io_defs)
    have "caddy_ok (wu_caddy w1)" using o1 assms(2) by simp
    from apply_caddy_outcome [OF assms(1) this 2] o1 Inr show ?thesis
      by (simp add: caddy_outcome_def wu_frame_def listeners_at_def)
  qed
qed

lemma update_candidate_inv:
  assumes "winv agree env w" "\<not> wu_recovering w" "pending_listeners (wu_state w) = None" "pl_ports p = l"
    and "candidate = (wu_state w)\<lparr>last_error := None, pending_listeners := Some p\<rparr>"
  shows "winv agree env (snd (try_candidate set_ports env l candidate w))" (is "winv agree env (snd (?m w))")
proof -
  let ?w0 = "w\<lparr>wu_state := candidate\<rparr>"
  have base: "edits_ok env" "caddy_ok (wu_caddy w)" "fw_ok (wu_firewall w)" "file_agrees w"
      "opens (confirmed (wu_state w)) (wu_firewall w)" "agree \<longrightarrow> serves (confirmed (wu_state w)) (wu_caddy w)"
    using assms(1-3) by (simp_all add: webui_inv_def in_force_def)
  obtain r1 w1 where 1: "save env candidate ?w0 = (r1, w1)" by fastforce
  note o1 = save_outcome [OF 1]
  obtain r2 w2 where 2: "io_bind (set_firewall set_ports l) (\<lambda>_. apply_caddy env l) w1 = (r2, w2)" by fastforce
  have o2: "caddy_ok (wu_caddy w2) \<and> fw_ok (wu_firewall w2) \<and> wu_state w2 = wu_state w1 \<and>
      wu_recovering w2 = wu_recovering w1 \<and> wu_file w2 = wu_file w1 \<and> (r2 = Inr () \<longrightarrow> listeners_at opens l w2)"
    using move_outcome [OF base(1) _ _ 2] o1 base(2,3) by simp
  consider e where "r1 = Inl e" | "r1 = Inr ()" "r2 = Inr ()" | e where "r1 = Inr ()" "r2 = Inl e"
    by (cases r1; cases r2) auto
  then show ?thesis
  proof cases
    case 1
    then have "snd (?m w) = w1\<lparr>wu_state := (wu_state w1)\<lparr>pending_listeners := None\<rparr>\<rparr>"
      using \<open>save env candidate ?w0 = (r1, w1)\<close> by (simp add: try_candidate_def io_defs set_state_def)
    then show ?thesis using o1 1 base assms(5)
      by (simp add: webui_inv_def in_force_def file_agrees_def listeners_at_def)
  next
    case 2
    then have "snd (?m w) = w2"
      using 1 \<open>io_bind _ _ w1 = (r2, w2)\<close> by (simp add: try_candidate_def io_defs set_state_def)
    then show ?thesis using o1 o2 2 base assms(4,5)
      by (simp add: webui_inv_def in_force_def file_agrees_def listeners_at_def)
  next
    case 3
    let ?w3 = "w2\<lparr>wu_state := (wu_state w2)\<lparr>last_error := Some (we_message env e)\<rparr>\<rparr>"
    obtain r4 w4 where 4: "rollback_locked set_ports env ?w3 = (r4, w4)" by fastforce
    have "file_agrees ?w3" using o1 o2 3 assms(5) by (simp add: file_agrees_def)
    then have "rolled_back opens fw_ok (r4 = Inr ()) ?w3 w4"
      using rollback_outcome [OF base(1) _ _ _ 4] o2 by simp
    moreover have "snd (?m w) = w4"
      using 1 2 3 4 by (cases r4) (simp_all add: try_candidate_def io_defs set_state_def)
    ultimately show ?thesis using rolled_back_inv [OF base(1)] by simp
  qed
qed

lemma update_inv: "winv agree env w \<Longrightarrow> winv agree env (snd (webui_update set_ports env l w))"
proof (cases "validate_listeners l")
  case (Inr u)
  assume w: "winv agree env w"
  consider "wu_recovering w \<or> pending_listeners (wu_state w) \<noteq> None \<or> l = confirmed (wu_state w)"
    | "\<not> wu_recovering w" "pending_listeners (wu_state w) = None" "l \<noteq> confirmed (wu_state w)" by blast
  then show ?thesis
  proof cases
    case 1
    then show ?thesis using w Inr by (auto simp: webui_update_def io_defs)
  next
    case 2
    have "winv agree env (snd (try_candidate set_ports env l ((wu_state w)\<lparr>last_error := None,
        pending_listeners := Some \<lparr>pl_txn_id = we_uuid env (wu_calls w), pl_ports = l,
          pl_deadline = we_now env (wu_calls w) + 30\<rparr>\<rparr>) w))"
      by (rule update_candidate_inv [OF w 2(1,2) _ refl]) simp
    with 2 Inr show ?thesis by (simp add: webui_update_def io_defs)
  qed
qed (simp add: webui_update_def io_defs)

lemma confirm_inv: "winv agree env w \<Longrightarrow> winv agree env (snd (webui_confirm env i w))"
  by (auto simp: webui_confirm_def io_defs Let_def save_def tick_call_def set_state_def webui_inv_def in_force_def
      file_agrees_def listeners_at_def split: option.splits sum.splits bool.splits if_splits)

lemma rollback_inv:
  assumes "winv agree env w"
  shows "winv agree env (snd (rollback_locked set_ports env w))"
proof -
  obtain r w' where r: "rollback_locked set_ports env w = (r, w')" by fastforce
  have "edits_ok env" "caddy_ok (wu_caddy w)" "fw_ok (wu_firewall w)" "file_agrees w"
    using assms by (simp_all add: webui_inv_def)
  from rollback_outcome [OF this r] rolled_back_inv [OF this(1)] r show ?thesis by simp
qed

lemma tick_inv:
  assumes "winv agree env w"
  shows "winv agree env (snd (webui_tick set_ports env w))"
proof -
  have t: "winv agree env (tick_call w)"
    using assms by (simp add: webui_inv_def tick_call_def file_agrees_def listeners_at_def)
  obtain r w' where r: "rollback_locked set_ports env (tick_call w) = (r, w')" by fastforce
  have "edits_ok env" "caddy_ok (wu_caddy (tick_call w))" "fw_ok (wu_firewall (tick_call w))" "file_agrees (tick_call w)"
    using t by (simp_all add: webui_inv_def)
  from rollback_outcome [OF this r] have b: "rolled_back opens fw_ok (r = Inr ()) (tick_call w) w'" .
  have "winv agree env (w'\<lparr>wu_state := (wu_state w')\<lparr>last_error := m\<rparr>\<rparr>)" if "r \<noteq> Inr ()" for m
    using b that t by (auto simp: rolled_back_def webui_inv_def file_agrees_def)
  moreover have "winv agree env w'" by (rule rolled_back_inv [OF _ b]) (use t in \<open>simp add: webui_inv_def\<close>)
  ultimately show ?thesis
    using t r by (cases r) (auto simp: webui_tick_def io_defs set_state_def)
qed

lemma restart_inv: "winv agree env w \<Longrightarrow> winv agree env (snd (webui_new vars w))"
  by (cases "wu_file w")
    (auto simp: webui_new_def io_defs from_state_def webui_inv_def file_agrees_def load_listeners_def res_bind_def
      split: sum.splits option.splits)

lemma edit_inv: "winv agree env w \<Longrightarrow> winv agree env (w\<lparr>wu_caddy := we_edit env n (wu_caddy w)\<rparr>)"
  by (auto simp: webui_inv_def edits_ok_def file_agrees_def listeners_at_def)

lemma restart_caddy_inv:
  assumes "winv agree env w" "agree \<longrightarrow> undisturbing env w (WuRestartCaddy vars)"
  shows "winv agree env (snd (restart_caddy env vars w))"
proof -
  let ?w0 = "w\<lparr>wu_caddy := we_baseline env\<rparr>"
  have base: "edits_ok env" "caddy_ok (wu_caddy ?w0)" using assms(1) by (simp_all add: webui_inv_def edits_ok_def)
  show ?thesis
  proof (cases "load_listeners vars (wu_file w)")
    case (Inl e)
    then have "restart_caddy env vars w = (Inl (WuListeners e), ?w0)"
      by (simp add: restart_caddy_def webui_listeners_restore_def io_defs)
    with assms base show ?thesis by (auto simp: webui_inv_def undisturbing_def file_agrees_def)
  next
    case (Inr s)
    obtain r w' where r: "apply_caddy env (confirmed s) ?w0 = (r, w')" by fastforce
    then have rw: "restart_caddy env vars w = (r, w')"
      using Inr by (simp add: restart_caddy_def webui_listeners_restore_def io_defs)
    note o1 = apply_caddy_outcome [OF base r]
    have "confirmed s = confirmed (wu_state w)" if "wu_file w = Absent \<longrightarrow>
        (\<exists>s. load_listeners vars Absent = Inr s \<and> confirmed s = confirmed (wu_state w))"
      using assms(1) Inr that
      by (cases "wu_file w")
        (auto simp: webui_inv_def file_agrees_def load_listeners_def res_bind_def split: sum.splits option.splits)
    with assms o1 rw show ?thesis
      by (auto simp: webui_inv_def undisturbing_def caddy_outcome_def wu_frame_def file_agrees_def in_force_def)
  qed
qed

lemma webui_step_inv:
  assumes "winv agree env w" "agree \<longrightarrow> undisturbing env w op"
  shows "winv agree env (webui_step set_ports env w op)"
proof -
  have "snd (webui_rollback set_ports env w) = snd (rollback_locked set_ports env w)"
    by (simp add: webui_rollback_def io_defs split: prod.split sum.split)
  then show ?thesis
    unfolding webui_step_def
    using assms update_inv confirm_inv rollback_inv tick_inv restart_inv edit_inv restart_caddy_inv
    by (cases op) (simp_all add: ignore_result_snd io_modify_def)
qed

lemma undisturbed_inv:
  "winv True env w \<Longrightarrow> undisturbed set_ports env w ops \<Longrightarrow> winv True env (run_steps (webui_step set_ports env) w ops)"
  by (induction ops arbitrary: w) (auto intro: webui_step_inv)

end

sublocale listener_firewall \<subseteq> webui: machine "webui_step set_ports env" "webui_inv opens fw_ok False env" for env
  by unfold_locales (rule webui_step_inv, simp_all)

section \<open>The firewall service as the handlers' firewall\<close>

definition webui_open :: "ListenerPorts \<Rightarrow> fw_world \<Rightarrow> bool" where
  "webui_open l w \<longleftrightarrow>
     (case find (is_service ''webui'') (fc_state (fw_config w)) of
        Some x \<Rightarrow> fr_ports x = restrict (fc_restrictions (fw_config w)) ''webui'' (listener_ports l)
      | None \<Rightarrow> False) \<and>
     fw_table w = fw_transaction (fw_config w)"

lemma commit_none_unchanged:
  assumes "nft_atomic env" "live_with (fw_config w) w" "relay_in_force w" "commit_candidate env c None w = (Inl e, w')"
  shows "fw_core w' = fw_core w"
proof -
  have "apply_nftables_with env c w = (Inl e, w')"
    using assms(4) by (auto simp: commit_candidate_def io_defs split: prod.splits sum.splits)
  then have "verdict_of (Inl e :: FwError + unit) = Unchanged" by (rule apply_error)
  then show ?thesis using commit_candidate_outcome [OF assms] by (simp add: settled_def)
qed

lemma set_webui_ports_outcome:
  assumes "fw_env_ok env" "fw_inv env w" "set_webui_ports env a b w = (r, w')"
  shows "fw_inv env w'" "r = Inr () \<Longrightarrow> webui_open \<lparr>https_port = a, http_port = b\<rparr> w'"
    "r = Inl e \<Longrightarrow> fw_core w' = fw_core w"
proof -
  have "commits_at env w (set_webui_ports env a b)" using ports_commits(3) [OF assms(2)] .
  then show inv: "fw_inv env w'"
    using fw_inv_same [OF assms(2)] commit_inv [OF assms(1)] assms(2,3) unfolding commits_at_def
    by simp (metis fw_inv_same)
  let ?c = "fw_config w"
  let ?n = "?c\<lparr>fc_state := update_first (is_service ''webui'')
      (\<lambda>r. r\<lparr>fr_ports := restrict (fc_restrictions ?c) ''webui'' (webui_ports a b)\<rparr>) (fc_state ?c)\<rparr>"
  show "webui_open \<lparr>https_port = a, http_port = b\<rparr> w'" if "r = Inr ()"
  proof -
    from assms(3) that obtain x where x: "find (is_service ''webui'') (fc_state ?c) = Some x"
      and c: "commit_candidate env ?n None w = (Inr (), w')"
      by (auto simp: set_webui_ports_def io_defs split: option.splits)
    have "is_service ''webui'' x" using find_set [OF x] by simp
    then have "find (is_service ''webui'') (fc_state ?n) = Some (x\<lparr>fr_ports := restrict (fc_restrictions ?c) ''webui'' (webui_ports a b)\<rparr>)"
      using find_update_first [OF x] by (simp add: is_service_def)
    then show ?thesis
      using commit_candidate_config [OF c] inv by (simp add: webui_open_def fw_inv_def live_with_def listener_ports_def)
  qed
  show "fw_core w' = fw_core w" if "r = Inl e"
    using assms that commit_none_unchanged [of env w ?n e w']
    by (auto simp: set_webui_ports_def io_defs fw_env_ok_def fw_inv_def split: option.splits)
qed

interpretation nasty: listener_firewall "set_webui_ports env" webui_open "\<lambda>w. fw_env_ok env \<and> fw_inv env w" for env
proof unfold_locales
  fix f f' and l :: ListenerPorts
  assume "fw_env_ok env \<and> fw_inv env f" "set_webui_ports env (https_port l) (http_port l) f = (Inr (), f')"
  then show "(fw_env_ok env \<and> fw_inv env f') \<and> webui_open l f'"
    using set_webui_ports_outcome(1,2) [of env f "https_port l" "http_port l" "Inr ()" f'] by (cases l) simp
next
  fix f a b e f'
  assume "fw_env_ok env \<and> fw_inv env f" "set_webui_ports env a b f = (Inl e, f')"
  then show "(fw_env_ok env \<and> fw_inv env f') \<and> (\<forall>l. webui_open l f \<longrightarrow> webui_open l f')"
    using set_webui_ports_outcome(1,3) [of env f a b "Inl e" f'] by (auto simp: webui_open_def fw_core_def split: option.splits)
qed
section \<open>Properties\<close>

text \<open>
  C11. In every execution of the listener service over the firewall service, with restarts of the
  engine and of Caddy and other clients editing Caddy, whatever calls fail: unless a rollback is
  still owed, the firewall's WebUI rule has exactly the ports of the change awaiting
  confirmation, or the confirmed ones when there is none, and the journal on disk has the
  confirmed ports of the running service. Caddy listens on the same ports as long as no restart
  of Caddy fell into the time a change was pending and each such restart restored the
  listeners.
\<close>
theorem listeners_and_firewall_agree:
  assumes "webui_inv webui_open (\<lambda>f. fw_env_ok fenv \<and> fw_inv fenv f) True env w"
    and "w' = run_steps (webui_step (set_webui_ports fenv) env) w ops"
  shows "(\<not> wu_recovering w' \<longrightarrow> webui_open (in_force (wu_state w')) (wu_firewall w')) \<and>
    journal_of (confirmed (wu_state w')) (wu_file w') \<and>
    (undisturbed (set_webui_ports fenv) env w ops \<and> \<not> wu_recovering w' \<longrightarrow>
      serves (in_force (wu_state w')) (wu_caddy w'))"
proof -
  have "webui_inv webui_open (\<lambda>f. fw_env_ok fenv \<and> fw_inv fenv f) False env w"
    using assms(1) by (simp add: webui_inv_def)
  then have "webui_inv webui_open (\<lambda>f. fw_env_ok fenv \<and> fw_inv fenv f) False env w'"
    using nasty.webui.run_inv assms(2) by blast
  moreover have "webui_inv webui_open (\<lambda>f. fw_env_ok fenv \<and> fw_inv fenv f) True env w'"
    if "undisturbed (set_webui_ports fenv) env w ops"
    using nasty.undisturbed_inv [OF assms(1) that] assms(2) by simp
  ultimately show ?thesis by (auto simp: webui_inv_def file_agrees_def)
qed

text \<open>
  C13. A restart of Caddy while a change awaits confirmation tears the two apart: Caddy comes back
  on the confirmed ports, the firewall keeps admitting those of the change, and no rollback is
  owed, so that the WebUI is cut off until the change expires.
\<close>
theorem caddy_restart_splits_a_pending_change:
  assumes "webui_inv webui_open (\<lambda>f. fw_env_ok fenv \<and> fw_inv fenv f) True env w"
    and "\<not> wu_recovering w" "pending_listeners (wu_state w) = Some p" "wu_file w = Parsed s"
    and "webui_do (set_webui_ports fenv) env (WuRestartCaddy vars) w = (Inr (), w')"
  shows "serves (confirmed (wu_state w)) (wu_caddy w') \<and> webui_open (pl_ports p) (wu_firewall w') \<and>
    \<not> wu_recovering w' \<and> wu_state w' = wu_state w"
proof -
  let ?w0 = "w\<lparr>wu_caddy := we_baseline env\<rparr>"
  have base: "edits_ok env" "caddy_ok (wu_caddy ?w0)" "confirmed s = confirmed (wu_state w)"
      "webui_open (pl_ports p) (wu_firewall w)"
    using assms(1-4) by (simp_all add: webui_inv_def edits_ok_def file_agrees_def in_force_def)
  obtain s' where "load_listeners vars (Parsed s) = Inr s'" "confirmed s' = confirmed s"
    and r: "apply_caddy env (confirmed s') ?w0 = (Inr (), w')"
    using assms(4,5)
    by (auto simp: restart_caddy_def webui_listeners_restore_def io_defs load_listeners_def res_bind_def
        split: sum.splits)
  with apply_caddy_outcome [OF base(1,2) r] base(3,4) assms(2)
  show ?thesis by (simp add: caddy_outcome_def wu_frame_def)
qed

definition caddy_server :: "string \<Rightarrow> json \<Rightarrow> json option" where
  "caddy_server n http = (case jget ''servers'' http of Some (JObj m) \<Rightarrow> map_of m n | _ \<Rightarrow> None)"

lemma configure_servers_kept:
  assumes "configure_servers l m = Inr m'" "wf_obj m" "map_of m n = Some s" "\<not> is_redirect_server s"
  shows "\<exists>s'. map_of m' n = Some s' \<and> (\<not> is_tls_server s \<longrightarrow> s' = s) \<and>
    (\<forall>k. k \<noteq> ''listen'' \<and> k \<noteq> ''automatic_https'' \<longrightarrow> jget k s' = jget k s)"
proof -
  obtain a tls tls' kept where f: "filter (\<lambda>(n, s). is_tls_server s) m = [(a, tls)]"
    and sl: "set_listeners (https_port l) tls = Inr tls'"
    and kept: "kept = filter (\<lambda>(n, s). \<not> is_redirect_server s) (obj_insert a tls' m)"
    and m': "m' = (case http_port l of None \<Rightarrow> kept | Some p \<Rightarrow> obj_insert ''nasty_webui_redirect'' (redirect_server l p) kept)"
    and new: "http_port l \<noteq> None \<longrightarrow> ''nasty_webui_redirect'' \<notin> fst ` set kept"
    using configure_servers_Inr [OF assms(1)] by blast
  have "(a, tls) \<in> set (filter (\<lambda>(n, s). is_tls_server s) m)" using f by simp
  then have at: "is_tls_server tls" "map_of m a = Some tls"
    using wf_obj_distinct [OF assms(2)] by (auto intro: map_of_is_SomeI)
  let ?s = "if n = a then tls' else s"
  have "\<not> is_redirect_server ?s" using assms(3,4) at set_listeners_kind(2) [OF sl] by auto
  then have k: "map_of kept n = Some ?s"
    using assms(3) wf_obj_distinct [OF wf_obj_insert [OF assms(2)]] unfolding kept
    by (subst map_of_filter_distinct) (auto split: if_splits)
  then have "n \<in> fst ` set kept" by (metis map_of_eq_None_iff option.distinct(1))
  then have "n \<noteq> ''nasty_webui_redirect'' \<or> http_port l = None" using new by metis
  with k have "map_of m' n = Some ?s" by (auto simp: m' split: option.split)
  moreover have "jget k ?s = jget k s" if "k \<noteq> ''listen''" "k \<noteq> ''automatic_https''" for k
    using set_listeners_facts(1) [OF sl that] at(2) assms(3) by auto
  moreover have "\<not> is_tls_server s \<longrightarrow> ?s = s" using at assms(3) by auto
  ultimately show ?thesis by blast
qed

text \<open>
  C23. Moving the listeners leaves the rest of Caddy's configuration alone: every setting of the
  HTTP application but its servers and two port settings, every server that is neither the TLS
  server nor a redirect, and every setting of the TLS server but its addresses and its automatic
  HTTPS, in particular its routes and TLS policies.
\<close>
theorem caddy_routes_kept:
  assumes "configure_http l http = Inr http'" "caddy_ok http"
  shows "(\<forall>k. k \<notin> {''servers'', ''https_port'', ''http_port''} \<longrightarrow> jget k http' = jget k http) \<and>
    (\<forall>n s. caddy_server n http = Some s \<and> \<not> is_redirect_server s \<longrightarrow>
      (\<exists>s'. caddy_server n http' = Some s' \<and> (\<not> is_tls_server s \<longrightarrow> s' = s) \<and>
        (\<forall>k. k \<notin> {''listen'', ''automatic_https''} \<longrightarrow> jget k s' = jget k s)))"
proof -
  obtain m servers servers' where h: "http = JObj m" "map_of m ''servers'' = Some (JObj servers)"
    and c: "configure_servers l servers = Inr servers'"
    and j: "jget ''servers'' http' = Some (JObj servers')" "\<forall>k. k \<notin> {''servers'', ''https_port'', ''http_port''} \<longrightarrow> jget k http' = map_of m k"
    using assms(1) by (elim configure_http_Inr) auto
  have "wf_obj servers" using assms(2) h by (simp add: caddy_ok_def)
  then show ?thesis
    using configure_servers_kept [OF c] h j by (auto simp: caddy_server_def)
qed

lemma caddy_moves:
  assumes "we_get env (wu_calls w) = None" "\<And>n h. we_edit env n h = h" "we_patch env (wu_calls w) = PatchOk"
    and "configure_http l (wu_caddy w) = Inr http"
  shows "\<exists>w'. apply_caddy env l w = (Inr (), w')"
proof -
  have "4 = Suc 3" by simp
  then show ?thesis
    using assms by (simp only: apply_caddy_def caddy_rounds.simps) (simp add: caddy_round_def io_defs Let_def)
qed

text \<open>
  C12. A change nobody confirms is undone: when its deadline has passed, or a rollback is owed after
  a restart, and no call fails, one tick restores the confirmed ports in Caddy and the firewall,
  and nothing is pending any more.
\<close>
theorem expired_change_is_rolled_back:
  assumes "webui_inv webui_open (\<lambda>f. fw_env_ok fenv \<and> fw_inv fenv f) False env w"
    and "wu_recovering w \<or> pending_listeners (wu_state w) = Some p \<and> pl_deadline p \<le> we_now env (wu_calls w)"
    and "\<And>n. we_files env n = None" "\<And>n. we_get env n = None" "\<And>n h. we_edit env n h = h" "\<And>n. we_patch env n = PatchOk"
    and "configure_http (confirmed (wu_state w)) (wu_caddy w) = Inr http"
    and "set_webui_ports fenv (https_port (confirmed (wu_state w))) (http_port (confirmed (wu_state w))) (wu_firewall w) = (Inr (), f)"
  shows "\<exists>w'. webui_tick (set_webui_ports fenv) env w = (Inr (), w') \<and>
    wu_state w' = (wu_state w)\<lparr>pending_listeners := None\<rparr> \<and> \<not> wu_recovering w' \<and>
    webui_open (confirmed (wu_state w)) (wu_firewall w') \<and> serves (confirmed (wu_state w)) (wu_caddy w')"
proof -
  let ?c = "confirmed (wu_state w)" and ?w0 = "(tick_call w)\<lparr>wu_recovering := True\<rparr>"
  obtain w1 where 1: "apply_caddy env ?c ?w0 = (Inr (), w1)"
    using caddy_moves [of env ?w0 ?c http] assms(4-7) by (auto simp: tick_call_def)
  have base: "edits_ok env" "caddy_ok (wu_caddy ?w0)" using assms(1) by (simp_all add: webui_inv_def tick_call_def)
  have f1: "wu_frame ?w0 w1" using apply_caddy_outcome [OF base 1] by (simp add: caddy_outcome_def)
  then have 2: "set_firewall (set_webui_ports fenv) ?c w1 = (Inr (), w1\<lparr>wu_firewall := f\<rparr>)"
    using assms(8) by (simp add: set_firewall_def zoom_def wu_frame_def tick_call_def)
  have "\<exists>w'. rollback_locked (set_webui_ports fenv) env (tick_call w) = (Inr (), w')"
    using 1 2 assms(3) by (simp add: rollback_locked_def io_defs Let_def save_def tick_call_def)
  then obtain w' where 3: "rollback_locked (set_webui_ports fenv) env (tick_call w) = (Inr (), w')" by blast
  have "rolled_back webui_open (\<lambda>f. fw_env_ok fenv \<and> fw_inv fenv f) True (tick_call w) w'"
    using nasty.rollback_outcome [OF base(1) _ _ _ 3] assms(1)
    by (simp add: webui_inv_def tick_call_def file_agrees_def)
  moreover have "webui_tick (set_webui_ports fenv) env w = (Inr (), w')"
    using assms(2) 3 by (auto simp: webui_tick_def io_defs)
  ultimately show ?thesis by (simp add: rolled_back_def listeners_at_def tick_call_def)
qed


section \<open>An installation as an example\<close>

text \<open>Caddy with the server of the WebUI and its routes, on the default ports; the clock moves on by a minute with every call.\<close>

definition wu_ex_ports :: ListenerPorts where
  "wu_ex_ports = \<lparr>https_port = 443, http_port = Some 80\<rparr>"

definition wu_ex_moved :: ListenerPorts where
  "wu_ex_moved = \<lparr>https_port = 8443, http_port = None\<rparr>"

definition wu_ex_tls :: json where
  "wu_ex_tls = jobj [(''listen'', JArr [JStr '':443'']), (''routes'', JArr [jobj [(''terminal'', JBool True)]]),
                     (''tls_connection_policies'', JArr [jobj []])]"

definition wu_ex_caddy :: json where
  "wu_ex_caddy = jobj [(''servers'', jobj [(''srv0'', wu_ex_tls), (''metrics'', jobj [(''listen'', JArr [JStr '':9180''])]),
                                           (''nasty_webui_redirect'', redirect_server wu_ex_ports 80)])]"

definition wu_ex_env :: webui_env where
  "wu_ex_env = \<lparr>we_files = (\<lambda>_. None), we_get = (\<lambda>_. None), we_edit = (\<lambda>_ h. h), we_patch = (\<lambda>_. PatchOk),
                we_baseline = wu_ex_caddy,
                we_health = (\<lambda>_. Inr True), we_now = (\<lambda>n. 60 * of_nat n), we_uuid = show_nat, we_message = (\<lambda>_. [])\<rparr>"

definition wu_ex_world :: "fw_world webui_world" where
  "wu_ex_world = \<lparr>wu_state = \<lparr>confirmed = wu_ex_ports, pending_listeners = None, last_error = None\<rparr>,
                  wu_recovering = False, wu_file = Absent, wu_caddy = wu_ex_caddy, wu_firewall = fw_ex_ready, wu_calls = 0\<rparr>"

definition wu_ex_pending :: "fw_world webui_world" where
  "wu_ex_pending = snd (webui_do (set_webui_ports fw_ex_env) wu_ex_env (WuUpdate wu_ex_moved) wu_ex_world)"

lemma wu_ex_serves: "serves wu_ex_ports wu_ex_caddy" "caddy_ok wu_ex_caddy" by code_simp+

lemma wu_ex_open: "webui_open wu_ex_ports fw_ex_ready" by code_simp

lemma wu_ex_edits: "edits_ok wu_ex_env" using wu_ex_serves(2) by (simp add: edits_ok_def wu_ex_env_def)

lemma wu_ex_fw: "fw_env_ok fw_ex_env \<and> fw_inv fw_ex_env fw_ex_ready"
  using fw.run_inv [of fw_ex_env fw_ex_world "take 1 fw_ex_ops"] fw_ex_env_ok fw_ex_inv(1)
  by (simp add: fw_ex_ready_def)

lemma wu_ex_inv: "webui_inv webui_open (\<lambda>f. fw_env_ok fw_ex_env \<and> fw_inv fw_ex_env f) True wu_ex_env wu_ex_world"
  using wu_ex_serves wu_ex_open wu_ex_edits wu_ex_fw
  by (simp add: webui_inv_def wu_ex_world_def file_agrees_def listeners_at_def in_force_def)

lemma wu_ex_pending_inv:
  "webui_inv webui_open (\<lambda>f. fw_env_ok fw_ex_env \<and> fw_inv fw_ex_env f) True wu_ex_env wu_ex_pending"
  using nasty.undisturbed_inv [OF wu_ex_inv, of "[WuUpdate wu_ex_moved]"]
  by (simp add: wu_ex_pending_def webui_step_def undisturbing_def)

lemma wu_ex_pending_facts:
  "wu_recovering wu_ex_pending = False" "confirmed (wu_state wu_ex_pending) = wu_ex_ports"
  "pending_listeners (wu_state wu_ex_pending) = Some \<lparr>pl_txn_id = ''0'', pl_ports = wu_ex_moved, pl_deadline = 30\<rparr>"
  "wu_calls wu_ex_pending = 2"
  by code_simp+

lemma wu_ex_pending_runs:
  "fst (set_webui_ports fw_ex_env 443 (Some 80) (wu_firewall wu_ex_pending)) = Inr ()"
  "isl (configure_http wu_ex_ports (wu_caddy wu_ex_pending)) = False"
  by code_simp+

theorem listeners_and_firewall_agree_witness:
  "webui_open wu_ex_moved (wu_firewall wu_ex_pending) \<and> serves wu_ex_moved (wu_caddy wu_ex_pending)"
proof -
  have "run_steps (webui_step (set_webui_ports fw_ex_env) wu_ex_env) wu_ex_world [WuUpdate wu_ex_moved] = wu_ex_pending"
    by (simp add: wu_ex_pending_def webui_step_def)
  then show ?thesis
    using listeners_and_firewall_agree [OF wu_ex_inv refl, of "[WuUpdate wu_ex_moved]"] wu_ex_pending_facts
    by (simp add: in_force_def undisturbing_def)
qed

lemma wu_ex_split_runs:
  "wu_file wu_ex_pending = Parsed (wu_state wu_ex_pending)"
  "fst (webui_do (set_webui_ports fw_ex_env) wu_ex_env (WuRestartCaddy (fw_vars fw_ex_env)) wu_ex_pending) = Inr ()"
  by code_simp+

theorem caddy_restart_splits_a_pending_change_witness:
  "\<exists>w'. webui_do (set_webui_ports fw_ex_env) wu_ex_env (WuRestartCaddy (fw_vars fw_ex_env)) wu_ex_pending = (Inr (), w') \<and>
     serves wu_ex_ports (wu_caddy w') \<and> webui_open wu_ex_moved (wu_firewall w') \<and> \<not> wu_recovering w'"
proof -
  obtain w' where w': "webui_do (set_webui_ports fw_ex_env) wu_ex_env (WuRestartCaddy (fw_vars fw_ex_env)) wu_ex_pending = (Inr (), w')"
    using wu_ex_split_runs(2) by (metis prod.collapse)
  from wu_ex_pending_facts(1) have "\<not> wu_recovering wu_ex_pending" by simp
  from caddy_restart_splits_a_pending_change [OF wu_ex_pending_inv this wu_ex_pending_facts(3) wu_ex_split_runs(1) w']
    w' wu_ex_pending_facts(2) show ?thesis by simp
qed

definition wu_ex_after :: json where
  "wu_ex_after = (case configure_http wu_ex_moved wu_ex_caddy of Inr h \<Rightarrow> h | Inl _ \<Rightarrow> JNull)"

lemma wu_ex_after: "configure_http wu_ex_moved wu_ex_caddy = Inr wu_ex_after" by code_simp

lemma wu_ex_servers:
  "caddy_server ''srv0'' wu_ex_caddy = Some wu_ex_tls" "\<not> is_redirect_server wu_ex_tls"
  "jget ''routes'' wu_ex_tls = Some (JArr [JObj [(''terminal'', JBool True)]])"
  by code_simp+

theorem caddy_routes_kept_witness:
  "\<exists>s. caddy_server ''srv0'' wu_ex_after = Some s \<and> jget ''routes'' s = Some (JArr [JObj [(''terminal'', JBool True)]])"
proof -
  have "\<forall>n s. caddy_server n wu_ex_caddy = Some s \<and> \<not> is_redirect_server s \<longrightarrow>
      (\<exists>s'. caddy_server n wu_ex_after = Some s' \<and> (\<not> is_tls_server s \<longrightarrow> s' = s) \<and>
        (\<forall>k. k \<notin> {''listen'', ''automatic_https''} \<longrightarrow> jget k s' = jget k s))"
    using caddy_routes_kept [OF wu_ex_after wu_ex_serves(2)] by (rule conjunct2)
  then obtain s' where "caddy_server ''srv0'' wu_ex_after = Some s'"
    and k: "\<forall>k. k \<notin> {''listen'', ''automatic_https''} \<longrightarrow> jget k s' = jget k wu_ex_tls"
    using wu_ex_servers(1,2) by blast
  moreover have "jget ''routes'' s' = jget ''routes'' wu_ex_tls" using k by simp
  ultimately show ?thesis using wu_ex_servers(3) by simp
qed

theorem expired_change_is_rolled_back_witness:
  "\<exists>w'. webui_tick (set_webui_ports fw_ex_env) wu_ex_env wu_ex_pending = (Inr (), w') \<and>
     pending_listeners (wu_state w') = None \<and>
     webui_open wu_ex_ports (wu_firewall w') \<and> serves wu_ex_ports (wu_caddy w')"
proof -
  have inv: "webui_inv webui_open (\<lambda>f. fw_env_ok fw_ex_env \<and> fw_inv fw_ex_env f) False wu_ex_env wu_ex_pending"
    using wu_ex_pending_inv by (simp add: webui_inv_def)
  obtain http where "configure_http wu_ex_ports (wu_caddy wu_ex_pending) = Inr http"
    using wu_ex_pending_runs(2) by (cases "configure_http wu_ex_ports (wu_caddy wu_ex_pending)") auto
  moreover obtain f where "set_webui_ports fw_ex_env 443 (Some 80) (wu_firewall wu_ex_pending) = (Inr (), f)"
    using wu_ex_pending_runs(1) by (metis prod.collapse)
  moreover have "(30 :: u64) \<le> 60 * of_nat 2" by simp
  ultimately show ?thesis
    using expired_change_is_rolled_back [OF inv, of "\<lparr>pl_txn_id = ''0'', pl_ports = wu_ex_moved, pl_deadline = 30\<rparr>" http f]
      wu_ex_pending_facts
    by (auto simp: wu_ex_env_def wu_ex_ports_def)
qed

end
