(* ===== verification/Systemd.thy ===== *)
theory Systemd
  imports Prelude
begin

text \<open>
  The service manager as the engine uses it (\<open>systemctl\<close>, \<open>systemctl_is_active\<close> and \<open>modprobe\<close> in
  \<open>engine/nasty-system/src/protocol.rs\<close>). systemd is a parameter: for the n-th call it says how
  the call ends and what the states of all units are afterwards, so units may also stop, fail or
  come back on their own between two calls. What the engine relies on is \<open>systemd_ok\<close>.
\<close>

text \<open>The \<open>LoadState\<close> and \<open>ActiveState\<close> of every unit.\<close>

type_synonym units = "string \<Rightarrow> string \<times> string"

record systemd =
  sd_run :: "nat \<Rightarrow> string \<Rightarrow> string \<Rightarrow> units \<Rightarrow> string option \<times> units"
  sd_wait :: "nat \<Rightarrow> units \<Rightarrow> units"
  sd_query :: outcomes

record sv_world =
  sv_units :: units
  sv_calls :: nat

definition running :: "units \<Rightarrow> string \<Rightarrow> bool" where
  "running us u \<longleftrightarrow> snd (us u) = ''active''"

definition stopped :: "units \<Rightarrow> string \<Rightarrow> bool" where
  "stopped us u \<longleftrightarrow> fst (us u) = ''not-found'' \<or> snd (us u) = ''inactive'' \<or> snd (us u) = ''failed''"

definition next_call :: "'a sv_world_scheme \<Rightarrow> 'a sv_world_scheme" where
  "next_call w = w\<lparr>sv_calls := Suc (sv_calls w)\<rparr>"

definition unit_ctl :: "systemd \<Rightarrow> string \<Rightarrow> string \<Rightarrow> ('a sv_world_scheme, string, unit) io" where
  "unit_ctl sd action u w =
     (case sd_run sd (sv_calls w) action u (sv_units w) of
        (None, us) \<Rightarrow> (Inr (), next_call (w\<lparr>sv_units := us\<rparr>))
      | (Some e, us) \<Rightarrow> (Inl e, next_call (w\<lparr>sv_units := us\<rparr>)))"

text \<open>A query sees the units as they are at that time; one that cannot be run answers no.\<close>

definition unit_active :: "systemd \<Rightarrow> string \<Rightarrow> ('a sv_world_scheme, 'e, bool) io" where
  "unit_active sd u w =
     (let us = sd_wait sd (sv_calls w) (sv_units w)
      in (Inr (sd_query sd (sv_calls w) = None \<and> running us u), next_call (w\<lparr>sv_units := us\<rparr>)))"

definition unit_state :: "systemd \<Rightarrow> string \<Rightarrow> ('a sv_world_scheme, string, string \<times> string) io" where
  "unit_state sd u w =
     (let us = sd_wait sd (sv_calls w) (sv_units w); w' = next_call (w\<lparr>sv_units := us\<rparr>)
      in case sd_query sd (sv_calls w) of
           None \<Rightarrow> (Inr (us u), w')
         | Some e \<Rightarrow> (Inl e, w'))"

text \<open>
  What is relied on: a start or restart that is reported as done leaves the unit active, a stop
  leaves it stopped.
\<close>

definition systemd_ok :: "systemd \<Rightarrow> bool" where
  "systemd_ok sd \<longleftrightarrow>
     (\<forall>n action u us us'. sd_run sd n action u us = (None, us') \<longrightarrow>
        (action \<in> {''start'', ''restart''} \<longrightarrow> running us' u) \<and> (action = ''stop'' \<longrightarrow> stopped us' u))"

lemma stopped_not_running: "stopped us u \<Longrightarrow> fst (us u) \<noteq> ''not-found'' \<Longrightarrow> \<not> running us u"
  by (auto simp: stopped_def running_def)

section \<open>What the calls leave alone\<close>

text \<open>Two worlds that differ in the units and the number of calls only.\<close>

definition sv_frame :: "'a sv_world_scheme \<Rightarrow> 'a sv_world_scheme \<Rightarrow> bool" where
  "sv_frame w w' \<longleftrightarrow> sv_world.more w' = sv_world.more w"

lemma sv_frame_refl [simp]: "sv_frame w w"
  by (simp add: sv_frame_def)

lemma sv_frame_trans: "sv_frame w v \<Longrightarrow> sv_frame v u \<Longrightarrow> sv_frame w u"
  by (simp add: sv_frame_def)

lemma sv_frame_update [simp]: "sv_frame w (next_call (w\<lparr>sv_units := us\<rparr>))" "sv_frame w (next_call w)"
  by (simp_all add: sv_frame_def next_call_def)

lemma unit_calls_frame:
  "unit_ctl sd action u w = (r, w') \<Longrightarrow> sv_frame w w'"
  "unit_active sd u w = (r', w') \<Longrightarrow> sv_frame w w'"
  "unit_state sd u w = (r'', w') \<Longrightarrow> sv_frame w w'"
  by (auto simp: unit_ctl_def unit_active_def unit_state_def Let_def split: prod.splits option.splits)

lemma unit_ctl_started:
  "systemd_ok sd \<Longrightarrow> action \<in> {''start'', ''restart''} \<Longrightarrow> unit_ctl sd action u w = (Inr (), w') \<Longrightarrow> running (sv_units w') u"
  by (auto simp: systemd_ok_def unit_ctl_def next_call_def split: prod.splits option.splits)

lemma unit_ctl_stopped:
  "systemd_ok sd \<Longrightarrow> unit_ctl sd ''stop'' u w = (Inr (), w') \<Longrightarrow> stopped (sv_units w') u"
  by (auto simp: systemd_ok_def unit_ctl_def next_call_def split: prod.splits option.splits)

lemma unit_active_running: "unit_active sd u w = (Inr True, w') \<Longrightarrow> running (sv_units w') u"
  by (auto simp: unit_active_def next_call_def Let_def)

lemma unit_state_current: "unit_state sd u w = (Inr s, w') \<Longrightarrow> sv_units w' u = s"
  by (auto simp: unit_state_def next_call_def Let_def split: option.splits)

text \<open>Predicates that do not look at the units or the number of calls.\<close>

definition sv_stable :: "('a sv_world_scheme \<Rightarrow> bool) \<Rightarrow> bool" where
  "sv_stable P \<longleftrightarrow> (\<forall>w w'. sv_frame w w' \<longrightarrow> P w \<longrightarrow> P w')"

lemma keeps_stable: "(\<And>w r w'. m w = (r, w') \<Longrightarrow> sv_frame w w') \<Longrightarrow> sv_stable P \<Longrightarrow> keeps P m"
  unfolding keeps_def sv_stable_def by (metis prod.collapse)

lemma keeps_units [io_rules]:
  "sv_stable P \<Longrightarrow> keeps P (unit_ctl sd action u)" "sv_stable P \<Longrightarrow> keeps P (unit_active sd u)"
  "sv_stable P \<Longrightarrow> keeps P (unit_state sd u)"
  by (rule keeps_stable, erule unit_calls_frame, assumption)+

end
