(* ===== verification/Rust_Int.thy ===== *)
theory Rust_Int
  imports Prelude "HOL-Library.Word"
begin

text \<open>
  The checked, saturating and rounding operations of Rust's unsigned integers that the engine
  uses, over machine words of any width, and their meaning on natural numbers. Every lemma here
  says what an operation computes, so that the components reason about numbers.
\<close>

definition checked_mul :: "'a::len word \<Rightarrow> 'a word \<Rightarrow> 'a word option" where
  "checked_mul a b = (if unat a * unat b < 2 ^ LENGTH('a) then Some (a * b) else None)"

definition checked_add :: "'a::len word \<Rightarrow> 'a word \<Rightarrow> 'a word option" where
  "checked_add a b = (if unat a + unat b < 2 ^ LENGTH('a) then Some (a + b) else None)"

definition saturating_add :: "'a::len word \<Rightarrow> 'a word \<Rightarrow> 'a word" where
  "saturating_add a b = (if unat a + unat b < 2 ^ LENGTH('a) then a + b else - 1)"

definition saturating_sub :: "'a::len word \<Rightarrow> 'a word \<Rightarrow> 'a word" where
  "saturating_sub a b = (if b \<le> a then a - b else 0)"

definition div_ceil :: "'a::len word \<Rightarrow> 'a word \<Rightarrow> 'a word" where
  "div_ceil a b = (if a mod b = 0 then a div b else a div b + 1)"

lemma unat_below: "unat w < 2 ^ LENGTH('a)" for w :: "'a::len word"
  by (rule unsigned_less)

lemma unat_mult_bounded:
  "unat a * unat b < 2 ^ LENGTH('a) \<Longrightarrow> unat (a * b) = unat a * unat b" for a b :: "'a::len word"
  using unat_mult_lem by blast

lemma unat_add_bounded:
  "unat a + unat b < 2 ^ LENGTH('a) \<Longrightarrow> unat (a + b) = unat a + unat b" for a b :: "'a::len word"
  using unat_add_lem by blast

lemma checked_mul_Some:
  "checked_mul a b = Some c \<longleftrightarrow> unat c = unat a * unat b" for a b c :: "'a::len word"
  using unat_below [of c] by (auto simp: checked_mul_def unat_mult_bounded word_unat_eq_iff simp del: unsigned_less)

lemma checked_add_Some:
  "checked_add a b = Some c \<longleftrightarrow> unat c = unat a + unat b" for a b c :: "'a::len word"
  using unat_below [of c] by (auto simp: checked_add_def unat_add_bounded word_unat_eq_iff simp del: unsigned_less)

lemma unat_saturating_add:
  "unat (saturating_add a b) = min (unat a + unat b) (2 ^ LENGTH('a) - 1)" for a b :: "'a::len word"
  by (auto simp: saturating_add_def unat_add_bounded unsigned_minus_1_eq_mask mask_eq_exp_minus_1)

lemma unat_saturating_sub: "unat (saturating_sub a b) = unat a - unat b"
  by (auto simp: saturating_sub_def unat_sub word_le_nat_alt)

lemma ceiling_cases:
  fixes n b :: nat
  assumes "0 < b"
  shows "(n + b - 1) div b = (if n mod b = 0 then n div b else n div b + 1)"
proof -
  have "n + b - 1 = (n mod b + b - 1) + n div b * b"
    using assms div_mult_mod_eq [of n b] by linarith
  then have "(n + b - 1) div b = (n mod b + b - 1) div b + n div b" using assms by (metis div_mult_self3 add.commute not_less0)
  moreover have "(n mod b + b - 1) div b = (if n mod b = 0 then 0 else 1)"
    using mod_less_divisor [OF assms, of n] by (auto intro!: div_nat_eqI)
  ultimately show ?thesis by simp
qed

lemma unat_div_ceil:
  fixes a b :: "'a::len word"
  assumes "b \<noteq> 0"
  shows "unat (div_ceil a b) = (unat a + unat b - 1) div unat b"
proof -
  have b: "0 < unat b" using assms by (simp add: unat_gt_0)
  have z: "a mod b = 0 \<longleftrightarrow> unat a mod unat b = 0" by (simp add: unat_mod [symmetric] unat_eq_0)
  have "unat (a div b + 1) = unat a div unat b + 1" if "unat a mod unat b \<noteq> 0"
  proof -
    have "unat a \<noteq> 0" using that by (metis mod_0)
    moreover have "unat b \<noteq> 1" using that by (metis mod_by_1)
    ultimately have "unat a div unat b + 1 \<le> unat a" using b div_less_dividend [of "unat b" "unat a"] by linarith
    then have "unat (a div b) + unat (1 :: 'a word) < 2 ^ LENGTH('a)"
      using le_less_trans [OF _ unat_below [of a]] by (simp add: unat_div)
    then show ?thesis using unat_add_bounded [of "a div b" 1] by (simp add: unat_div)
  qed
  then show ?thesis using z ceiling_cases [OF b, of "unat a"] by (auto simp: div_ceil_def unat_div)
qed

lemma ceiling_least:
  fixes n b p :: nat
  assumes "0 < b" "p = (n + b - 1) div b"
  shows "n \<le> p * b" "p * b < n + b"
proof -
  have e: "n + b - 1 = p * b + (n + b - 1) mod b" using assms(2) by simp
  have "(n + b - 1) mod b < b" using assms(1) by simp
  with e show "n \<le> p * b" using assms(1) by linarith
  show "p * b < n + b" using e assms(1) by linarith
qed

end
