(* ===== verification/Watchdog_Config.thy ===== *)
theory Watchdog_Config
  imports Rust_Int Net_Std Network_Types
begin

text \<open>
  The configuration of the health watchdog (\<open>engine/nasty-system/src/watchdog.rs\<close>, the types and
  the functions without effects): validation, the conversion of the memory threshold to pages,
  the normalisation of ping targets, and the file for the daemon. The theory \<open>Watchdog\<close> has the
  service. The page size is a parameter; it is what \<open>sysconf\<close> answers, as a signed word.
\<close>

record WatchdogConfig =
  max_load_1 :: u32
  max_load_5 :: u32
  max_load_15 :: u32
  min_memory_mib :: u64
  ping_hosts :: "string list"

record WatchdogConfigUpdate =
  up_load_1 :: "u32 option"
  up_load_5 :: "u32 option"
  up_load_15 :: "u32 option"
  up_memory_mib :: "u64 option"
  up_ping_hosts :: "string list option"

datatype WdError =
    LoadsPartial
  | LoadTooLow
  | TooManyHosts
  | NotIpv4 string
  | NotUnicast string
  | NoPageSize
  | MemoryTooLarge
  | TooManyPages
  | WdRead string
  | WdParse
  | LoadRead string
  | LoadIncomplete
  | LoadExceeded string
  | MemoryRead string
  | MemoryMissing string
  | MemoryInvalid string
  | MemoryLow
  | PingFailed string string
  | WdIo string
  | WdCtl string
  | WdExited
  | WdRunning
  | WdPersist WdError
  | WdPersistAndRestore WdError WdError
  | WdRestart WdError
  | WdRestartAndRestore WdError "WdError list"

definition default_watchdog :: WatchdogConfig where
  "default_watchdog = \<lparr>max_load_1 = 0, max_load_5 = 0, max_load_15 = 0, min_memory_mib = 0, ping_hosts = []\<rparr>"

definition max_ping_hosts :: nat where
  "max_ping_hosts = 16"

definition parse_ping_host :: "string \<Rightarrow> WdError + u32" where
  "parse_ping_host host =
     (case parse_ipv4 host of
        None \<Rightarrow> Inl (NotIpv4 host)
      | Some a \<Rightarrow>
          if a = 0 \<or> (224 \<le> octet 0 a \<and> octet 0 a \<le> 239) \<or> a = - 1 then Inl (NotUnicast host) else Inr a)"

definition memory_pages :: "64 word \<Rightarrow> u64 \<Rightarrow> WdError + u64" where
  "memory_pages page_size mib =
     (if mib = 0 then Inr 0
      else if sint page_size \<le> 0 then Inl NoPageSize
      else case checked_mul mib (1024 * 1024) of
             None \<Rightarrow> Inl MemoryTooLarge
           | Some bytes \<Rightarrow>
               let pages = div_ceil bytes page_size
               in if pages > 2147483647 then Inl TooManyPages else Inr pages)"

definition loads_of :: "WatchdogConfig \<Rightarrow> u32 list" where
  "loads_of c = [max_load_1 c, max_load_5 c, max_load_15 c]"

definition validate_watchdog :: "64 word \<Rightarrow> WatchdogConfig \<Rightarrow> WdError + unit" where
  "validate_watchdog page_size c =
     (let enabled_loads = length (filter (\<lambda>v. v \<noteq> 0) (loads_of c))
      in res_bind (guard (\<not> (enabled_loads \<noteq> 0 \<and> enabled_loads \<noteq> length (loads_of c))) LoadsPartial) (\<lambda>_.
         res_bind (guard (find (\<lambda>v. v = 1) (loads_of c) = None) LoadTooLow) (\<lambda>_.
         res_bind (guard (length (ping_hosts c) \<le> max_ping_hosts) TooManyHosts) (\<lambda>_.
         res_bind (try_all (\<lambda>h. res_bind (parse_ping_host h) (\<lambda>_. Inr ())) (ping_hosts c)) (\<lambda>_.
         res_bind (memory_pages page_size (min_memory_mib c)) (\<lambda>_. Inr ()))))))"

fun normalize_loop :: "string list \<Rightarrow> string list \<Rightarrow> WdError + string list" where
  "normalize_loop seen [] = Inr seen"
| "normalize_loop seen (h # hs) =
     (if trim h = [] then normalize_loop seen hs
      else res_bind (parse_ping_host (trim h)) (\<lambda>a.
           if show_ipv4 a \<in> set seen then normalize_loop seen hs
           else normalize_loop (seen @ [show_ipv4 a]) hs))"

definition normalize_ping_hosts :: "string list \<Rightarrow> WdError + string list" where
  "normalize_ping_hosts hosts =
     res_bind (normalize_loop [] hosts) (\<lambda>ns.
     if max_ping_hosts < length ns then Inl TooManyHosts else Inr ns)"

definition setting :: "string \<Rightarrow> string \<Rightarrow> string" where
  "setting k v = k @ '' = '' @ v @ [CHR 0x0A]"

definition config_head :: string where
  "config_head =
     ''# Managed by NASty - do not edit manually'' @ [CHR 0x0A] @ setting ''interval'' ''10'' @
     setting ''realtime'' ''yes'' @ setting ''priority'' ''1'' @ setting ''retry-timeout'' ''60'' @
     setting ''repair-maximum'' ''1'' @ setting ''ping-count'' ''3''"

definition render_config :: "64 word \<Rightarrow> WatchdogConfig \<Rightarrow> WdError + string" where
  "render_config page_size c =
     res_bind (validate_watchdog page_size c) (\<lambda>_.
     res_bind (memory_pages page_size (min_memory_mib c)) (\<lambda>pages.
     Inr (config_head @
          setting ''max-load-1'' (show_nat (unat (max_load_1 c))) @
          setting ''max-load-5'' (show_nat (unat (max_load_5 c))) @
          setting ''max-load-15'' (show_nat (unat (max_load_15 c))) @
          setting ''min-memory'' (show_nat (unat pages)) @
          concat (map (setting ''ping'') (ping_hosts c)))))"

definition opt_or :: "'a option \<Rightarrow> 'a \<Rightarrow> 'a" where
  "opt_or u v = (case u of None \<Rightarrow> v | Some x \<Rightarrow> x)"

definition merge_update :: "WatchdogConfigUpdate \<Rightarrow> WatchdogConfig \<Rightarrow> WdError + WatchdogConfig" where
  "merge_update u c =
     (let c' = c\<lparr>max_load_1 := opt_or (up_load_1 u) (max_load_1 c),
                 max_load_5 := opt_or (up_load_5 u) (max_load_5 c),
                 max_load_15 := opt_or (up_load_15 u) (max_load_15 c),
                 min_memory_mib := opt_or (up_memory_mib u) (min_memory_mib c)\<rparr>
      in case up_ping_hosts u of
           None \<Rightarrow> Inr c'
         | Some hs \<Rightarrow> res_bind (normalize_ping_hosts hs) (\<lambda>ns. Inr (c'\<lparr>ping_hosts := ns\<rparr>)))"

section \<open>Memory threshold\<close>

lemma memory_pages_Inr:
  assumes "mib \<noteq> 0"
  shows "memory_pages page_size mib = Inr n \<longleftrightarrow>
    0 < sint page_size \<and> unat mib * 1048576 < 2 ^ 64 \<and> unat n \<le> 2147483647 \<and>
    unat n = (unat mib * 1048576 + unat page_size - 1) div unat page_size"
proof (cases "0 < sint page_size")
  case True
  then have ps: "page_size \<noteq> 0" by auto
  show ?thesis
  proof (cases "checked_mul mib (1024 * 1024)")
    case None
    then have "\<not> unat mib * 1048576 < 2 ^ 64" by (simp add: checked_mul_def split: if_splits)
    with None True assms show ?thesis by (simp add: memory_pages_def)
  next
    case (Some bytes)
    then have b: "unat bytes = unat mib * 1048576" by (simp add: checked_mul_Some)
    then have lt: "unat mib * 1048576 < 2 ^ 64" using unat_below [of bytes] by simp
    have d: "unat (div_ceil bytes page_size) = (unat mib * 1048576 + unat page_size - 1) div unat page_size"
      using unat_div_ceil [OF ps, of bytes] b by simp
    have "memory_pages page_size mib =
        (if unat (div_ceil bytes page_size) > 2147483647 then Inl TooManyPages else Inr (div_ceil bytes page_size))"
      using Some True assms by (simp add: memory_pages_def Let_def word_less_nat_alt)
    then show ?thesis using d lt True by (auto simp: word_unat_eq_iff)
  qed
qed (use assms in \<open>simp add: memory_pages_def\<close>)

section \<open>Normalised hosts\<close>

definition usable_host :: "string \<Rightarrow> bool" where
  "usable_host h \<longleftrightarrow> is_ok (parse_ping_host h)"

lemma parse_ping_host_show: "parse_ping_host h = Inr a \<Longrightarrow> parse_ping_host (show_ipv4 a) = Inr a"
  by (auto simp: parse_ping_host_def parse_ipv4_show split: option.splits if_splits)

lemma normalize_loop_inv:
  assumes "normalize_loop seen hs = Inr ns" "distinct seen" "list_all usable_host seen"
  shows "distinct ns \<and> list_all usable_host ns"
  using assms
proof (induction seen hs rule: normalize_loop.induct)
  case (2 seen h hs)
  show ?case
  proof (cases "trim h = []")
    case True
    then show ?thesis using 2 by simp
  next
    case False
    then obtain a where a: "parse_ping_host (trim h) = Inr a"
      using "2.prems"(1) by (auto simp: res_simps split: if_splits)
    then have u: "usable_host (show_ipv4 a)" by (simp add: usable_host_def parse_ping_host_show)
    show ?thesis
    proof (cases "show_ipv4 a \<in> set seen")
      case True
      then show ?thesis using 2(2) [OF False True] 2(4-6) False a by simp
    next
      case new: False
      then show ?thesis using 2(3) [OF False new] 2(4-6) False a u by simp
    qed
  qed
qed simp

lemma normalize_ping_hosts_usable:
  assumes "normalize_ping_hosts hs = Inr ns"
  shows "distinct ns" "list_all usable_host ns" "length ns \<le> max_ping_hosts"
  using assms normalize_loop_inv [of "[]" hs ns]
  by (auto simp: normalize_ping_hosts_def res_simps split: if_splits)

lemma validate_watchdog_Inr:
  "validate_watchdog page_size c = Inr u \<longleftrightarrow>
     (loads_of c = [0, 0, 0] \<or> list_all (\<lambda>v. 2 \<le> v) (loads_of c)) \<and>
     length (ping_hosts c) \<le> max_ping_hosts \<and> list_all usable_host (ping_hosts c) \<and>
     is_ok (memory_pages page_size (min_memory_mib c))"
proof -
  have two: "2 \<le> v \<longleftrightarrow> v \<noteq> 0 \<and> v \<noteq> 1" for v :: u32
  proof -
    have "unat v \<noteq> 0 \<longleftrightarrow> v \<noteq> 0" "unat v \<noteq> 1 \<longleftrightarrow> v \<noteq> 1" by (auto simp: word_unat_eq_iff)
    then show ?thesis unfolding word_le_nat_alt by auto
  qed
  have loads: "\<not> (length (filter (\<lambda>v. v \<noteq> 0) (loads_of c)) \<noteq> 0 \<and>
      length (filter (\<lambda>v. v \<noteq> 0) (loads_of c)) \<noteq> length (loads_of c)) \<and>
      find (\<lambda>v. v = 1) (loads_of c) = None \<longleftrightarrow>
      loads_of c = [0, 0, 0] \<or> list_all (\<lambda>v. 2 \<le> v) (loads_of c)"
    by (auto simp: loads_of_def two)
  have "try_all (\<lambda>h. res_bind (parse_ping_host h) (\<lambda>_. Inr ())) hs = Inr () \<longleftrightarrow> list_all usable_host hs" for hs
    by (simp add: try_all_eq_Inr res_bind_eq_Inr list_all_iff usable_host_def is_ok_iff)
  moreover have "res_bind (memory_pages page_size m) (\<lambda>_. Inr ()) = Inr () \<longleftrightarrow> is_ok (memory_pages page_size m)" for m
    by (cases "memory_pages page_size m") auto
  ultimately show ?thesis
    using loads unfolding validate_watchdog_def Let_def by (auto simp: res_bind_eq_Inr guard_eq_Inr)
qed

text \<open>A threshold that fits in pages also fits in kibibytes, so the live check cannot overflow.\<close>

lemma memory_pages_kib:
  assumes "memory_pages page_size mib = Inr n"
  shows "checked_mul mib 1024 \<noteq> None"
proof (cases "mib = 0")
  case False
  then have "unat mib * 1048576 < 2 ^ 64" using assms by (simp add: memory_pages_Inr)
  then show ?thesis by (simp add: checked_mul_def)
qed (simp add: checked_mul_def)

section \<open>Properties\<close>

lemma page_cover_iff:
  fixes n b p :: nat
  assumes "0 < b"
  shows "p = (n + b - 1) div b \<longleftrightarrow> n \<le> p * b \<and> p * b < n + b"
proof
  assume "n \<le> p * b \<and> p * b < n + b"
  then show "p = (n + b - 1) div b"
    using assms by (intro div_nat_eqI [symmetric]) (auto simp: mult.commute)
qed (use ceiling_least [OF assms] in blast)

text \<open>
  C37. The watchdog's memory threshold is converted without wrap-around: the conversion succeeds
  exactly when the page size is positive, the threshold in bytes fits in 64 bits and the number of
  pages fits in the daemon's 32-bit setting, and it gives the least number of whole pages that
  cover the threshold; zero, which switches the check off, stays zero.
\<close>
theorem memory_pages_bounds:
  "memory_pages page_size mib = Inr n \<longleftrightarrow>
     (if mib = 0 then n = 0
      else 0 < sint page_size \<and> unat mib * 2 ^ 20 < 2 ^ 64 \<and> unat n \<le> 2 ^ 31 - 1 \<and>
           unat mib * 2 ^ 20 \<le> unat n * unat page_size \<and>
           unat n * unat page_size < unat mib * 2 ^ 20 + unat page_size)"
proof (cases "mib = 0")
  case True
  then show ?thesis by (auto simp: memory_pages_def)
next
  case False
  show ?thesis
  proof (cases "0 < sint page_size")
    case True
    then have "page_size \<noteq> 0" by auto
    then have "0 < unat page_size" by (simp add: unat_gt_0)
    then show ?thesis
      using memory_pages_Inr [OF False, of page_size n] page_cover_iff [of "unat page_size" "unat n" "unat mib * 2 ^ 20"] False True
      by simp
  qed (use memory_pages_Inr [OF False] False in simp)
qed

end
