(* ===== verification/Watchdog.thy ===== *)
theory Watchdog
  imports Systemd Watchdog_Config Complex_Main
begin

text \<open>
  The health watchdog service (\<open>engine/nasty-system/src/watchdog.rs\<close>): the update of its
  configuration with the rollback, the live checks before it is armed, and stopping it for good.
  The state is the stored configuration (\<open>watchdog.json\<close>), the daemon's file (\<open>watchdog.conf\<close>)
  and the states of the units. File writes, the measured load and memory, the probes and the time
  are parameters. The load averages come as numbers: reading \<open>/proc/loadavg\<close> as floating point is
  part of the parameter.
\<close>

record wd_world = sv_world +
  wd_file :: "WatchdogConfig json_file"
  wd_conf :: "string option"

record wd_env =
  wd_sd :: systemd
  wd_page :: "64 word"
  wd_files :: outcomes
  wd_load :: "nat \<Rightarrow> string + rat list"
  wd_meminfo :: "nat \<Rightarrow> string + string"
  wd_ping :: "nat \<Rightarrow> string \<Rightarrow> string option"
  wd_late :: "nat \<Rightarrow> bool"

type_synonym ('x, 'a) wd_io = "('x wd_world_scheme, WdError, 'a) io"

definition wd_unit :: string where
  "wd_unit = ''nasty-watchdog.service''"

definition wd_write :: "wd_env \<Rightarrow> ('x wd_world_scheme \<Rightarrow> 'x wd_world_scheme) \<Rightarrow> ('x, unit) wd_io" where
  "wd_write env f w =
     (case wd_files env (sv_calls w) of
        Some e \<Rightarrow> (Inl (WdIo e), next_call w)
      | None \<Rightarrow> (Inr (), next_call (f w)))"

definition save_config :: "wd_env \<Rightarrow> WatchdogConfig \<Rightarrow> ('x, unit) wd_io" where
  "save_config env c = wd_write env (\<lambda>w. w\<lparr>wd_file := Parsed c\<rparr>)"

definition write_config_content :: "wd_env \<Rightarrow> string \<Rightarrow> ('x, unit) wd_io" where
  "write_config_content env s = wd_write env (\<lambda>w. w\<lparr>wd_conf := Some s\<rparr>)"

text \<open>A file that cannot be read or parsed is set aside and gives the defaults.\<close>

definition load_config :: "wd_env \<Rightarrow> ('x wd_world_scheme, 'e, WatchdogConfig) io" where
  "load_config env w =
     (case wd_files env (sv_calls w) of
        Some e \<Rightarrow> (Inr default_watchdog, next_call w)
      | None \<Rightarrow>
          (case wd_file w of
             Absent \<Rightarrow> (Inr default_watchdog, next_call w)
           | Parsed c \<Rightarrow> (Inr c, next_call w)
           | Garbage \<Rightarrow>
               (Inr default_watchdog,
                next_call (next_call (if wd_files env (Suc (sv_calls w)) = None then w\<lparr>wd_file := Absent\<rparr> else w)))))"

definition load_config_strict :: "wd_env \<Rightarrow> ('x, WatchdogConfig) wd_io" where
  "load_config_strict env w =
     (case wd_files env (sv_calls w) of
        Some e \<Rightarrow> (Inl (WdRead e), next_call w)
      | None \<Rightarrow>
          ((case wd_file w of
              Absent \<Rightarrow> Inr default_watchdog
            | Parsed c \<Rightarrow> Inr c
            | Garbage \<Rightarrow> Inl WdParse), next_call w))"

definition write_config_file_locked :: "wd_env \<Rightarrow> WatchdogConfig \<Rightarrow> ('x, unit) wd_io" where
  "write_config_file_locked env c =
     io_bind (io_lift (validate_watchdog (wd_page env) c)) (\<lambda>_.
     io_bind (io_lift (render_config (wd_page env) c)) (write_config_content env))"

section \<open>Live checks\<close>

text \<open>\<open>str::lines\<close>: only a line that ends in a newline loses a carriage return.\<close>

definition str_lines :: "string \<Rightarrow> string list" where
  "str_lines s =
     (let ps = split_char (CHR 0x0A) s
      in map (\<lambda>l. if l \<noteq> [] \<and> last l = CHR 0x0D then butlast l else l) (butlast ps) @
         (if last ps = [] then [] else [last ps]))"

fun reclaimable_kib :: "u64 \<Rightarrow> string list \<Rightarrow> WdError + u64" where
  "reclaimable_kib acc [] = Inr acc"
| "reclaimable_kib acc (l # ls) =
     (case split_once CHR '':'' l of
        None \<Rightarrow> reclaimable_kib acc ls
      | Some (key, rest) \<Rightarrow>
          if key \<in> {''MemFree'', ''Buffers'', ''Cached''} then
            (case split_whitespace rest of
               [] \<Rightarrow> Inl (MemoryMissing key)
             | v # _ \<Rightarrow>
                 (case parse_uint (2 ^ 64 - 1) v of
                    None \<Rightarrow> Inl (MemoryInvalid key)
                  | Some n \<Rightarrow> reclaimable_kib (saturating_add acc (of_nat n)) ls))
          else reclaimable_kib acc ls)"

definition check_loads :: "WatchdogConfig \<Rightarrow> string + rat list \<Rightarrow> WdError + unit" where
  "check_loads c current =
     (case current of
        Inl e \<Rightarrow> Inl (LoadRead e)
      | Inr ls \<Rightarrow>
          if length ls \<noteq> 3 then Inl LoadIncomplete
          else try_all (\<lambda>(name, actual, limit). guard (\<lfloor>actual\<rfloor> \<le> int (unat limit)) (LoadExceeded name))
                 (zip [''1-minute'', ''5-minute'', ''15-minute''] (zip ls (loads_of c))))"

definition check_memory :: "WatchdogConfig \<Rightarrow> string + string \<Rightarrow> WdError + unit" where
  "check_memory c meminfo =
     (case meminfo of
        Inl e \<Rightarrow> Inl (MemoryRead e)
      | Inr text \<Rightarrow>
          res_bind (reclaimable_kib 0 (str_lines text)) (\<lambda>have_kib.
          case checked_mul (min_memory_mib c) 1024 of
            None \<Rightarrow> Inl MemoryTooLarge
          | Some minimum_kib \<Rightarrow> guard (minimum_kib \<le> have_kib) MemoryLow))"

text \<open>
  The probes run at the same time; of several unreachable targets the source reports the one that
  answers first, the model the first one of the list.
\<close>

definition preflight :: "wd_env \<Rightarrow> WatchdogConfig \<Rightarrow> ('x, unit) wd_io" where
  "preflight env c w =
     (let n = sv_calls w
      in (res_bind (validate_watchdog (wd_page env) c) (\<lambda>_.
          res_bind (if max_load_1 c \<noteq> 0 then check_loads c (wd_load env n) else Inr ()) (\<lambda>_.
          res_bind (if min_memory_mib c \<noteq> 0 then check_memory c (wd_meminfo env n) else Inr ()) (\<lambda>_.
          try_all (\<lambda>h. case wd_ping env n h of None \<Rightarrow> Inr () | Some e \<Rightarrow> Inl (PingFailed h e)) (ping_hosts c)))),
         next_call w))"

section \<open>The daemon\<close>

definition verify_running :: "wd_env \<Rightarrow> ('x, unit) wd_io" where
  "verify_running env =
     io_bind (unit_active (wd_sd env) wd_unit) (\<lambda>a. if a then io_return () else io_fail WdExited)"

definition restart_and_verify :: "wd_env \<Rightarrow> ('x, unit) wd_io" where
  "restart_and_verify env =
     io_case (unit_ctl (wd_sd env) ''restart'' wd_unit) (\<lambda>e. io_fail (WdCtl e)) (\<lambda>_. verify_running env)"

text \<open>
  The unit is polled every 100 milliseconds until the deadline: with \<open>k\<close> tenths of a second left
  there are at most \<open>k\<close> more polls, fewer when the polls themselves take long.
\<close>

fun wait_until_stopped :: "nat \<Rightarrow> wd_env \<Rightarrow> ('x, unit) wd_io" where
  "wait_until_stopped k env w =
     (case unit_state (wd_sd env) wd_unit w of
        (Inl e, w') \<Rightarrow> (Inl (WdCtl e), w')
      | (Inr (load, active), w') \<Rightarrow>
          if load = ''not-found'' \<or> active = ''inactive'' \<or> active = ''failed'' then (Inr (), w')
          else if wd_late env (sv_calls w') then (Inl WdRunning, w')
          else (case k of 0 \<Rightarrow> (Inl WdRunning, w') | Suc j \<Rightarrow> wait_until_stopped j env w'))"

declare wait_until_stopped.simps [simp del]

definition force_stop :: "wd_env \<Rightarrow> ('x, unit) wd_io" where
  "force_stop env =
     io_case (unit_ctl (wd_sd env) ''kill'' wd_unit) (\<lambda>e. io_fail (WdCtl e)) (\<lambda>_.
     io_bind (best_effort (unit_ctl (wd_sd env) ''stop'' wd_unit)) (\<lambda>_. wait_until_stopped 30 env))"

definition stop_and_verify :: "wd_env \<Rightarrow> ('x, unit) wd_io" where
  "stop_and_verify env =
     io_bind (best_effort (unit_ctl (wd_sd env) ''stop'' wd_unit)) (\<lambda>_.
     io_bind (io_case (wait_until_stopped 20 env) (\<lambda>_. force_stop env) io_return) (\<lambda>_.
     io_bind (best_effort (unit_ctl (wd_sd env) ''reset-failed'' wd_unit)) (\<lambda>_.
     wait_until_stopped 10 env)))"

section \<open>Update\<close>

text \<open>The error of a step, or nothing.\<close>

definition error_of :: "('w, 'e, 'a) io \<Rightarrow> ('w, 'f, 'e list) io" where
  "error_of m = io_case m (\<lambda>e. io_return [e]) (\<lambda>_. io_return [])"

definition restart_or_restore :: "wd_env \<Rightarrow> WatchdogConfig \<Rightarrow> string \<Rightarrow> ('x, unit) wd_io" where
  "restart_or_restore env previous previous_config =
     io_case (restart_and_verify env)
       (\<lambda>restart_error.
          io_bind (error_of (write_config_content env previous_config)) (\<lambda>e1.
          io_bind (error_of (save_config env previous)) (\<lambda>e2.
          io_bind (error_of (restart_and_verify env)) (\<lambda>e3.
          if e1 @ e2 @ e3 = [] then io_fail (WdRestart restart_error)
          else io_fail (WdRestartAndRestore restart_error (e1 @ e2 @ e3))))))
       io_return"

definition persist_config_or_restore :: "wd_env \<Rightarrow> WatchdogConfig \<Rightarrow> string \<Rightarrow> ('x, unit) wd_io" where
  "persist_config_or_restore env candidate previous_config =
     io_case (save_config env candidate)
       (\<lambda>e. io_case (write_config_content env previous_config)
          (\<lambda>e'. io_fail (WdPersistAndRestore e e')) (\<lambda>_. io_fail (WdPersist e)))
       io_return"

definition install_config ::
  "wd_env \<Rightarrow> bool \<Rightarrow> WatchdogConfig \<Rightarrow> string \<Rightarrow> WatchdogConfig \<Rightarrow> string \<Rightarrow> ('x, WatchdogConfig) wd_io" where
  "install_config env was_active candidate candidate_config previous previous_config =
     io_bind (write_config_content env candidate_config) (\<lambda>_.
     io_bind (persist_config_or_restore env candidate previous_config) (\<lambda>_.
     io_bind (if was_active then restart_or_restore env previous previous_config else io_return ()) (\<lambda>_.
     io_return candidate)))"

definition update_from :: "wd_env \<Rightarrow> WatchdogConfigUpdate \<Rightarrow> WatchdogConfig \<Rightarrow> ('x, WatchdogConfig) wd_io" where
  "update_from env u previous =
     io_bind (io_lift (merge_update u previous)) (\<lambda>candidate.
     io_bind (io_lift (validate_watchdog (wd_page env) candidate)) (\<lambda>_.
     io_bind (unit_active (wd_sd env) wd_unit) (\<lambda>was_active.
     io_bind (if was_active then preflight env candidate else io_return ()) (\<lambda>_.
     io_bind (io_lift (render_config (wd_page env) candidate)) (\<lambda>candidate_config.
     io_bind (io_lift (render_config (wd_page env) previous)) (\<lambda>previous_config.
     install_config env was_active candidate candidate_config previous previous_config))))))"

definition update_config :: "wd_env \<Rightarrow> WatchdogConfigUpdate \<Rightarrow> ('x, WatchdogConfig) wd_io" where
  "update_config env u = io_bind (load_config_strict env) (update_from env u)"

section \<open>What the steps do to the files\<close>

text \<open>The contents of the two files.\<close>

definition wd_at :: "WatchdogConfig json_file \<Rightarrow> string option \<Rightarrow> 'x wd_world_scheme \<Rightarrow> bool" where
  "wd_at f s w \<longleftrightarrow> wd_file w = f \<and> wd_conf w = s"

lemma wd_at_stable [io_rules]: "sv_stable (wd_at f s)"
proof -
  have "wd_at f s w \<longleftrightarrow> wd_at f s w'" if "sv_frame w w'" for w w' :: "'x wd_world_scheme"
    using that by (cases w; cases w') (auto simp: sv_frame_def wd_at_def)
  then show ?thesis unfolding sv_stable_def by blast
qed

lemma keeps_preflight [io_rules]: "sv_stable P \<Longrightarrow> keeps P (preflight env c)"
  by (rule keeps_stable) (auto simp: preflight_def Let_def)

lemma keeps_restart [io_rules]:
  "sv_stable P \<Longrightarrow> keeps P (verify_running env)" "sv_stable P \<Longrightarrow> keeps P (restart_and_verify env)"
  unfolding restart_and_verify_def verify_running_def by (intro io_rules; assumption)+

lemmas restart_keeps_files = keeps_restart(2) [OF wd_at_stable]

lemma write_config_content_triple:
  "triple (wd_at f s) (write_config_content env t) (\<lambda>_. wd_at f (Some t)) (\<lambda>_. wd_at f s)"
  by (simp add: triple_def write_config_content_def wd_write_def wd_at_def next_call_def split: option.split)

lemma save_config_triple:
  "triple (wd_at f s) (save_config env c) (\<lambda>_. wd_at (Parsed c) s) (\<lambda>_. wd_at f s)"
  by (simp add: triple_def save_config_def wd_write_def wd_at_def next_call_def split: option.split)

text \<open>Steps whose errors are collected: the postcondition holds when nothing has failed so far.\<close>

lemma error_of_triple:
  assumes "triple P m (\<lambda>_. Q) R"
  shows "triple (\<lambda>w. es = [] \<longrightarrow> P w) (error_of m) (\<lambda>es' w. es @ es' = [] \<longrightarrow> Q w) R'"
  using assms by (fastforce simp: triple_def error_of_def io_defs split: sum.splits prod.splits)

text \<open>The errors that report an incomplete rollback.\<close>

fun incomplete :: "WdError \<Rightarrow> bool" where
  "incomplete (WdPersistAndRestore _ _) = True"
| "incomplete (WdRestartAndRestore _ _) = True"
| "incomplete _ = False"

lemma persist_config_triple:
  "triple (wd_at f (Some t)) (persist_config_or_restore env c s)
     (\<lambda>_. wd_at (Parsed c) (Some t)) (\<lambda>e w. incomplete e \<or> wd_at f (Some s) w)"
  unfolding persist_config_or_restore_def
  by (rule triple_case [OF save_config_triple])
    (auto intro!: triple_return triple_fail triple_case [OF write_config_content_triple])

lemma restart_triple:
  "triple (wd_at (Parsed c) (Some t)) (restart_or_restore env p s)
     (\<lambda>_. wd_at (Parsed c) (Some t)) (\<lambda>e w. incomplete e \<or> wd_at (Parsed p) (Some s) w)"
proof -
  have written: "triple (wd_at (Parsed c) (Some t)) (error_of (write_config_content env s))
      (\<lambda>es w. es = [] \<longrightarrow> wd_at (Parsed c) (Some s) w) R" for R
    using error_of_triple [OF write_config_content_triple, of "[]"] by simp
  show ?thesis
    unfolding restart_or_restore_def
    by (rule triple_case [OF triple_keeps [OF restart_keeps_files]])
      (auto intro!: triple_return triple_bind [OF written] triple_bind [OF error_of_triple [OF save_config_triple]]
        triple_bind [OF error_of_triple [OF triple_keeps [OF restart_keeps_files]]] triple_if triple_fail)
qed

text \<open>Both files hold one configuration; a missing store stands for the defaults.\<close>

definition wd_holds :: "wd_env \<Rightarrow> WatchdogConfig \<Rightarrow> 'x wd_world_scheme \<Rightarrow> bool" where
  "wd_holds env c w \<longleftrightarrow>
     (wd_file w = Parsed c \<or> wd_file w = Absent \<and> c = default_watchdog) \<and>
     (\<exists>s. render_config (wd_page env) c = Inr s \<and> wd_conf w = Some s)"


lemma load_strict_triple:
  assumes "f = Parsed p \<or> f = Absent \<and> p = default_watchdog"
  shows "triple (wd_at f s) (load_config_strict env) (\<lambda>c w. c = p \<and> wd_at f s w) (\<lambda>_. wd_at f s)"
  using assms
  by (auto simp: triple_def load_config_strict_def wd_at_def next_call_def split: option.split json_file.split)

lemma install_triple:
  assumes "render_config (wd_page env) c = Inr t"
  shows "triple (wd_at f (Some s)) (install_config env active c t p s)
     (\<lambda>c' w. c' = c \<and> wd_at (Parsed c) (Some t) w)
     (\<lambda>e w. incomplete e \<or> wd_at f (Some s) w \<or> wd_at (Parsed p) (Some s) w)"
  (is "triple ?P _ ?Q ?R")
proof -
  have started: "triple (wd_at (Parsed c) (Some t)) (io_bind (if active then restart_or_restore env p s else io_return ()) (\<lambda>_. io_return c)) ?Q ?R"
    by (rule triple_bind [where Q = "\<lambda>_. wd_at (Parsed c) (Some t)"])
      (auto intro!: triple_return triple_conseq [OF restart_triple])
  have "triple (wd_at f (Some t)) (io_bind (persist_config_or_restore env c s) (\<lambda>_.
      io_bind (if active then restart_or_restore env p s else io_return ()) (\<lambda>_. io_return c))) ?Q ?R"
    by (rule triple_bind [OF triple_conseq [OF persist_config_triple] started]) auto
  then show ?thesis
    unfolding install_config_def by (intro triple_bind [OF triple_conseq [OF write_config_content_triple]]) auto
qed

lemma update_from_triple:
  assumes "render_config (wd_page env) p = Inr s"
  shows "triple (wd_at f (Some s)) (update_from env u p)
      (\<lambda>c w. merge_update u p = Inr c \<and> (\<exists>t. render_config (wd_page env) c = Inr t \<and> wd_at (Parsed c) (Some t) w))
      (\<lambda>e w. incomplete e \<or> wd_at f (Some s) w \<or> wd_at (Parsed p) (Some s) w)"
  unfolding update_from_def assms io_bind_lift
  by (intro triple_bind_lift triple_bind_keeps io_rules triple_conseq [OF install_triple]) auto

lemma update_config_triple:
  "triple (wd_holds env p) (update_config env u) (\<lambda>c w. merge_update u p = Inr c \<and> wd_holds env c w)
     (\<lambda>e w. incomplete e \<or> wd_holds env p w)"
proof -
  have "triple (wd_at f (Some s)) (update_config env u)
      (\<lambda>c w. merge_update u p = Inr c \<and> (\<exists>t. render_config (wd_page env) c = Inr t \<and> wd_at (Parsed c) (Some t) w))
      (\<lambda>e w. incomplete e \<or> wd_at f (Some s) w \<or> wd_at (Parsed p) (Some s) w)" (is "triple _ _ ?Q ?R")
    if f: "f = Parsed p \<or> f = Absent \<and> p = default_watchdog" and s: "render_config (wd_page env) p = Inr s" for f s
    unfolding update_config_def
  proof (rule triple_bind)
    show "triple (wd_at f (Some s)) (load_config_strict env) (\<lambda>c w. c = p \<and> wd_at f (Some s) w) ?R"
      by (rule triple_conseq [OF load_strict_triple [OF f]]) auto
    show "triple (\<lambda>w. c = p \<and> wd_at f (Some s) w) (update_from env u c) ?Q ?R" for c
      using update_from_triple [OF s, of f u] by (cases "c = p") (auto simp: triple_def)
  qed
  then show ?thesis
    unfolding triple_def wd_holds_def wd_at_def by (fastforce split: sum.splits)
qed

section \<open>Stopping\<close>

lemma wait_until_stopped_ok:
  "wait_until_stopped k env w = (Inr (), w') \<Longrightarrow> stopped (sv_units w') wd_unit"
proof (induction k arbitrary: w)
  case (Suc k)
  from Suc.prems show ?case
    by (subst (asm) wait_until_stopped.simps)
      (auto simp: stopped_def split: prod.splits sum.splits if_splits dest: unit_state_current Suc.IH)
next
  case 0
  then show ?case
    by (subst (asm) wait_until_stopped.simps)
      (auto simp: stopped_def split: prod.splits sum.splits if_splits dest: unit_state_current)
qed

lemma keeps_wait [io_rules]: "sv_stable P \<Longrightarrow> keeps P (wait_until_stopped k env)"
proof (rule keeps_stable)
  show "wait_until_stopped k env w = (r, w') \<Longrightarrow> sv_frame w w'" for w r w'
  proof (induction k arbitrary: w)
    case (Suc k)
    from Suc.prems show ?case
      by (subst (asm) wait_until_stopped.simps)
        (auto split: prod.splits sum.splits if_splits dest!: unit_calls_frame(3) Suc.IH elim: sv_frame_trans)
  next
    case 0
    then show ?case
      by (subst (asm) wait_until_stopped.simps)
        (auto split: prod.splits sum.splits if_splits dest!: unit_calls_frame(3))
  qed
qed

lemma stop_and_verify_ok: "stop_and_verify env w = (Inr (), w') \<Longrightarrow> stopped (sv_units w') wd_unit"
  unfolding stop_and_verify_def
  by (auto simp: io_bind_def [of _ _ w] io_bind_def split: prod.splits sum.splits dest: wait_until_stopped_ok)

lemma keeps_stop [io_rules]:
  "sv_stable P \<Longrightarrow> keeps P (force_stop env)" "sv_stable P \<Longrightarrow> keeps P (stop_and_verify env)"
proof -
  assume P: "sv_stable P"
  show 1: "keeps P (force_stop env)" unfolding force_stop_def by (intro io_rules P)
  show "keeps P (stop_and_verify env)" unfolding stop_and_verify_def by (intro io_rules P 1)
qed

section \<open>Properties\<close>

text \<open>
  C36. An update of the watchdog's configuration takes effect as a whole or not at all: from a
  state in which the store and the daemon's file hold one configuration, a successful update
  leaves both with the merged and validated one, and a failed one leaves both with the
  configuration they had, whichever call failed, unless the error says that the rollback itself
  was incomplete.
\<close>
theorem watchdog_update_atomic:
  assumes "wd_holds env p w" "update_config env u w = (r, w')"
  shows "case r of Inr c \<Rightarrow> merge_update u p = Inr c \<and> wd_holds env c w' | Inl e \<Rightarrow> incomplete e \<or> wd_holds env p w'"
  using tripleD [OF update_config_triple assms(1)] assms(2) by (cases r) auto

text \<open>The daemon does not come up with the new thresholds, and the old ones are put back.\<close>

definition wd_ex_sd :: systemd where
  "wd_ex_sd = \<lparr>sd_run = (\<lambda>n action u us. if n = 5 then (Some ''exit code'', us(u := (''loaded'', ''failed'')))
                                          else (None, us(u := (''loaded'', ''active'')))),
               sd_wait = (\<lambda>_ us. us), sd_query = (\<lambda>_. None)\<rparr>"

definition wd_ex_env :: wd_env where
  "wd_ex_env = \<lparr>wd_sd = wd_ex_sd, wd_page = 4096, wd_files = (\<lambda>_. None), wd_load = (\<lambda>_. Inr [1 / 2, 1 / 3, 1 / 4]),
                wd_meminfo = (\<lambda>_. Inr ''MemFree: 900000 kB''), wd_ping = (\<lambda>_ _. None), wd_late = (\<lambda>_. False)\<rparr>"

definition wd_ex_update :: WatchdogConfigUpdate where
  "wd_ex_update = \<lparr>up_load_1 = Some 24, up_load_5 = Some 18, up_load_15 = Some 12, up_memory_mib = None,
                   up_ping_hosts = None\<rparr>"

definition wd_ex_world :: wd_world where
  "wd_ex_world = \<lparr>sv_units = (\<lambda>_. (''loaded'', ''active'')), sv_calls = 0, wd_file = Absent,
                  wd_conf = (case render_config 4096 default_watchdog of Inr s \<Rightarrow> Some s | Inl _ \<Rightarrow> None)\<rparr>"

lemma wd_ex_holds: "wd_holds wd_ex_env default_watchdog wd_ex_world"
proof -
  have "is_ok (render_config 4096 default_watchdog)" by code_simp
  then show ?thesis by (auto simp: is_ok_iff wd_holds_def wd_ex_world_def wd_ex_env_def)
qed

lemma wd_ex_failed:
  "fst (update_config wd_ex_env wd_ex_update wd_ex_world) = Inl (WdRestart (WdCtl ''exit code''))"
  by code_simp

theorem watchdog_update_atomic_witness:
  "fst (update_config wd_ex_env wd_ex_update wd_ex_world) = Inl (WdRestart (WdCtl ''exit code'')) \<and>
   wd_holds wd_ex_env default_watchdog (snd (update_config wd_ex_env wd_ex_update wd_ex_world))"
  using watchdog_update_atomic [OF wd_ex_holds prod.collapse [symmetric], of wd_ex_update] wd_ex_failed by simp

end
