(* ===== verification/Protocol_Service.thy ===== *)
theory Protocol_Service
  imports Protocols Watchdog
begin

text \<open>
  The service that switches protocols on and off (\<open>engine/nasty-system/src/protocol.rs\<close>): the
  persisted switches, the units and kernel modules of each protocol, enabling and disabling with
  the rollback, the restore at boot and quiescing. It works on the units and on the watchdog's
  files, which the theories \<open>Systemd\<close> and \<open>Watchdog\<close> model. Parameters are the disk, \<open>modprobe\<close>,
  the detection of a virtual machine, the presence of a domain controller's configuration, the
  mode of the UPS monitoring, the RDMA switch, and the writers of the files of the UPS tools and
  the backup server.
\<close>

record ProtocolState =
  st_nfs :: bool
  st_smb :: bool
  st_iscsi :: bool
  st_nvmeof :: bool
  st_nut :: bool
  st_ssh :: bool
  st_avahi :: bool
  st_smart :: bool
  st_watchdog :: bool
  st_rest_server :: bool

definition default_protocols :: ProtocolState where
  "default_protocols =
     \<lparr>st_nfs = False, st_smb = False, st_iscsi = False, st_nvmeof = False, st_nut = False, st_ssh = True,
      st_avahi = True, st_smart = True, st_watchdog = False, st_rest_server = False\<rparr>"

fun state_get :: "ProtocolState \<Rightarrow> Protocol \<Rightarrow> bool" where
  "state_get s Nfs = st_nfs s"
| "state_get s Smb = st_smb s"
| "state_get s Iscsi = st_iscsi s"
| "state_get s Nvmeof = st_nvmeof s"
| "state_get s Nut = st_nut s"
| "state_get s Ssh = st_ssh s"
| "state_get s Avahi = st_avahi s"
| "state_get s Smart = st_smart s"
| "state_get s Watchdog = st_watchdog s"
| "state_get s RestServer = st_rest_server s"

fun state_set :: "ProtocolState \<Rightarrow> Protocol \<Rightarrow> bool \<Rightarrow> ProtocolState" where
  "state_set s Nfs b = s\<lparr>st_nfs := b\<rparr>"
| "state_set s Smb b = s\<lparr>st_smb := b\<rparr>"
| "state_set s Iscsi b = s\<lparr>st_iscsi := b\<rparr>"
| "state_set s Nvmeof b = s\<lparr>st_nvmeof := b\<rparr>"
| "state_set s Nut b = s\<lparr>st_nut := b\<rparr>"
| "state_set s Ssh b = s\<lparr>st_ssh := b\<rparr>"
| "state_set s Avahi b = s\<lparr>st_avahi := b\<rparr>"
| "state_set s Smart b = s\<lparr>st_smart := b\<rparr>"
| "state_set s Watchdog b = s\<lparr>st_watchdog := b\<rparr>"
| "state_set s RestServer b = s\<lparr>st_rest_server := b\<rparr>"

lemma state_get_set [simp]: "state_get (state_set s p b) q = (if p = q then b else state_get s q)"
  by (cases p; cases q) simp_all

datatype NutMode = Local | Remote

fun services :: "NutMode \<Rightarrow> Protocol \<Rightarrow> string list" where
  "services m Nfs = [''nfs-server.service'']"
| "services m Smb = [''samba-smbd.service'', ''samba-nmbd.service'', ''samba-wsdd.service'']"
| "services m Iscsi = [''target.service'']"
| "services m Nvmeof = []"
| "services m Nut =
     (case m of
        Local \<Rightarrow> [''nut-driver.service'', ''nut-server.service'', ''nut-monitor.service'']
      | Remote \<Rightarrow> [''nut-monitor.service''])"
| "services m Ssh = [''sshd.service'']"
| "services m Avahi = [''avahi-daemon.service'']"
| "services m Smart = [''smartd.service'']"
| "services m Watchdog = [''nasty-watchdog.service'']"
| "services m RestServer = [''nasty-rest-server.service'']"

definition protocol_modules :: "bool \<Rightarrow> Protocol \<Rightarrow> string list" where
  "protocol_modules rdma p =
     (case p of
        Iscsi \<Rightarrow> [''target_core_mod'', ''iscsi_target_mod''] @ (if rdma then [''ib_isert''] else [])
      | Nvmeof \<Rightarrow> [''nvmet'', ''nvmet-tcp''] @ (if rdma then [''nvmet-rdma''] else [])
      | _ \<Rightarrow> [])"

fun display_name :: "Protocol \<Rightarrow> string" where
  "display_name Nfs = ''NFS''"
| "display_name Smb = ''SMB''"
| "display_name Iscsi = ''iSCSI''"
| "display_name Nvmeof = ''NVMe-oF''"
| "display_name Nut = ''UPS (NUT)''"
| "display_name Ssh = ''SSH''"
| "display_name Avahi = ''mDNS (Avahi)''"
| "display_name Smart = ''SMART''"
| "display_name Watchdog = ''Watchdog''"
| "display_name RestServer = ''Backup Server''"

record ProtocolStatus =
  ps_name :: string
  ps_display_name :: string
  ps_enabled :: bool
  ps_running :: bool
  ps_system_service :: bool

section \<open>World\<close>

record proto_world = wd_world +
  pr_file :: "ProtocolState json_file"
  pr_modules :: "string list"
  pr_smb_conf :: bool
  pr_nut_conf :: bool
  pr_credentials :: bool
  pr_nfs_rdma :: bool

record proto_env =
  pe_wd :: wd_env
  pe_files :: outcomes
  pe_unreadable :: "nat \<Rightarrow> bool"
  pe_modprobe :: outcomes
  pe_vm :: "nat \<Rightarrow> bool"
  pe_dc :: "nat \<Rightarrow> bool"
  pe_nut :: "nat \<Rightarrow> NutMode"
  pe_rdma :: "nat \<Rightarrow> bool"

datatype PrError =
    UnknownProtocol string
  | DcHosted
  | PrIo string
  | PrWatchdog WdError
  | PrPrepare PrError "PrError list"
  | PrStart PrError "PrError list"
  | PrNotStopped PrError
  | PrCtl string

type_synonym 'a pr_io = "(proto_world, PrError, 'a) io"

definition pe_sd :: "proto_env \<Rightarrow> systemd" where
  "pe_sd env = wd_sd (pe_wd env)"

definition pr_write :: "proto_env \<Rightarrow> (proto_world \<Rightarrow> proto_world) \<Rightarrow> unit pr_io" where
  "pr_write env f w =
     (case pe_files env (sv_calls w) of
        Some e \<Rightarrow> (Inl (PrIo e), next_call w)
      | None \<Rightarrow> (Inr (), next_call (f w)))"

text \<open>An answer of the surroundings at the time of the call.\<close>

definition pr_ask :: "(nat \<Rightarrow> 'a) \<Rightarrow> 'a pr_io" where
  "pr_ask q w = (Inr (q (sv_calls w)), next_call w)"

definition wrap :: "('e \<Rightarrow> 'f) \<Rightarrow> ('w, 'e, 'a) io \<Rightarrow> ('w, 'f, 'a) io" where
  "wrap f m = io_case m (\<lambda>e. io_fail (f e)) io_return"

definition pr_ctl :: "proto_env \<Rightarrow> string \<Rightarrow> string \<Rightarrow> unit pr_io" where
  "pr_ctl env action u = wrap PrCtl (unit_ctl (pe_sd env) action u)"

definition save_state :: "proto_env \<Rightarrow> ProtocolState \<Rightarrow> unit pr_io" where
  "save_state env s = pr_write env (\<lambda>w. w\<lparr>pr_file := Parsed s\<rparr>)"

text \<open>Any failure to read the file counts as a fresh installation.\<close>

definition fresh_state :: "proto_env \<Rightarrow> ProtocolState pr_io" where
  "fresh_state env =
     io_bind (pr_ask (pe_vm env)) (\<lambda>vm.
     let s = (if vm then default_protocols\<lparr>st_smart := False\<rparr> else default_protocols)
     in io_bind (best_effort (save_state env s)) (\<lambda>_. io_return s))"

definition load_state :: "proto_env \<Rightarrow> ProtocolState pr_io" where
  "load_state env =
     io_bind (pr_ask (pe_unreadable env)) (\<lambda>unreadable.
     io_bind (io_get pr_file) (\<lambda>f.
     if unreadable then fresh_state env
     else case f of
            Absent \<Rightarrow> fresh_state env
          | Garbage \<Rightarrow> io_return default_protocols
          | Parsed s \<Rightarrow> io_return s))"

definition modprobe :: "proto_env \<Rightarrow> string \<Rightarrow> unit pr_io" where
  "modprobe env m w =
     (case pe_modprobe env (sv_calls w) of
        Some e \<Rightarrow> (Inl (PrIo e), next_call w)
      | None \<Rightarrow> (Inr (), next_call (w\<lparr>pr_modules := m # pr_modules w\<rparr>)))"

definition load_modules :: "proto_env \<Rightarrow> Protocol \<Rightarrow> unit pr_io" where
  "load_modules env p =
     io_bind (pr_ask (pe_rdma env)) (\<lambda>rdma.
     io_fold (\<lambda>m _. best_effort (modprobe env m)) (protocol_modules rdma p) ())"

definition prepare_protocol :: "proto_env \<Rightarrow> Protocol \<Rightarrow> unit pr_io" where
  "prepare_protocol env p =
     (case p of
        Smb \<Rightarrow>
          io_bind (io_get pr_smb_conf) (\<lambda>present.
          if present then io_return () else best_effort (pr_write env (\<lambda>w. w\<lparr>pr_smb_conf := True\<rparr>)))
      | Nut \<Rightarrow> best_effort (pr_write env (\<lambda>w. w\<lparr>pr_nut_conf := True\<rparr>))
      | Watchdog \<Rightarrow>
          io_bind (load_config (pe_wd env)) (\<lambda>c.
          io_bind (wrap PrWatchdog (preflight (pe_wd env) c)) (\<lambda>_.
          wrap PrWatchdog (write_config_file_locked (pe_wd env) c)))
      | RestServer \<Rightarrow> best_effort (pr_write env (\<lambda>w. w\<lparr>pr_credentials := True\<rparr>))
      | _ \<Rightarrow> io_return ())"

definition activate_nfs_rdma :: "proto_env \<Rightarrow> unit pr_io" where
  "activate_nfs_rdma env =
     io_bind (io_get pr_nfs_rdma) (\<lambda>present.
     if present then io_return ()
     else io_bind (modprobe env ''rpcrdma'') (\<lambda>_. pr_write env (\<lambda>w. w\<lparr>pr_nfs_rdma := True\<rparr>)))"

definition nfs_over_rdma :: "proto_env \<Rightarrow> unit pr_io" where
  "nfs_over_rdma env =
     io_bind (pr_ask (pe_rdma env)) (\<lambda>rdma. if rdma then best_effort (activate_nfs_rdma env) else io_return ())"

definition rebind_discovery_daemons :: "proto_env \<Rightarrow> unit pr_io" where
  "rebind_discovery_daemons env =
     io_fold (\<lambda>u _. io_bind (unit_active (pe_sd env) u) (\<lambda>a.
         if a then best_effort (pr_ctl env ''restart'' u) else io_return ()))
       [''samba-wsdd.service'', ''avahi-daemon.service''] ()"

text \<open>NVMe over fabrics has no unit: it runs when the kernel's target is there.\<close>

definition is_protocol_running :: "proto_env \<Rightarrow> Protocol \<Rightarrow> bool pr_io" where
  "is_protocol_running env p =
     (case p of
        Nfs \<Rightarrow> unit_active (pe_sd env) ''nfs-server.service''
      | Smb \<Rightarrow> unit_active (pe_sd env) ''samba-smbd.service''
      | Iscsi \<Rightarrow> unit_active (pe_sd env) ''target.service''
      | Nvmeof \<Rightarrow> io_get (\<lambda>w. ''nvmet'' \<in> set (pr_modules w))
      | Nut \<Rightarrow> io_bind (pr_ask (pe_nut env)) (\<lambda>m.
          unit_active (pe_sd env) (case m of Local \<Rightarrow> ''nut-server.service'' | Remote \<Rightarrow> ''nut-monitor.service''))
      | Ssh \<Rightarrow> unit_active (pe_sd env) ''sshd.service''
      | Avahi \<Rightarrow> unit_active (pe_sd env) ''avahi-daemon.service''
      | Smart \<Rightarrow> unit_active (pe_sd env) ''smartd.service''
      | Watchdog \<Rightarrow> unit_active (pe_sd env) ''nasty-watchdog.service''
      | RestServer \<Rightarrow> unit_active (pe_sd env) ''nasty-rest-server.service'')"

definition proto_units :: "proto_env \<Rightarrow> Protocol \<Rightarrow> string list pr_io" where
  "proto_units env p = io_bind (pr_ask (pe_nut env)) (\<lambda>m. io_return (services m p))"

definition stop_watchdog :: "proto_env \<Rightarrow> unit pr_io" where
  "stop_watchdog env = wrap PrWatchdog (stop_and_verify (pe_wd env))"

section \<open>Enabling and disabling\<close>

definition start_unit :: "proto_env \<Rightarrow> Protocol \<Rightarrow> string \<Rightarrow> string \<Rightarrow> unit pr_io" where
  "start_unit env p action u =
     io_bind (pr_ctl env action u) (\<lambda>_.
     if p = Watchdog then wrap PrWatchdog (verify_running (pe_wd env)) else io_return ())"

definition stop_units :: "proto_env \<Rightarrow> string list \<Rightarrow> unit pr_io" where
  "stop_units env us = io_fold (\<lambda>u _. best_effort (pr_ctl env ''stop'' u)) us ()"

text \<open>Starts the units in order; when one fails, those started before it are stopped.\<close>

fun start_units :: "proto_env \<Rightarrow> Protocol \<Rightarrow> string list \<Rightarrow> string list \<Rightarrow> unit pr_io" where
  "start_units env p started [] = io_return ()"
| "start_units env p started (u # us) =
     io_case (start_unit env p ''start'' u)
       (\<lambda>e. io_bind (stop_units env started) (\<lambda>_. io_fail e))
       (\<lambda>_. start_units env p (started @ [u]) us)"

text \<open>The rollback of an enable: the errors it meets become part of the answer.\<close>

definition undo_enable :: "proto_env \<Rightarrow> Protocol \<Rightarrow> ProtocolState \<Rightarrow> PrError list pr_io" where
  "undo_enable env p s =
     io_bind (if p = Watchdog then error_of (stop_watchdog env) else io_return []) (\<lambda>e1.
     io_bind (error_of (save_state env (state_set s p False))) (\<lambda>e2.
     io_return (e1 @ e2)))"

definition status_of :: "proto_env \<Rightarrow> Protocol \<Rightarrow> bool \<Rightarrow> ProtocolStatus pr_io" where
  "status_of env p enabled =
     io_bind (is_protocol_running env p) (\<lambda>r.
     io_return \<lparr>ps_name = proto_name p, ps_display_name = display_name p, ps_enabled = enabled, ps_running = r, ps_system_service = is_system_service p\<rparr>)"

definition bring_up :: "proto_env \<Rightarrow> Protocol \<Rightarrow> unit pr_io" where
  "bring_up env p =
     io_bind (load_modules env p) (\<lambda>_.
     io_bind (proto_units env p) (start_units env p []))"

text \<open>After the switch \<open>s\<close> has been stored: the services, and the rollback.\<close>

definition start_enabled :: "proto_env \<Rightarrow> Protocol \<Rightarrow> ProtocolState \<Rightarrow> ProtocolStatus pr_io" where
  "start_enabled env p s =
     io_case (prepare_protocol env p)
       (\<lambda>e. io_bind (undo_enable env p s) (\<lambda>es. io_fail (PrPrepare e es)))
       (\<lambda>_. io_case (bring_up env p)
          (\<lambda>e. io_bind (undo_enable env p s) (\<lambda>es. io_fail (PrStart e es)))
          (\<lambda>_.
            io_bind (if p = Smb then rebind_discovery_daemons env else io_return ()) (\<lambda>_.
            io_bind (if p = Nfs then nfs_over_rdma env else io_return ()) (\<lambda>_.
            status_of env p True))))"

definition enable_protocol :: "proto_env \<Rightarrow> Protocol \<Rightarrow> ProtocolStatus pr_io" where
  "enable_protocol env p =
     io_bind (load_state env) (\<lambda>s.
     io_bind (save_state env (state_set s p True)) (\<lambda>_.
     start_enabled env p (state_set s p True)))"

definition pr_enable :: "proto_env \<Rightarrow> string \<Rightarrow> ProtocolStatus pr_io" where
  "pr_enable env name =
     (case from_name name of
        None \<Rightarrow> io_fail (UnknownProtocol name)
      | Some p \<Rightarrow>
          io_bind (if p = Smb then pr_ask (pe_dc env) else io_return False) (\<lambda>dc.
          if dc then io_fail DcHosted else enable_protocol env p))"

definition disable_protocol :: "proto_env \<Rightarrow> Protocol \<Rightarrow> ProtocolStatus pr_io" where
  "disable_protocol env p =
     io_bind (load_state env) (\<lambda>s.
     io_bind (save_state env (state_set s p False)) (\<lambda>_.
     if p = Watchdog then
       io_bind (wrap PrNotStopped (stop_watchdog env)) (\<lambda>_.
       io_return \<lparr>ps_name = proto_name p, ps_display_name = display_name p, ps_enabled = False, ps_running = False, ps_system_service = True\<rparr>)
     else
       io_bind (proto_units env p) (\<lambda>us.
       io_bind (stop_units env us) (\<lambda>_. status_of env p False))))"

definition pr_disable :: "proto_env \<Rightarrow> string \<Rightarrow> ProtocolStatus pr_io" where
  "pr_disable env name =
     (case from_name name of
        None \<Rightarrow> io_fail (UnknownProtocol name)
      | Some p \<Rightarrow> disable_protocol env p)"

section \<open>Boot and queries\<close>

definition quiesce :: "proto_env \<Rightarrow> Protocol \<Rightarrow> unit pr_io" where
  "quiesce env p =
     io_bind (proto_units env p) (\<lambda>us. io_fold (\<lambda>u _. pr_ctl env ''stop'' u) (rev us) ())"

text \<open>A protocol that is off, or whose backing state is unsafe.\<close>

definition skip_restore :: "proto_env \<Rightarrow> Protocol \<Rightarrow> bool \<Rightarrow> unit pr_io" where
  "skip_restore env p enabled =
     io_bind (if \<not> enabled \<and> p = Smart then io_bind (proto_units env p) (stop_units env) else io_return ()) (\<lambda>_.
     if p = Watchdog then best_effort (stop_watchdog env) else io_return ())"

fun restore_units :: "proto_env \<Rightarrow> Protocol \<Rightarrow> string list \<Rightarrow> unit pr_io" where
  "restore_units env p [] = io_return ()"
| "restore_units env p (u # us) =
     io_bind (start_unit env p (if p = Watchdog then ''restart'' else ''start'') u) (\<lambda>_. restore_units env p us)"

definition auto_disable :: "proto_env \<Rightarrow> Protocol \<Rightarrow> ProtocolState \<Rightarrow> ProtocolState pr_io" where
  "auto_disable env p s =
     io_bind (best_effort (save_state env (state_set s p False))) (\<lambda>_. io_return (state_set s p False))"

definition restore_one ::
  "proto_env \<Rightarrow> Protocol list \<Rightarrow> Protocol \<Rightarrow> ProtocolState \<times> Protocol list \<Rightarrow> (ProtocolState \<times> Protocol list) pr_io" where
  "restore_one env excluded p acc =
     (let (s, restored) = acc in
      if \<not> state_get s p \<or> p \<in> set excluded then
        io_bind (skip_restore env p (state_get s p)) (\<lambda>_. io_return (s, restored))
      else io_case (prepare_protocol env p)
        (\<lambda>_.
          io_bind (auto_disable env p s) (\<lambda>s'.
          io_bind (if p = Watchdog then best_effort (stop_watchdog env) else io_return ()) (\<lambda>_.
          io_return (s', restored))))
        (\<lambda>_.
          io_bind (load_modules env p) (\<lambda>_.
          io_bind (proto_units env p) (\<lambda>us.
          io_case (restore_units env p us)
            (\<lambda>_.
              io_bind (if p = Watchdog then best_effort (stop_watchdog env) else io_return ()) (\<lambda>_.
              io_bind (auto_disable env p s) (\<lambda>s'. io_return (s', restored))))
            (\<lambda>_.
              io_bind (if p = Nfs then nfs_over_rdma env else io_return ()) (\<lambda>_.
              io_return (s, restored @ [p])))))))"

definition restore_excluding :: "proto_env \<Rightarrow> Protocol list \<Rightarrow> Protocol list pr_io" where
  "restore_excluding env excluded =
     io_bind (load_state env) (\<lambda>s.
     io_bind (io_fold (restore_one env excluded) all_protocols (s, [])) (\<lambda>(s', restored).
     io_return restored))"

definition is_enabled :: "proto_env \<Rightarrow> Protocol \<Rightarrow> bool pr_io" where
  "is_enabled env p = io_bind (load_state env) (\<lambda>s. io_return (state_get s p))"

definition pr_list :: "proto_env \<Rightarrow> ProtocolStatus list pr_io" where
  "pr_list env =
     io_bind (load_state env) (\<lambda>s.
     io_fold (\<lambda>p acc. io_bind (status_of env p (state_get s p)) (\<lambda>st. io_return (acc @ [st]))) all_protocols [])"


section \<open>The switch of a protocol\<close>

text \<open>
  What the file says of a protocol. A missing or unparsable file stands for the defaults; SMART
  is left out because its default depends on the machine.
\<close>

definition switch :: "ProtocolState json_file \<Rightarrow> Protocol \<Rightarrow> bool" where
  "switch f p = (case f of Parsed s \<Rightarrow> state_get s p | _ \<Rightarrow> state_get default_protocols p)"

definition pr_at :: "ProtocolState json_file \<Rightarrow> proto_world \<Rightarrow> bool" where
  "pr_at f w \<longleftrightarrow> pr_file w = f"

definition switched :: "(Protocol \<Rightarrow> bool) \<Rightarrow> proto_world \<Rightarrow> bool" where
  "switched g w \<longleftrightarrow> (\<forall>p. p \<noteq> Smart \<longrightarrow> switch (pr_file w) p = g p)"

lemma pr_at_stable [io_rules]: "sv_stable (pr_at f)"
proof -
  have "pr_file w = pr_file w'" if "sv_frame w w'" for w w' :: proto_world
    using that by (cases w; cases w') (auto simp: sv_frame_def)
  then show ?thesis unfolding sv_stable_def pr_at_def by metis
qed

lemma keeps_wrap [io_rules]: "keeps P m \<Longrightarrow> keeps P (wrap f m)"
  unfolding wrap_def by (intro io_rules)

lemma keeps_error_of [io_rules]: "keeps P m \<Longrightarrow> keeps P (error_of m)"
  unfolding error_of_def by (intro io_rules)

lemma keeps_fold_unit [io_rules]: "(\<And>x. keeps P (f x ())) \<Longrightarrow> keeps P (io_fold f xs ())"
  by (rule keeps_fold) simp

lemma keeps_ask [io_rules]: "keeps (pr_at f) (pr_ask q)"
  by (simp add: keeps_def pr_ask_def pr_at_def next_call_def)

lemma keeps_pr_write: "(\<And>w. pr_file (g w) = pr_file w) \<Longrightarrow> keeps (pr_at f) (pr_write env g)"
  by (simp add: keeps_def pr_write_def pr_at_def next_call_def split: option.split)

lemma keeps_wd_files [io_rules]:
  "keeps (pr_at f) (load_config wd)" "keeps (pr_at f) (write_config_content wd s)"
  by (simp_all add: keeps_def load_config_def write_config_content_def wd_write_def pr_at_def next_call_def
      split: option.split json_file.split)

lemma keeps_modprobe [io_rules]: "keeps (pr_at f) (modprobe env m)"
  by (simp add: keeps_def modprobe_def pr_at_def next_call_def split: option.split)

lemma keeps_ctl [io_rules]: "keeps (pr_at f) (pr_ctl env action u)"
  unfolding pr_ctl_def by (intro io_rules)

lemma keeps_prepare [io_rules]: "keeps (pr_at f) (prepare_protocol env p)"
  unfolding prepare_protocol_def write_config_file_locked_def
  by (cases p) (simp_all, (intro io_rules keeps_pr_write; simp)+)

lemma keeps_helpers [io_rules]:
  "keeps (pr_at f) (load_modules env p)" "keeps (pr_at f) (proto_units env p)" "keeps (pr_at f) (nfs_over_rdma env)"
  "keeps (pr_at f) (rebind_discovery_daemons env)" "keeps (pr_at f) (stop_watchdog env)"
  "keeps (pr_at f) (stop_units env us)" "keeps (pr_at f) (start_unit env p action u)"
  unfolding load_modules_def proto_units_def nfs_over_rdma_def activate_nfs_rdma_def rebind_discovery_daemons_def
    stop_watchdog_def stop_units_def start_unit_def
  by (intro io_rules keeps_pr_write; simp)+

lemma keeps_status [io_rules]: "keeps (pr_at f) (status_of env p b)"
  unfolding status_of_def is_protocol_running_def by (cases p) (simp_all, (intro io_rules)+)

lemma keeps_start_units [io_rules]: "keeps (pr_at f) (start_units env p started us)"
  by (induction us arbitrary: started) (auto intro!: io_rules)

lemma keeps_restore_units [io_rules]: "keeps (pr_at f) (restore_units env p us)"
  by (induction us) (auto intro!: io_rules)

lemma keeps_bring_up [io_rules]: "keeps (pr_at f) (bring_up env p)"
  unfolding bring_up_def by (intro io_rules)

lemma save_state_triple:
  "triple (pr_at f) (save_state env s) (\<lambda>_. pr_at (Parsed s)) (\<lambda>_. pr_at f)"
  by (simp add: triple_def save_state_def pr_write_def pr_at_def next_call_def split: option.split)

lemma keeps_switched: "(\<And>f. keeps (pr_at f) m) \<Longrightarrow> keeps (switched g) m"
  by (simp add: keeps_def pr_at_def switched_def)

lemma save_switched:
  "(\<And>p. p \<noteq> Smart \<Longrightarrow> state_get s p = g' p) \<Longrightarrow>
     triple (switched g) (save_state env s) (\<lambda>_. switched g') (\<lambda>_. switched g)"
  by (simp add: triple_def save_state_def pr_write_def switched_def switch_def next_call_def split: option.split)

lemma ask_switched: "triple (switched g) (pr_ask q) (\<lambda>x w. (\<exists>n. x = q n) \<and> switched g w) (\<lambda>_ _. False)"
  by (auto simp: triple_def pr_ask_def switched_def next_call_def)

lemma best_save_switched:
  assumes "\<And>p. p \<noteq> Smart \<Longrightarrow> state_get s p = g p"
  shows "triple (switched g) (best_effort (save_state env s)) (\<lambda>_. switched g) (\<lambda>_ _. False)"
  unfolding best_effort_def by (rule triple_case [OF save_switched [OF assms]]) (auto intro: triple_return)

lemma fresh_switched:
  assumes "\<And>p. p \<noteq> Smart \<Longrightarrow> state_get default_protocols p = g p"
  shows "triple (switched g) (fresh_state env) (\<lambda>s w. switched g w \<and> (\<forall>p. p \<noteq> Smart \<longrightarrow> state_get s p = g p)) (\<lambda>_ _. False)"
proof -
  have d: "state_get (if vm then default_protocols\<lparr>st_smart := False\<rparr> else default_protocols) p = g p" if "p \<noteq> Smart" for vm p
    using that assms [OF that] by (cases p) simp_all
  show ?thesis
    unfolding fresh_state_def Let_def
  proof (rule triple_bind [OF ask_switched], rule triple_bind)
    show "triple (\<lambda>w. (\<exists>n. vm = pe_vm env n) \<and> switched g w)
       (best_effort (save_state env (if vm then default_protocols\<lparr>st_smart := False\<rparr> else default_protocols)))
       (\<lambda>_. switched g) (\<lambda>_ _. False)" for vm
      by (rule triple_conseq [OF best_save_switched [OF d]]) auto
    show "triple (switched g) (io_return (if vm then default_protocols\<lparr>st_smart := False\<rparr> else default_protocols))
       (\<lambda>s w. switched g w \<and> (\<forall>p. p \<noteq> Smart \<longrightarrow> state_get s p = g p)) (\<lambda>_ _. False)" for vm
      by (rule triple_return) (use d in blast)
  qed
qed

definition readable :: "proto_env \<Rightarrow> bool" where
  "readable env \<longleftrightarrow> (\<forall>n. \<not> pe_unreadable env n)"

lemma load_switched:
  assumes "readable env"
  shows "triple (switched g) (load_state env) (\<lambda>s w. switched g w \<and> (\<forall>p. p \<noteq> Smart \<longrightarrow> state_get s p = g p)) (\<lambda>_ _. False)"
  (is "triple _ _ ?Q _")
proof -
  have "triple (\<lambda>w. switched g w \<and> pr_file w = f)
      (case f of Absent \<Rightarrow> fresh_state env | Garbage \<Rightarrow> io_return default_protocols | Parsed s \<Rightarrow> io_return s) ?Q (\<lambda>_ _. False)" for f
  proof (cases "\<exists>w. switched g w \<and> pr_file w = f")
    case True
    then have g: "switch f p = g p" if "p \<noteq> Smart" for p using that by (auto simp: switched_def)
    then show ?thesis
      by (cases f) (auto intro!: triple_return triple_conseq [OF fresh_switched [where g = g]] simp: switch_def)
  qed (auto simp: triple_def)
  note cases = this
  show ?thesis
    unfolding load_state_def
  proof (rule triple_bind [OF ask_switched])
    fix u
    show "triple (\<lambda>w. (\<exists>n. u = pe_unreadable env n) \<and> switched g w)
       (io_bind (io_get pr_file) (\<lambda>f. if u then fresh_state env
          else case f of Absent \<Rightarrow> fresh_state env | Garbage \<Rightarrow> io_return default_protocols | Parsed s \<Rightarrow> io_return s))
       ?Q (\<lambda>_ _. False)"
    proof (cases u)
      case True
      then show ?thesis using assms by (simp add: triple_def readable_def)
    next
      case False
      then show ?thesis
        by (intro triple_bind [OF triple_get [where Q = "\<lambda>f w. switched g w \<and> pr_file w = f"]])
          (auto intro: cases)
    qed
  qed
qed

section \<open>Steps that cannot fail\<close>

lemma infallible_ask [total_rules]: "infallible (pr_ask q)"
  by (simp add: infallible_def pr_ask_def)

lemma infallible_active [total_rules]: "infallible (unit_active sd u)"
  by (simp add: infallible_def unit_active_def Let_def)

lemma infallible_error_of [total_rules]: "infallible (error_of m)"
  unfolding error_of_def by (intro total_rules)

lemma infallible_units [total_rules]:
  "infallible (proto_units env p)" "infallible (stop_units env us)" "infallible (load_modules env p)"
  "infallible (nfs_over_rdma env)" "infallible (skip_restore env p b)" "infallible (auto_disable env p s)"
  "infallible (undo_enable env p s)"
  unfolding proto_units_def stop_units_def load_modules_def nfs_over_rdma_def skip_restore_def auto_disable_def
    undo_enable_def
  by (intro total_rules infallible_fold)+

lemma infallible_status [total_rules]: "infallible (status_of env p b)"
  unfolding status_of_def is_protocol_running_def by (cases p) (simp_all, (intro total_rules)+)

section \<open>What the operations do to the switches\<close>

lemma undo_switched:
  assumes "\<And>q. q \<noteq> Smart \<Longrightarrow> state_get s q = (g(p := True)) q"
  shows "triple (switched (g(p := True))) (undo_enable env p s) (\<lambda>_ w. \<exists>b. switched (g(p := b)) w) R"
proof -
  have "triple (switched (g(p := True))) (error_of (save_state env (state_set s p False)))
      (\<lambda>_ w. \<exists>b. switched (g(p := b)) w) R"
    unfolding error_of_def
    by (rule triple_case [OF save_switched [where g' = "g(p := False)"]]) (use assms in \<open>auto intro!: triple_return\<close>)
  moreover have "triple (switched (g(p := True))) (if p = Watchdog then error_of (stop_watchdog env) else io_return [])
      (\<lambda>_. switched (g(p := True))) R"
    by (intro triple_total total_rules keeps_switched io_rules)
  ultimately show ?thesis
    unfolding undo_enable_def by (intro triple_bind) (auto intro!: triple_return)
qed

lemma start_enabled_switched:
  assumes "\<And>q. q \<noteq> Smart \<Longrightarrow> state_get s q = (g(p := True)) q"
  shows "triple (switched (g(p := True))) (start_enabled env p s) (\<lambda>_. switched (g(p := True))) (\<lambda>_ w. \<exists>b. switched (g(p := b)) w)"
    (is "triple ?P _ ?Q ?R")
proof -
  have u: "triple ?P (io_bind (undo_enable env p s) (\<lambda>es. io_fail (E es))) ?Q ?R" for E
    by (rule triple_bind [OF undo_switched [OF assms]]) (auto intro!: triple_fail)
  have fin: "triple ?P m ?Q ?R" if "keeps ?P m" for m
    by (rule triple_conseq [OF triple_keeps [OF that]]) (auto intro: exI [of _ True])
  show ?thesis
    unfolding start_enabled_def
    by (intro triple_case [OF triple_keeps [OF keeps_switched [OF keeps_prepare]]] u
        triple_case [OF triple_keeps [OF keeps_switched [OF keeps_bring_up]]] fin keeps_switched io_rules)
qed

text \<open>A step that depends on the loaded state, which agrees with the file.\<close>

lemma after_load:
  assumes "readable env"
    and "\<And>s. (\<And>q. q \<noteq> Smart \<Longrightarrow> state_get s q = g q) \<Longrightarrow> triple (switched g) (f s) Q R"
  shows "triple (switched g) (io_bind (load_state env) f) Q R"
  by (rule triple_bind [OF triple_err [OF load_switched [OF assms(1)]]])
    (use assms(2) in \<open>auto intro!: triple_assume\<close>)

lemma enable_switched:
  assumes "readable env"
  shows "triple (switched g) (enable_protocol env p) (\<lambda>_. switched (g(p := True))) (\<lambda>_ w. \<exists>b. switched (g(p := b)) w)"
    (is "triple ?P _ ?Q ?R")
  unfolding enable_protocol_def
proof (rule after_load [OF assms])
  fix s
  assume s: "\<And>q. q \<noteq> Smart \<Longrightarrow> state_get s q = g q"
  have "triple (switched g) (save_state env (state_set s p True)) (\<lambda>_. switched (g(p := True))) ?R"
    by (rule triple_conseq [OF save_switched [where g' = "g(p := True)"]]) (use s in \<open>auto intro: exI [of _ "g p"]\<close>)
  then show "triple ?P (io_bind (save_state env (state_set s p True)) (\<lambda>_. start_enabled env p (state_set s p True))) ?Q ?R"
    by (rule triple_bind) (rule start_enabled_switched, use s in auto)
qed

text \<open>The part of a disable after the switch has been stored.\<close>

lemma stop_disabled_switched:
  "triple (switched g)
     (if p = Watchdog then
        io_bind (wrap PrNotStopped (stop_watchdog env)) (\<lambda>_.
        io_return \<lparr>ps_name = proto_name p, ps_display_name = display_name p, ps_enabled = False, ps_running = False, ps_system_service = True\<rparr>)
      else io_bind (proto_units env p) (\<lambda>us. io_bind (stop_units env us) (\<lambda>_. status_of env p False)))
     (\<lambda>_. switched g) (\<lambda>_ w. p = Watchdog \<and> switched g w)"
proof (cases "p = Watchdog")
  case True
  then show ?thesis
    unfolding if_P [OF True] by (intro triple_err [OF triple_keeps [OF keeps_switched]] io_rules) auto
next
  case False
  then show ?thesis
    unfolding if_not_P [OF False] by (intro triple_total total_rules keeps_switched io_rules)
qed

lemma disable_switched:
  assumes "readable env"
  shows "triple (switched g) (disable_protocol env p) (\<lambda>_. switched (g(p := False)))
    (\<lambda>_ w. switched g w \<or> p = Watchdog \<and> switched (g(p := False)) w)" (is "triple ?P _ ?Q ?R")
  unfolding disable_protocol_def
proof (rule after_load [OF assms], rule triple_bind)
  fix s
  assume s: "\<And>q. q \<noteq> Smart \<Longrightarrow> state_get s q = g q"
  show "triple ?P (save_state env (state_set s p False)) (\<lambda>_. switched (g(p := False))) ?R"
    by (rule triple_err [OF save_switched]) (use s in auto)
qed (rule triple_err [OF stop_disabled_switched], blast)


section \<open>Restore\<close>

text \<open>
  During the restore: a protocol that is on in memory is on in the file, nothing is on that was
  off before, and every restored protocol is on and was not excluded.
\<close>

definition restoring ::
  "(Protocol \<Rightarrow> bool) \<Rightarrow> Protocol list \<Rightarrow> ProtocolState \<times> Protocol list \<Rightarrow> proto_world \<Rightarrow> bool" where
  "restoring g excluded acc w \<longleftrightarrow>
     (\<forall>p. p \<noteq> Smart \<longrightarrow>
        (state_get (fst acc) p \<longrightarrow> switch (pr_file w) p) \<and> (switch (pr_file w) p \<longrightarrow> g p) \<and>
        (p \<in> set (snd acc) \<longrightarrow> state_get (fst acc) p \<and> p \<notin> set excluded))"

lemma keeps_restoring: "(\<And>f. keeps (pr_at f) m) \<Longrightarrow> keeps (restoring g ex acc) m"
  by (simp add: keeps_def pr_at_def restoring_def)

lemma auto_disable_restoring:
  assumes "p \<notin> set rs"
  shows "triple (restoring g ex (s, rs)) (auto_disable env p s) (\<lambda>s' w. restoring g ex (s', rs) w) R"
  using assms
  by (auto simp: triple_def auto_disable_def best_effort_def save_state_def pr_write_def io_defs restoring_def
      switch_def next_call_def split: option.splits)

lemma restore_one_restoring:
  assumes "p \<notin> set rs"
  shows "triple (restoring g ex (s, rs)) (restore_one env ex p (s, rs))
    (\<lambda>acc w. restoring g ex acc w \<and> set (snd acc) \<subseteq> insert p (set rs)) R"
    (is "triple ?P _ ?Q R")
proof -
  have kept: "triple ?P (io_bind m (\<lambda>_. io_return (s, rs))) ?Q R" if "infallible m" "\<And>f. keeps (pr_at f) m" for m :: "unit pr_io"
    by (rule triple_bind [OF triple_total [OF that(1) keeps_restoring [OF that(2)]]]) (auto intro: triple_return)
  have off: "triple ?P (io_bind (auto_disable env p s) (\<lambda>s'. io_bind (m :: unit pr_io) (\<lambda>_. io_return (s', rs)))) ?Q R"
    if "infallible m" "\<And>f. keeps (pr_at f) m" for m
    by (rule triple_bind [OF auto_disable_restoring [OF assms]], rule triple_bind [OF triple_total [OF that(1) keeps_restoring [OF that(2)]]])
      (auto intro: triple_return)
  have stop: "infallible (if p = Watchdog then best_effort (stop_watchdog env) else io_return ())"
    "keeps (pr_at f) (if p = Watchdog then best_effort (stop_watchdog env) else io_return ())" for f
    by (intro total_rules io_rules)+
  have off': "triple ?P (io_bind (if p = Watchdog then best_effort (stop_watchdog env) else io_return ())
      (\<lambda>_. io_bind (auto_disable env p s) (\<lambda>s'. io_return (s', rs)))) ?Q R"
    by (rule triple_bind [OF triple_total [OF stop(1) keeps_restoring [OF stop(2)]]],
        rule triple_bind [OF auto_disable_restoring [OF assms]]) (auto intro: triple_return)
  show ?thesis
  proof (cases "\<not> state_get s p \<or> p \<in> set ex")
    case True
    have "keeps (pr_at f) (skip_restore env p b)" for f b unfolding skip_restore_def by (intro io_rules)
    then show ?thesis
      using kept [OF infallible_units(5)] True by (simp add: restore_one_def)
  next
    case False
    have up: "triple ?P (io_bind (if p = Nfs then nfs_over_rdma env else io_return ()) (\<lambda>_. io_return (s, rs @ [p]))) ?Q R"
    proof (rule triple_bind [where Q = "\<lambda>_. ?P"])
      show "triple ?P (if p = Nfs then nfs_over_rdma env else io_return ()) (\<lambda>_. ?P) R"
        by (intro triple_total total_rules keeps_restoring io_rules)
      show "triple ?P (io_return (s, rs @ [p])) ?Q R"
        by (rule triple_return) (use False in \<open>auto simp: restoring_def\<close>)
    qed
    have "triple ?P (io_case (restore_units env p us)
        (\<lambda>_. io_bind (if p = Watchdog then best_effort (stop_watchdog env) else io_return ())
          (\<lambda>_. io_bind (auto_disable env p s) (\<lambda>s'. io_return (s', rs))))
        (\<lambda>_. io_bind (if p = Nfs then nfs_over_rdma env else io_return ()) (\<lambda>_. io_return (s, rs @ [p])))) ?Q R" for us
      by (rule triple_case [OF triple_keeps [OF keeps_restoring [OF keeps_restore_units]] off' up])
    then have "triple ?P (io_bind (load_modules env p) (\<lambda>_. io_bind (proto_units env p) (\<lambda>us.
        io_case (restore_units env p us)
        (\<lambda>_. io_bind (if p = Watchdog then best_effort (stop_watchdog env) else io_return ())
          (\<lambda>_. io_bind (auto_disable env p s) (\<lambda>s'. io_return (s', rs))))
        (\<lambda>_. io_bind (if p = Nfs then nfs_over_rdma env else io_return ()) (\<lambda>_. io_return (s, rs @ [p])))))) ?Q R"
      by (intro triple_bind [OF triple_total [OF infallible_units(3) keeps_restoring [OF keeps_helpers(1)]]]
          triple_bind [OF triple_total [OF infallible_units(1) keeps_restoring [OF keeps_helpers(2)]]])
    then show ?thesis
      using False triple_case [OF triple_keeps [OF keeps_restoring [OF keeps_prepare]] off [OF stop]]
      by (simp add: restore_one_def)
  qed
qed

lemma restore_fold:
  assumes "distinct ps" "set ps \<inter> set rs = {}"
  shows "triple (restoring g ex (s, rs)) (io_fold (restore_one env ex) ps (s, rs)) (restoring g ex) R"
  using assms
proof (induction ps arbitrary: s rs)
  case (Cons p ps)
  have "triple (\<lambda>w. restoring g ex acc w \<and> set (snd acc) \<subseteq> insert p (set rs)) (io_fold (restore_one env ex) ps acc) (restoring g ex) R" for acc
    by (cases acc) (use Cons in \<open>auto intro!: triple_assume\<close>)
  moreover have "p \<notin> set rs" using Cons.prems by auto
  ultimately show ?case
    by (auto intro: triple_bind [OF restore_one_restoring])
qed (auto intro: triple_return)

lemma restore_restoring:
  assumes "readable env"
  shows "triple (switched g) (restore_excluding env ex)
    (\<lambda>rs w. \<exists>s. restoring g ex (s, rs) w) R"
  unfolding restore_excluding_def
proof (rule after_load [OF assms])
  fix s
  assume s: "\<And>q. q \<noteq> Smart \<Longrightarrow> state_get s q = g q"
  have "triple (switched g) (io_fold (restore_one env ex) all_protocols (s, [])) (restoring g ex) R"
    by (rule triple_conseq [OF restore_fold [OF distinct_all_protocols]])
      (use s in \<open>auto simp: restoring_def switched_def\<close>)
  then show "triple (switched g) (io_bind (io_fold (restore_one env ex) all_protocols (s, []))
      (\<lambda>(s', restored). io_return restored)) (\<lambda>rs w. \<exists>s. restoring g ex (s, rs) w) R"
    by (rule triple_bind) (auto split: prod.split intro!: triple_return)
qed


end
