(* ===== verification/Exposure.thy ===== *)
theory Exposure
  imports Firewall
begin

text \<open>
  Which services the firewall lets in, and which of its operations change that. The operations
  on restrictions, ports and custom rules open and close no protocol, whatever calls fail; only
  opening, closing, the initialisation and the reconciliation after the restore do.
\<close>

definition gates :: "FirewallState \<Rightarrow> (string \<times> bool) list" where
  "gates st = map (\<lambda>r. (fr_service r, fr_active r)) st"

definition admits :: "FirewallConfig \<Rightarrow> string \<Rightarrow> bool" where
  "admits c s \<longleftrightarrow> (s, True) \<in> set (gates (fc_state c))"

lemma gates_ports [simp]: "gates (update_first P (\<lambda>r. r\<lparr>fr_ports := ps\<rparr>) st) = gates st"
  unfolding gates_def by (rule map_update_first) simp

lemma gates_simps [simp]: "gates [] = []" "gates (r # st) = (fr_service r, fr_active r) # gates st"
  by (simp_all add: gates_def)

lemma gates_append [simp]: "gates (st @ st') = gates st @ gates st'"
  by (simp add: gates_def)

lemma gates_active_other:
  "s \<noteq> service \<Longrightarrow>
     (s, b) \<in> set (gates (update_first (is_service service) (\<lambda>r. r\<lparr>fr_active := on\<rparr>) st)) \<longleftrightarrow> (s, b) \<in> set (gates st)"
  by (induction st) (auto simp: gates_def is_service_def)

lemma gates_active_same:
  assumes "distinct (map fr_service st)" "find (is_service s) st = Some x"
  shows "(s, b) \<in> set (gates (update_first (is_service s) (\<lambda>r. r\<lparr>fr_active := on\<rparr>) st)) \<longleftrightarrow> b = on"
  using assms
proof (induction st)
  case (Cons r st)
  show ?case
  proof (cases "is_service s r")
    case True
    then have "s \<notin> fr_service ` set st" using Cons.prems(1) by (auto simp: is_service_def)
    then show ?thesis using True by (force simp: gates_def is_service_def)
  next
    case False
    then show ?thesis using Cons by (auto simp: gates_def is_service_def)
  qed
qed simp

lemma gates_find:
  assumes "distinct (map fr_service st)"
  shows "find (is_service s) st = Some x \<Longrightarrow> (s, b) \<in> set (gates st) \<longleftrightarrow> b = fr_active x"
    and "find (is_service s) st = None \<Longrightarrow> (s, b) \<notin> set (gates st)"
proof -
  show "(s, b) \<in> set (gates st) \<longleftrightarrow> b = fr_active x" if "find (is_service s) st = Some x"
  proof -
    have x: "x \<in> set st" "fr_service x = s" using find_set [OF that] by (simp_all add: is_service_def)
    have "y = x" if "y \<in> set st" "fr_service y = s" for y
      using that x assms by (metis distinct_map inj_onD)
    then show ?thesis using x by (force simp: gates_def)
  qed
  show "find (is_service s) st = None \<Longrightarrow> (s, b) \<notin> set (gates st)"
    by (auto simp: gates_def find_None_iff is_service_def)
qed

lemma gates_replace:
  "(s, True) \<in> set (gates (fst (replace_rule_ports st r service ports))) \<longleftrightarrow> (s, True) \<in> set (gates st)"
  by (simp add: replace_rule_ports_def Let_def split: option.split)

section \<open>Commits\<close>

text \<open>
  A computation keeps a property of the configuration in memory when the candidates it commits
  have it.
\<close>

abbreviation holds_config :: "(FirewallConfig \<Rightarrow> bool) \<Rightarrow> fw_world \<Rightarrow> bool" where
  "holds_config P w \<equiv> P (fw_config w)"

lemma keeps_fw_file: "(\<And>w. fw_config (f w) = fw_config w) \<Longrightarrow> keeps (holds_config P) (fw_file env f)"
  by (simp add: keeps_def fw_file_def split: option.split)

lemma keeps_nft: "(\<And>w. fw_config (f w) = fw_config w) \<Longrightarrow> keeps (holds_config P) (run_nft env f)"
  by (simp add: keeps_def run_nft_def split: nft_outcome.split)

lemma keeps_apply: "keeps (holds_config P) (apply_nftables_with env c)"
proof -
  have "keeps (holds_config P) (relay_policy env)"
    unfolding keeps_def
  proof (intro allI impI)
    show "P (fw_config (snd (relay_policy env w)))" if "P (fw_config w)" for w
      using relay_policy_same [of env w] that by (cases "relay_policy env w") (simp add: same_def fw_core_def)
  qed
  then show ?thesis unfolding apply_nftables_with_def by (intro keeps_bind keeps_nft) simp_all
qed

lemma keeps_set_config: "P c \<Longrightarrow> keeps (holds_config P) (io_modify (\<lambda>w. w\<lparr>fw_config := c\<rparr>))"
  by (simp add: keeps_def io_defs)

lemma keeps_stage: "keeps (holds_config P) (stage env s)" "keeps (holds_config P) (commit env s)"
  unfolding stage_def commit_def by (intro io_rules keeps_fw_file; simp split: staged.split)+

lemma keeps_commit: "P c \<Longrightarrow> P c' \<Longrightarrow> keeps (holds_config P) (persist_or_restore env c c' s)"
  unfolding persist_or_restore_def by (intro io_rules keeps_stage keeps_apply keeps_set_config)

lemma keeps_config:
  "(\<And>c. P c \<Longrightarrow> keeps (holds_config P) (g c)) \<Longrightarrow> keeps (holds_config P) (io_bind (io_get fw_config) g)"
  by (simp add: keeps_def io_defs)

lemma keeps_candidate: "P c \<Longrightarrow> keeps (holds_config P) (commit_candidate env c st)"
  unfolding commit_candidate_def
  by (intro keeps_config keeps_bind keeps_apply) (auto split: option.split intro: keeps_commit keeps_set_config)

lemmas keeps_fw = keeps_config keeps_candidate keeps_stage keeps_fw_file

text \<open>The operations that open and close no protocol.\<close>

fun opens_nothing :: "fw_op \<Rightarrow> bool" where
  "opens_nothing (FwInit _ _ _ _ _ _ _) = False"
| "opens_nothing (FwStates _) = False"
| "opens_nothing (FwProtocol _ _) = False"
| "opens_nothing _ = True"

lemma admits_ports [simp]:
  "admits (c\<lparr>fc_state := update_first P (\<lambda>r. r\<lparr>fr_ports := ps\<rparr>) (fc_state c)\<rparr>) s \<longleftrightarrow> admits c s"
  "admits (c\<lparr>fc_custom := cs\<rparr>) s \<longleftrightarrow> admits c s" "admits (c\<lparr>fc_published := qs\<rparr>) s \<longleftrightarrow> admits c s"
  by (simp_all add: admits_def)

lemma admits_replace:
  "admits (c\<lparr>fc_state := fst (replace_rule_ports st r service ports)\<rparr>) s \<longleftrightarrow> (s, True) \<in> set (gates st)"
  by (simp add: admits_def gates_replace)

lemma admits_restricted [simp]: "admits (restricted_config c service d sources ifaces) s \<longleftrightarrow> admits c s"
  by (simp add: restricted_config_def Let_def admits_def)

lemma keeps_set_rule_active:
  "s \<noteq> service \<Longrightarrow> keeps (holds_config (\<lambda>c. admits c s = b)) (set_rule_active env service ports on)"
  unfolding set_rule_active_def
  by (intro keeps_if keeps_fw)
    (auto split: option.split intro!: io_rules keeps_candidate simp: admits_def gates_active_other new_rule_def)

lemma not_proto_names: "proto_name p \<noteq> ''rdma''" "proto_name p \<noteq> ''dc''" "proto_name p \<noteq> ''webui''"
  by (cases p; simp)+

lemma keeps_default_ports: "keeps (holds_config P) (default_ports env f s)"
  unfolding default_ports_def webui_load_def
  by (intro io_rules keeps_fw) (auto split: option.split intro!: io_rules)

section \<open>Opening and closing\<close>

lemma commit_none_config: "commit_candidate env c None w = (Inl e, w') \<Longrightarrow> fw_config w' = fw_config w"
  using keeps_apply [of "\<lambda>d. d = fw_config w" env c]
  by (auto simp: commit_candidate_def keeps_def io_defs split: prod.splits sum.splits)

text \<open>Every service has at most one rule, and every operation keeps that.\<close>

definition named :: "FirewallConfig \<Rightarrow> bool" where
  "named c \<longleftrightarrow> distinct (map fr_service (fc_state c))"

lemma named_simps [simp]:
  "named (c\<lparr>fc_state := update_first P (\<lambda>r. r\<lparr>fr_ports := ps\<rparr>) (fc_state c)\<rparr>) \<longleftrightarrow> named c"
  "named (c\<lparr>fc_state := update_first P (\<lambda>r. r\<lparr>fr_active := on\<rparr>) (fc_state c)\<rparr>) \<longleftrightarrow> named c"
  "named (c\<lparr>fc_custom := cs\<rparr>) \<longleftrightarrow> named c" "named (c\<lparr>fc_published := qs\<rparr>) \<longleftrightarrow> named c"
  "named (restricted_config c service d sources ifaces) \<longleftrightarrow> named c"
  by (simp_all add: named_def restricted_config_def Let_def)

lemma find_service_iff: "find (is_service s) st \<noteq> None \<longleftrightarrow> s \<in> set (map fr_service st)"
  by (auto simp: find_None_iff is_service_def)

lemma replace_services:
  "distinct (map fr_service st) \<Longrightarrow> distinct (map fr_service (fst (replace_rule_ports st r s ps)))"
  "set (map fr_service (fst (replace_rule_ports st r s ps))) = insert s (set (map fr_service st))"
  using find_service_iff [of s st]
  by (auto simp: replace_rule_ports_def Let_def is_service_abs [symmetric] simp del: set_map split: option.split)

lemma keeps_named_rule: "keeps (holds_config named) (set_rule_active env s ports on)"
  unfolding set_rule_active_def
  by (intro keeps_if keeps_fw)
    (auto split: option.split intro!: io_rules keeps_candidate simp: named_def new_rule_def find_None_iff is_service_def)

lemma set_rule_active_other:
  assumes "set_rule_active env service ports on w = (r, w')" "s \<noteq> service"
  shows "admits (fw_config w') s \<longleftrightarrow> admits (fw_config w) s"
  by (rule keepsD [OF keeps_set_rule_active [OF assms(2)] _ assms(1)]) simp

lemma set_rule_active_result:
  assumes "named (fw_config w)" "set_rule_active env s ports on w = (r, w')" "ports \<noteq> []"
  shows "r = Inr () \<Longrightarrow> admits (fw_config w') s \<longleftrightarrow> on" "r = Inl e \<Longrightarrow> fw_config w' = fw_config w"
proof -
  let ?c = "fw_config w"
  note d = assms(1) [unfolded named_def]
  consider (same) x where "find (is_service s) (fc_state ?c) = Some x" "fr_active x = on" "(r, w') = (Inr (), w)"
    | (change) x where "find (is_service s) (fc_state ?c) = Some x"
        "commit_candidate env (?c\<lparr>fc_state := update_first (is_service s) (\<lambda>r. r\<lparr>fr_active := on\<rparr>) (fc_state ?c)\<rparr>) None w = (r, w')"
    | (new) "find (is_service s) (fc_state ?c) = None"
        "commit_candidate env (?c\<lparr>fc_state := fc_state ?c @ [new_rule (fc_restrictions ?c) s ports on]\<rparr>) None w = (r, w')"
    using assms(2,3) by (auto simp: set_rule_active_def io_defs split: option.splits if_splits)
  note c = this
  show "admits (fw_config w') s \<longleftrightarrow> on" if "r = Inr ()"
    using c
  proof cases
    case same
    then show ?thesis using gates_find(1) [OF d same(1)] by (auto simp: admits_def)
  next
    case change
    then show ?thesis
      using commit_candidate_config [of env _ None w] that gates_active_same [OF d change(1)] by (simp add: admits_def)
  next
    case new
    then show ?thesis
      using commit_candidate_config [of env _ None w] that gates_find(2) [OF d new(1)] by (simp add: admits_def new_rule_def)
  qed
  show "fw_config w' = fw_config w" if "r = Inl e"
    using c
  proof cases
    case same
    then show ?thesis using that by simp
  qed (use that in \<open>simp_all add: commit_none_config\<close>)
qed

text \<open>Which protocols are let in.\<close>

definition lets_in :: "(Protocol \<Rightarrow> bool) \<Rightarrow> FirewallConfig \<Rightarrow> bool" where
  "lets_in b c \<longleftrightarrow> named c \<and> (\<forall>p. admits c (proto_name p) = b p)"

lemma lets_in_simps [simp]:
  "lets_in b (c\<lparr>fc_state := update_first P (\<lambda>r. r\<lparr>fr_ports := ps\<rparr>) (fc_state c)\<rparr>) \<longleftrightarrow> lets_in b c"
  "lets_in b (c\<lparr>fc_custom := cs\<rparr>) \<longleftrightarrow> lets_in b c" "lets_in b (c\<lparr>fc_published := qs\<rparr>) \<longleftrightarrow> lets_in b c"
  "lets_in b (restricted_config c service d sources ifaces) \<longleftrightarrow> lets_in b c"
  by (simp_all add: lets_in_def)

lemma lets_in_replace:
  "lets_in b c \<Longrightarrow> lets_in b (c\<lparr>fc_state := fst (replace_rule_ports (fc_state c) r s ps)\<rparr>)"
  by (simp add: lets_in_def named_def replace_services admits_def gates_replace)

lemma lets_in_replace2:
  "lets_in b c \<Longrightarrow>
     lets_in b (c\<lparr>fc_state := fst (replace_rule_ports (fst (replace_rule_ports (fc_state c) r s ps)) r' s' ps')\<rparr>)"
  using lets_in_replace [OF lets_in_replace, of b c r s ps r' s' ps'] by simp

lemma keeps_other_rule:
  assumes "\<And>p. proto_name p \<noteq> service"
  shows "keeps (holds_config (lets_in b)) (set_rule_active env service ports on)"
  unfolding keeps_def
proof (intro allI impI)
  fix w :: fw_world
  assume w: "lets_in b (fw_config w)"
  obtain r w' where run: "set_rule_active env service ports on w = (r, w')" by fastforce
  have "named (fw_config w')" using keepsD [OF keeps_named_rule _ run] w by (simp add: lets_in_def)
  moreover have "admits (fw_config w') (proto_name p) \<longleftrightarrow> admits (fw_config w) (proto_name p)" for p
    using set_rule_active_other [OF run assms] by simp
  ultimately show "lets_in b (fw_config (snd (set_rule_active env service ports on w)))"
    using w run by (simp add: lets_in_def)
qed

lemma keeps_lets_in:
  assumes "opens_nothing op"
  shows "keeps (holds_config (lets_in b)) (fw_do env op)"
proof (cases op)
  case (FwRdma x)
  then show ?thesis by (simp add: open_rdma_def close_rdma_def keeps_other_rule not_proto_names)
next
  case (FwDc x)
  then show ?thesis by (simp add: open_dc_def close_dc_def keeps_other_rule not_proto_names)
next
  case (FwPublished x)
  then show ?thesis by (simp add: set_published_app_ports_def Let_def) (intro keeps_fw, auto intro!: io_rules keeps_candidate)
next
  case (FwWebui https http)
  then show ?thesis
    by (simp add: set_webui_ports_def) (intro keeps_fw, auto split: option.split intro!: io_rules keeps_candidate)
next
  case (FwRestrict f s sources ifaces)
  then show ?thesis
    by (simp add: set_restriction_def Let_def) (intro io_rules keeps_fw keeps_default_ports, simp)
next
  case (FwServicePorts q ports)
  then show ?thesis
    by (simp add: set_service_ports_def split_beta Let_def) (intro keeps_fw io_rules lets_in_replace)
next
  case (FwPortals iscsi nvmeof)
  then show ?thesis
    by (simp add: set_portal_ports_def split_beta Let_def del: proto_name.simps) (intro keeps_fw io_rules lets_in_replace2)
next
  case (FwAdd i)
  then show ?thesis
    by (simp add: ignore_result_def add_custom_rule_def Let_def) (intro io_rules keeps_fw, simp)
next
  case (FwUpdate i x)
  then show ?thesis
    by (simp add: ignore_result_def update_custom_rule_def Let_def)
      (intro io_rules keeps_fw, auto split: option.split intro!: io_rules keeps_fw)
next
  case (FwRemove i)
  then show ?thesis
    by (simp add: remove_custom_rule_def Let_def) (intro io_rules keeps_fw, simp)
qed (use assms in auto)

text \<open>Opening and closing change the one protocol, or nothing when they fail.\<close>

lemma switch_rule:
  assumes "\<And>q. ports_for_protocol q = [] \<Longrightarrow> \<not> b q"
  shows "triple (holds_config (lets_in b)) (set_rule_active env (proto_name p) (ports_for_protocol p) on)
    (\<lambda>_. holds_config (lets_in (b(p := on \<and> ports_for_protocol p \<noteq> [])))) (\<lambda>_. holds_config (lets_in b))"
    (is "triple _ ?m _ _")
proof (cases "ports_for_protocol p = []")
  case True
  then have "b(p := False) = b" using assms by (simp add: fun_upd_idem)
  then show ?thesis using True by (simp add: set_rule_active_def triple_return)
next
  case False
  show ?thesis
    unfolding triple_def
  proof (intro allI impI)
    fix w :: fw_world
    assume w: "lets_in b (fw_config w)"
    obtain r w' where run: "?m w = (r, w')" by fastforce
    have n: "named (fw_config w)" "named (fw_config w')"
      using keepsD [OF keeps_named_rule _ run] w by (simp_all add: lets_in_def)
    have "admits (fw_config w') (proto_name q) \<longleftrightarrow> b q" if "q \<noteq> p" for q
      using set_rule_active_other [OF run] that w by (simp add: lets_in_def)
    then show "case fst (?m w) of
        Inl e \<Rightarrow> lets_in b (fw_config (snd (?m w)))
      | Inr x \<Rightarrow> lets_in (b(p := on \<and> ports_for_protocol p \<noteq> [])) (fw_config (snd (?m w)))"
      using run n set_rule_active_result [OF n(1) run False] w False
      by (cases r) (auto simp: lets_in_def)
  qed
qed

section \<open>Reconciliation\<close>

lemma protocol_states_unchanged: "\<not> snd (protocol_states ps (st, ch)) \<Longrightarrow> \<not> ch \<and> fst (protocol_states ps (st, ch)) = st"
proof (induction ps arbitrary: st ch)
  case (Cons q ps)
  obtain p b where q: "q = (p, b)" by (cases q)
  show ?case
  proof (cases "find (is_service (proto_name p)) st")
    case None
    then show ?thesis using Cons.IH [of st ch] Cons.prems q by auto
  next
    case (Some x)
    then show ?thesis
      using Cons.IH [of "update_first (is_service (proto_name p)) (\<lambda>r. r\<lparr>fr_active := b\<rparr>) st" True] Cons.IH [of st ch]
        Cons.prems q by (auto split: if_splits)
  qed
qed simp

definition reconciled :: "Protocol \<Rightarrow> bool \<Rightarrow> FirewallState \<Rightarrow> FirewallState" where
  "reconciled q on st =
     (case find (is_service (proto_name q)) st of
        Some x \<Rightarrow> if fr_active x \<noteq> on then update_first (is_service (proto_name q)) (\<lambda>r. r\<lparr>fr_active := on\<rparr>) st else st
      | None \<Rightarrow> st)"

lemma protocol_states_reconciled:
  "\<exists>ch'. protocol_states ((q, on) # ps) (st, ch) = protocol_states ps (reconciled q on st, ch')"
  by (cases "find (is_service (proto_name q)) st") (auto simp: reconciled_def)

lemma reconciled_services [simp]: "map fr_service (reconciled q on st) = map fr_service st"
  by (simp add: reconciled_def split: option.split)

lemma reconciled_gates:
  assumes "distinct (map fr_service st)"
  shows "(proto_name q, True) \<in> set (gates (reconciled q on st)) \<longleftrightarrow> proto_name q \<in> set (map fr_service st) \<and> on"
proof (cases "find (is_service (proto_name q)) st")
  case None
  then show ?thesis using gates_find(2) [OF assms None] find_service_iff [of "proto_name q" st] by (simp add: reconciled_def)
next
  case (Some x)
  then have "proto_name q \<in> set (map fr_service st)" using find_service_iff [of "proto_name q" st] by simp
  then show ?thesis
    using gates_find(1) [OF assms Some] gates_active_same [OF assms Some] by (simp add: reconciled_def Some)
qed

lemma reconciled_other:
  "p \<noteq> q \<Longrightarrow> (proto_name p, b) \<in> set (gates (reconciled q on st)) \<longleftrightarrow> (proto_name p, b) \<in> set (gates st)"
  by (simp add: reconciled_def gates_active_other split: option.split)

lemma protocol_states_gates:
  assumes "distinct (map fr_service st)"
  shows "(proto_name p, True) \<in> set (gates (fst (protocol_states (map (\<lambda>p. (p, on p)) ps) (st, ch)))) \<longleftrightarrow>
    (if p \<in> set ps then proto_name p \<in> set (map fr_service st) \<and> on p else (proto_name p, True) \<in> set (gates st))"
  using assms
proof (induction ps arbitrary: st ch)
  case (Cons q ps)
  obtain ch' where e: "protocol_states (map (\<lambda>p. (p, on p)) (q # ps)) (st, ch)
      = protocol_states (map (\<lambda>p. (p, on p)) ps) (reconciled q (on q) st, ch')"
    using protocol_states_reconciled [of q "on q" "map (\<lambda>p. (p, on p)) ps" st ch] by (metis list.simps(9))
  have "distinct (map fr_service (reconciled q (on q) st))" using Cons.prems by simp
  from Cons.IH [OF this, of ch'] show ?case
    unfolding e reconciled_services using reconciled_gates [OF Cons.prems, of q "on q"] reconciled_other [of p q True "on q" st]
    by (cases "p = q") simp_all
qed simp

lemma protocol_states_services: "map fr_service (fst (protocol_states ps (st, ch))) = map fr_service st"
proof (induction ps arbitrary: st ch)
  case (Cons q ps)
  obtain p b where q: "q = (p, b)" by (cases q)
  obtain ch' where "protocol_states (q # ps) (st, ch) = protocol_states ps (reconciled p b st, ch')"
    using protocol_states_reconciled q by blast
  then show ?case using Cons.IH by simp
qed simp

text \<open>
  After a successful reconciliation a protocol with a rule is let in exactly when it is on.
\<close>

lemma states_lets_in:
  assumes inv: "named (fw_config w)" and run: "set_protocol_states env (all_states on) w = (Inr (), w')"
  shows "lets_in (\<lambda>p. proto_name p \<in> set (map fr_service (fc_state (fw_config w))) \<and> on p) (fw_config w')"
proof -
  let ?st = "fc_state (fw_config w)"
  let ?r = "protocol_states (all_states on) (?st, False)"
  have st: "fc_state (fw_config w') = fst ?r"
  proof (cases "snd ?r")
    case True
    then show ?thesis
      using run commit_candidate_config by (auto simp: set_protocol_states_def io_defs Let_def split_beta)
  next
    case False
    then show ?thesis
      using run protocol_states_unchanged [OF False] by (simp add: set_protocol_states_def io_defs split_beta)
  qed
  have "p \<in> set all_protocols" for p by (cases p) (simp_all add: all_protocols_def)
  then show ?thesis
    using protocol_states_gates [OF inv [unfolded named_def], of _ on all_protocols False] inv
    by (simp add: lets_in_def named_def admits_def st all_states_def protocol_states_services del: set_map)
qed

section \<open>Initialisation\<close>

lemma commit_triple: "triple (\<lambda>_. True) (commit_candidate env c st) (\<lambda>_ w. fw_config w = c) (\<lambda>_ _. True)"
  unfolding triple_def
proof (intro allI impI)
  show "case fst (commit_candidate env c st w) of Inl e \<Rightarrow> True | Inr x \<Rightarrow> fw_config (snd (commit_candidate env c st w)) = c" for w
    using commit_candidate_config [of env c st w] by (cases "commit_candidate env c st w") (auto split: sum.split)
qed

lemma gates_map: "gates (map f xs) = map (\<lambda>x. (fr_service (f x), fr_active (f x))) xs"
  by (simp add: gates_def)

lemma initial_gates:
  "(proto_name p, True) \<in> set (gates (initial_rules r l (all_states on) rdma dc iscsi nvmeof)) \<longleftrightarrow>
     ports_for_protocol p \<noteq> [] \<and> on p"
proof -
  have "p \<in> set all_protocols" by (cases p) (simp_all add: all_protocols_def)
  then show ?thesis
    by (auto simp: initial_rules_def Let_def gates_replace gates_map new_rule_def all_states_def not_proto_names
        intro!: rev_image_eqI [of "(p, on p)"] simp del: proto_name.simps)
qed

lemma initial_services:
  "proto_name p \<in> set (map fr_service (initial_rules r l (all_states on) rdma dc iscsi nvmeof)) \<longleftrightarrow>
     ports_for_protocol p \<noteq> []"
proof -
  let ?new = "\<lambda>(p, enabled). new_rule r (proto_name p) (ports_for_protocol p) enabled"
  let ?some = "filter (\<lambda>(p, enabled). ports_for_protocol p \<noteq> []) (all_states on)"
  have "fr_service \<circ> ?new = proto_name \<circ> fst" by (auto simp: new_rule_def)
  moreover have "fst ` set ?some = {p. ports_for_protocol p \<noteq> []}"
  proof -
    have "p \<in> set all_protocols" for p by (cases p) (simp_all add: all_protocols_def)
    then show ?thesis by (force simp: all_states_def)
  qed
  ultimately have "set (map fr_service (map ?new ?some)) = proto_name ` {p. ports_for_protocol p \<noteq> []}"
    by (metis (no_types, lifting) image_comp list.map_comp list.set_map)
  then have "proto_name p \<in> set (map fr_service (map ?new ?some)) \<longleftrightarrow> ports_for_protocol p \<noteq> []"
    by auto
  then show ?thesis
    by (cases p) (simp_all add: initial_rules_def Let_def replace_services(2) new_rule_def del: set_map)
qed

text \<open>
  A successful initialisation lets in the protocols it is told to, and gives every protocol with
  ports a rule.
\<close>

lemma init_lets_in:
  "triple (\<lambda>_. True) (init env f (all_states on) rdma dc (portal_specs a iscsi) (portal_specs b nvmeof) published)
     (\<lambda>_ w. lets_in (\<lambda>p. ports_for_protocol p \<noteq> [] \<and> on p) (fw_config w) \<and>
        (\<forall>p. proto_name p \<in> set (map fr_service (fc_state (fw_config w))) \<longleftrightarrow> ports_for_protocol p \<noteq> []))
     (\<lambda>_ _. True)" (is "triple _ _ ?Q ?R")
proof -
  have c: "triple (\<lambda>_. True)
      (commit_candidate env
         \<lparr>fc_state = initial_rules r (confirmed s) (all_states on) rdma dc (portal_specs a iscsi) (portal_specs b nvmeof),
          fc_restrictions = r, fc_custom = custom, fc_published = published\<rparr> None) ?Q ?R" for r s custom
  proof -
    have "rules_ok r (initial_rules r (confirmed s) (all_states on) rdma dc (portal_specs a iscsi) (portal_specs b nvmeof))"
      by (rule rules_ok_initial) (simp_all add: plain_portals all_states_def distinct_all_protocols comp_def)
    then have "?Q () w" if "fw_config w =
        \<lparr>fc_state = initial_rules r (confirmed s) (all_states on) rdma dc (portal_specs a iscsi) (portal_specs b nvmeof),
         fc_restrictions = r, fc_custom = custom, fc_published = published\<rparr>" for w :: fw_world
      using that initial_gates initial_services by (simp add: lets_in_def named_def admits_def rules_ok_def del: set_map)
    then show ?thesis by (intro triple_conseq [OF commit_triple]) auto
  qed
  show ?thesis
    unfolding init_def by (intro triple_bind [where Q = "\<lambda>_ _. True"] c) (simp_all add: triple_def split: sum.split)
qed

end
