(* ===== verification/Access.thy ===== *)
theory Access
  imports Prelude
begin

text \<open>
  Roles, sessions and access tiers (\<open>engine/nasty-engine/src/auth.rs\<close>) and the role gate of
  the RPC dispatcher (\<open>engine/nasty-engine/src/router/mod.rs\<close>).
\<close>

section \<open>Sessions\<close>

datatype Role = Admin | ReadOnly | Operator | User

record Session =
  se_token :: string
  se_username :: string
  se_role :: Role
  se_principal :: "string option"
  se_filesystem :: "string option"
  se_owner :: "string option"
  se_created :: "64 word"
  se_must_change :: bool
  se_ip :: "string option"

datatype EndpointAccess = Read | Mutation | UnscopedMutation | RootEquivalent | SelfService | PortalFiles

datatype AccessDenied =
    PasswordChangeRequired | InsufficientRole | ScopedCredential | MissingFilePrincipal | InteractiveSessionRequired

fun role_allowed :: "Role \<Rightarrow> EndpointAccess \<Rightarrow> bool" where
  "role_allowed r Read \<longleftrightarrow> r \<noteq> User"
| "role_allowed r SelfService \<longleftrightarrow> True"
| "role_allowed r Mutation \<longleftrightarrow> r \<in> {Admin, Operator}"
| "role_allowed r UnscopedMutation \<longleftrightarrow> r \<in> {Admin, Operator}"
| "role_allowed r RootEquivalent \<longleftrightarrow> r = Admin"
| "role_allowed r PortalFiles \<longleftrightarrow> r = User"

definition authorize_session :: "Session \<Rightarrow> EndpointAccess \<Rightarrow> AccessDenied + unit" where
  "authorize_session s a =
     (if se_must_change s \<and> a \<noteq> SelfService then Inl PasswordChangeRequired
      else if \<not> role_allowed (se_role s) a then Inl InsufficientRole
      else if a \<in> {UnscopedMutation, RootEquivalent, PortalFiles} \<and> (se_filesystem s \<noteq> None \<or> se_owner s \<noteq> None)
      then Inl ScopedCredential
      else if a = PortalFiles \<and> se_ip s = None then Inl InteractiveSessionRequired
      else if a = PortalFiles \<and> se_principal s \<in> {None, Some []} then Inl MissingFilePrincipal
      else Inr ())"

lemma authorize_root:
  "authorize_session s RootEquivalent = Inr () \<longleftrightarrow>
     \<not> se_must_change s \<and> se_role s = Admin \<and> se_filesystem s = None \<and> se_owner s = None"
  by (auto simp: authorize_session_def)

lemma authorize_unscoped:
  "authorize_session s UnscopedMutation = Inr () \<longleftrightarrow>
     \<not> se_must_change s \<and> se_role s \<in> {Admin, Operator} \<and> se_filesystem s = None \<and> se_owner s = None"
  by (auto simp: authorize_session_def)

section \<open>The role gate\<close>

text \<open>
  The methods that are never reads although a suffix says so, the other reads, the changes every
  role may make to its own account, and the methods of the standard user and of the operator.
\<close>

definition carve_outs :: "string list" where
  "carve_outs =
     [''domain.user.list'', ''domain.group.list'', ''dc.user.list'', ''dc.group.list'',
      ''dc.computer.list'', ''auth.token.list'', ''apps.registry_credentials.list'', ''guestshare.list'',
      ''guestshare.get'', ''system.custom_config.get'', ''system.webui.get'', ''apps.config'',
      ''apps.inspect'', ''apps.compose.get'', ''notifications.config.get'', ''audit.list'']"

definition read_methods :: "string list" where
  "read_methods =
     [''system.info'', ''system.health'', ''system.hardware.iommu'', ''system.hardware.summary'',
      ''system.secure_boot.enrollment.status'', ''system.secure_boot.readiness'',
      ''system.passthrough.get'', ''system.rdma.status'', ''system.stats'', ''system.disks'',
      ''system.network.get'', ''system.network.pending'', ''system.network.nm_preview'',
      ''system.logs.units'', ''system.ssh.status'', ''system.alerts'', ''system.settings.get'',
      ''system.tuning.get'', ''system.nut.config.get'', ''system.nut.apply_status'', ''system.nut.status'',
      ''system.watchdog.config.get'', ''system.tailscale.get'', ''system.acme.status'',
      ''system.tls.local_ca_root'', ''system.tls.host_statuses'', ''system.metrics.history'',
      ''system.metrics.prometheus'', ''alert.rules.list'', ''device.list'', ''auth.me'',
      ''auth.list_users'', ''fs.dependents'', ''fs.locked_dependents'', ''fs.usage'', ''fs.scrub.status'',
      ''fs.reconcile.status'', ''bcachefs.usage'', ''service.protocol.list'', ''subvolume.list_all'',
      ''subvolume.list_dependents'', ''subvolume.find_by_property'', ''subvolume.children'',
      ''smb.user.list'', ''smb.group.list'', ''service.rest_server.config'', ''service.base_names.get'',
      ''system.update.version'', ''system.update.check'', ''system.update.check_cached'',
      ''backup.secrets_status'', ''system.update.status'', ''system.update.build_dir.get'',
      ''system.reboot_required'', ''system.generations.list'', ''system.version.get'',
      ''system.version.tagged_release_notice'', ''system.log.level'', ''system.settings.timezones'',
      ''audit.mine'', ''apps.check_ports'', ''apps.check_devices'', ''apps.check_volumes'',
      ''apps.check_compose'', ''apps.status'', ''apps.stats'', ''apps.logs'', ''apps.compose.logs'',
      ''apps.container.logs'', ''system.firewall.status'', ''vm.capabilities'', ''vm.images.import_info'',
      ''firmware.available'', ''firmware.constraints'', ''firmware.devices'', ''apps.inspect_image'',
      ''apps.caddy.routes'', ''apps.ingress.check_conflict'', ''bcachefs.timestats'', ''bcachefs.top'',
      ''backup.profile.list'', ''backup.profile.get'', ''backup.status'', ''backup.snapshots'',
      ''backup.jobs.list'', ''backup.jobs.get'', ''auth.oidc.config_status'', ''auth.webauthn.config'',
      ''auth.webauthn.list'']"

definition self_mutations :: "string list" where
  "self_mutations =
     [''auth.logout'', ''auth.change_password'', ''auth.webauthn.register.start'',
      ''auth.webauthn.register.finish'', ''auth.webauthn.delete'']"

definition user_methods :: "string list" where
  "user_methods =
     [''auth.me'', ''auth.logout'', ''auth.change_password'', ''auth.webauthn.config'',
      ''auth.webauthn.list'', ''auth.webauthn.register.start'', ''auth.webauthn.register.finish'',
      ''auth.webauthn.delete'', ''audit.mine'']"

definition operator_methods :: "string list" where
  "operator_methods =
     [''subvolume.create'', ''subvolume.delete'', ''subvolume.attach'', ''subvolume.detach'',
      ''subvolume.resize'', ''subvolume.update'', ''subvolume.clone'', ''subvolume.set_properties'',
      ''subvolume.remove_properties'', ''snapshot.create'', ''snapshot.delete'', ''snapshot.clone'',
      ''share.nfs.create'', ''share.nfs.update'', ''share.nfs.delete'', ''guestshare.list'',
      ''guestshare.get'', ''guestshare.create'', ''guestshare.revoke'', ''guestshare.remove'',
      ''share.smb.create'', ''share.smb.update'', ''share.smb.delete'', ''smb.user.create'',
      ''smb.user.delete'', ''smb.user.set_password'', ''smb.group.create'', ''smb.group.delete'',
      ''smb.group.add_member'', ''smb.group.remove_member'', ''share.iscsi.create'',
      ''share.iscsi.delete'', ''share.iscsi.add_lun'', ''share.iscsi.remove_lun'', ''share.iscsi.add_acl'',
      ''share.iscsi.remove_acl'', ''share.iscsi.add_portal'', ''share.iscsi.remove_portal'',
      ''share.iscsi.set_portals'', ''share.nvmeof.create'', ''share.nvmeof.delete'',
      ''share.nvmeof.add_namespace'', ''share.nvmeof.remove_namespace'', ''share.nvmeof.add_port'',
      ''share.nvmeof.remove_port'', ''share.nvmeof.add_host'', ''share.nvmeof.remove_host'', ''vm.create'',
      ''vm.disk.create'', ''vm.disk.candidates'', ''vm.update'', ''vm.delete'', ''vm.start'', ''vm.stop'',
      ''vm.kill'', ''vm.snapshot'', ''vm.clone'', ''apps.install'', ''apps.update'', ''apps.config'',
      ''apps.inspect'', ''apps.remove'', ''apps.stop'', ''apps.start'', ''apps.restart'', ''apps.pull'',
      ''apps.prune'', ''apps.ingress.set'', ''apps.ingress.remove'', ''apps.networks.create'',
      ''apps.networks.remove'', ''backup.profile.create'', ''backup.profile.update'',
      ''backup.profile.delete'', ''backup.run'', ''backup.repo.check'', ''backup.repo.init'',
      ''backup.restore'', ''service.protocol.enable'', ''service.protocol.disable'', ''alert.acknowledge'',
      ''vm.images.ensure'']"

definition ends_with :: "string \<Rightarrow> string \<Rightarrow> bool" where
  "ends_with s e \<longleftrightarrow> length e \<le> length s \<and> drop (length s - length e) s = e"

definition is_read_only :: "string \<Rightarrow> bool" where
  "is_read_only m \<longleftrightarrow>
     m \<notin> set carve_outs \<and>
     (ends_with m ''.list'' \<or> ends_with m ''.get'' \<or> ends_with m ''.status'' \<or> m \<in> set read_methods)"

definition is_universally_allowed :: "string \<Rightarrow> bool" where
  "is_universally_allowed m \<longleftrightarrow> is_read_only m \<or> m \<in> set self_mutations"

definition is_user_allowed :: "string \<Rightarrow> bool" where
  "is_user_allowed m \<longleftrightarrow> m \<in> set user_methods"

definition is_operator_allowed :: "string \<Rightarrow> bool" where
  "is_operator_allowed m \<longleftrightarrow> is_universally_allowed m \<or> m \<in> set operator_methods"

fun role_admits :: "Role \<Rightarrow> string \<Rightarrow> bool" where
  "role_admits Admin m \<longleftrightarrow> True"
| "role_admits ReadOnly m \<longleftrightarrow> is_universally_allowed m"
| "role_admits Operator m \<longleftrightarrow> is_operator_allowed m"
| "role_admits User m \<longleftrightarrow> is_user_allowed m"

datatype RpcDenial = ChangePasswordFirst | PermissionDenied

definition rpc_gate :: "Session \<Rightarrow> string \<Rightarrow> RpcDenial + unit" where
  "rpc_gate s m =
     (if se_must_change s \<and> m \<notin> {''auth.change_password'', ''auth.me'', ''auth.logout''} then Inl ChangePasswordFirst
      else if \<not> role_admits (se_role s) m then Inl PermissionDenied
      else Inr ())"

end
