(* ===== verification/Services.thy ===== *)
theory Services
  imports Protocol_Service Exposure Access
begin

text \<open>
  The requests that switch protocols, over the protocol service and the firewall
  (\<open>engine/nasty-engine/src/router/service.rs\<close>), the reconciliation of block shares
  (\<open>router/fs.rs\<close>), the clean-up of a failed repair (\<open>router/share.rs\<close>) and the end of a domain
  controller demotion (\<open>router/dc.rs\<close>). The sharing and storage services they ask are oracles.
\<close>

record Lun =
  lun_id :: "32 word"
  lun_path :: string
  lun_name :: string
  lun_backstore :: string
  lun_size :: "64 word option"
  lun_volume :: "string option"
  lun_unresolved :: bool

record Namespace =
  ns_id :: "32 word"
  ns_path :: string
  ns_enabled :: bool
  ns_volume :: "string option"
  ns_unresolved :: bool

record Remap =
  safe_to_restore :: bool
  changed :: bool

record srv_world =
  sw_proto :: proto_world
  sw_fw :: fw_world
  sw_calls :: nat

record srv_env =
  en_proto :: proto_env
  en_fw :: fw_env
  en_luns :: "nat \<Rightarrow> string + Lun list"
  en_managed :: "nat \<Rightarrow> string \<Rightarrow> bool"
  en_namespaces :: "nat \<Rightarrow> string + Namespace list"
  en_remap_iscsi :: "nat \<Rightarrow> Remap"
  en_remap_nvmeof :: "nat \<Rightarrow> Remap"
  en_nvmeof_restore :: outcomes
  en_nvmeof_quiesce :: outcomes
  en_nvmeof_active :: "nat \<Rightarrow> bool"
  en_demote :: outcomes
  en_mounts :: "nat \<Rightarrow> string list"
  en_dc :: "nat \<Rightarrow> bool"
  en_rdma :: "nat \<Rightarrow> bool"
  en_portals :: "nat \<Rightarrow> string + u16 list \<times> u16 list"
  en_published :: "nat \<Rightarrow> string + PublishedAppPort list"
  en_listeners :: "nat \<Rightarrow> ListenerState json_file"

datatype SrvError =
    Denied AccessDenied
  | Asked string
  | PrFailed PrError
  | FwFailed FwError
  | NvmeofFailed string
  | Unresolved "SrvError list"
  | NotReloaded SrvError
  | NotEnabled SrvError "SrvError list"
  | NotRestored SrvError "SrvError list"
  | NotClosed SrvError
  | NotReconciled "SrvError list"
  | NotDemoted string

type_synonym 'a srv_io = "(srv_world, SrvError, 'a) io"

text \<open>A question to another service, and a call of it that may fail.\<close>

definition srv_ask :: "(nat \<Rightarrow> 'a) \<Rightarrow> 'a srv_io" where
  "srv_ask f w = (Inr (f (sw_calls w)), w\<lparr>sw_calls := Suc (sw_calls w)\<rparr>)"

definition srv_call :: "(string \<Rightarrow> SrvError) \<Rightarrow> outcomes \<Rightarrow> unit srv_io" where
  "srv_call err f = io_bind (srv_ask f) (\<lambda>r. case r of None \<Rightarrow> io_return () | Some e \<Rightarrow> io_fail (err e))"

definition srv_asked :: "(nat \<Rightarrow> string + 'a) \<Rightarrow> 'a srv_io" where
  "srv_asked f = io_bind (srv_ask f) (\<lambda>r. io_lift (map_sum Asked id r))"

definition protocols :: "'a pr_io \<Rightarrow> 'a srv_io" where
  "protocols = zoom sw_proto (\<lambda>v w. w\<lparr>sw_proto := v\<rparr>) PrFailed"

definition firewall :: "'a fw_io \<Rightarrow> 'a srv_io" where
  "firewall = zoom sw_fw (\<lambda>v w. w\<lparr>sw_fw := v\<rparr>) FwFailed"

section \<open>Switching a protocol\<close>

definition protocol_mutation_access :: "Protocol \<Rightarrow> EndpointAccess" where
  "protocol_mutation_access p = (if is_system_service p then RootEquivalent else UnscopedMutation)"

definition require_access :: "Session \<Rightarrow> EndpointAccess \<Rightarrow> unit srv_io" where
  "require_access s a = io_lift (map_sum Denied id (authorize_session s a))"

fun lun_admin_only :: "(string \<Rightarrow> bool) \<Rightarrow> Lun \<Rightarrow> bool" where
  "lun_admin_only managed l =
     (if lun_backstore l = ''block'' then lun_volume l = None \<or> lun_unresolved l
      else if lun_backstore l = ''fileio'' then \<not> managed (lun_path l)
      else True)"

definition protocol_has_admin_only_sources :: "srv_env \<Rightarrow> Protocol \<Rightarrow> bool srv_io" where
  "protocol_has_admin_only_sources env p =
     (if p = Iscsi then
        io_bind (srv_asked (en_luns env)) (\<lambda>luns.
        io_bind (srv_ask (en_managed env)) (\<lambda>managed.
        io_return (list_ex (lun_admin_only managed) luns)))
      else if p = Nvmeof then
        io_bind (srv_asked (en_namespaces env)) (\<lambda>ns.
        io_return (list_ex (\<lambda>n. ns_volume n = None \<or> ns_unresolved n) ns))
      else io_return False)"

definition quiesce_share :: "srv_env \<Rightarrow> Protocol \<Rightarrow> unit srv_io" where
  "quiesce_share env p =
     (if p = Nvmeof then srv_call NvmeofFailed (en_nvmeof_quiesce env) else protocols (quiesce (en_proto env) p))"

definition remap :: "srv_env \<Rightarrow> Protocol \<Rightarrow> Remap srv_io" where
  "remap env p = srv_ask (if p = Nvmeof then en_remap_nvmeof env else en_remap_iscsi env)"

text \<open>The checks before a block protocol comes up.\<close>

definition prepare_block :: "srv_env \<Rightarrow> Session \<Rightarrow> Protocol \<Rightarrow> unit srv_io" where
  "prepare_block env s p =
     io_bind (protocol_has_admin_only_sources env p) (\<lambda>raw.
     io_bind (if raw then require_access s RootEquivalent else io_return ()) (\<lambda>_.
     io_bind (remap env p) (\<lambda>m.
     if \<not> safe_to_restore m then
       io_bind (error_of (quiesce_share env p)) (\<lambda>es.
       io_bind (best_effort (firewall (fw_close (en_fw env) p))) (\<lambda>_.
       io_fail (Unresolved es)))
     else if p = Iscsi then
       io_case (protocols (quiesce (en_proto env) p)) (\<lambda>e. io_fail (NotReloaded e)) io_return
     else io_return ())))"

definition restore_nvmeof :: "srv_env \<Rightarrow> unit srv_io" where
  "restore_nvmeof env = srv_call NvmeofFailed (en_nvmeof_restore env)"

text \<open>NVMe-oF is restored after it was enabled; a failure undoes everything.\<close>

definition after_enable :: "srv_env \<Rightarrow> Protocol \<Rightarrow> string \<Rightarrow> ProtocolStatus \<Rightarrow> ProtocolStatus srv_io" where
  "after_enable env p name v =
     (if p = Nvmeof then
        io_case (restore_nvmeof env)
          (\<lambda>e. io_bind (error_of (quiesce_share env Nvmeof)) (\<lambda>e1.
               io_bind (error_of (protocols (pr_disable (en_proto env) name))) (\<lambda>e2.
               io_bind (error_of (firewall (fw_close (en_fw env) p))) (\<lambda>e3.
               io_fail (NotRestored e (e1 @ e2 @ e3))))))
          (\<lambda>_. io_return v)
      else io_return v)"

definition open_and_enable :: "srv_env \<Rightarrow> Protocol \<Rightarrow> string \<Rightarrow> ProtocolStatus srv_io" where
  "open_and_enable env p name =
     io_bind (firewall (fw_open (en_fw env) p)) (\<lambda>_.
     io_case (protocols (pr_enable (en_proto env) name))
       (\<lambda>e. io_bind (error_of (firewall (fw_close (en_fw env) p))) (\<lambda>es. io_fail (NotEnabled e es)))
       (after_enable env p name))"

definition service_enable :: "srv_env \<Rightarrow> Session \<Rightarrow> string \<Rightarrow> ProtocolStatus srv_io" where
  "service_enable env s name =
     (case from_name name of
        None \<Rightarrow> protocols (pr_enable (en_proto env) name)
      | Some p \<Rightarrow>
          io_bind (require_access s (protocol_mutation_access p)) (\<lambda>_.
          io_bind (if p \<in> {Iscsi, Nvmeof} then prepare_block env s p else io_return ()) (\<lambda>_.
          open_and_enable env p name)))"

definition service_disable :: "srv_env \<Rightarrow> Session \<Rightarrow> string \<Rightarrow> ProtocolStatus srv_io" where
  "service_disable env s name =
     (case from_name name of
        None \<Rightarrow> protocols (pr_disable (en_proto env) name)
      | Some p \<Rightarrow>
          io_bind (require_access s (protocol_mutation_access p)) (\<lambda>_.
          io_bind (protocols (pr_disable (en_proto env) name)) (\<lambda>v.
          io_case (firewall (fw_close (en_fw env) p)) (\<lambda>e. io_fail (NotClosed e)) (\<lambda>_. io_return v))))"

section \<open>Block shares\<close>

definition is_running :: "srv_env \<Rightarrow> Protocol \<Rightarrow> bool srv_io" where
  "is_running env p = protocols (is_protocol_running (en_proto env) p)"

definition enabled :: "srv_env \<Rightarrow> Protocol \<Rightarrow> bool srv_io" where
  "enabled env p = protocols (is_enabled (en_proto env) p)"

text \<open>\<open>a && b\<close> with a \<open>b\<close> that is only asked when \<open>a\<close> holds.\<close>

definition io_and :: "('w, 'e, bool) io \<Rightarrow> ('w, 'e, bool) io \<Rightarrow> ('w, 'e, bool) io" where
  "io_and a b = io_bind a (\<lambda>x. if x then b else io_return False)"

definition quiesce_unsafe :: "srv_env \<Rightarrow> Protocol \<Rightarrow> SrvError list srv_io" where
  "quiesce_unsafe env p =
     io_bind (error_of (quiesce_share env p)) (\<lambda>es.
     io_bind (best_effort (firewall (fw_close (en_fw env) p))) (\<lambda>_.
     io_return es))"

definition reactivate_iscsi :: "srv_env \<Rightarrow> SrvError list srv_io" where
  "reactivate_iscsi env =
     io_case
       (io_bind (protocols (quiesce (en_proto env) Iscsi)) (\<lambda>_.
        io_bind (firewall (fw_open (en_fw env) Iscsi)) (\<lambda>_.
        protocols (pr_enable (en_proto env) ''iscsi''))))
       (\<lambda>e. io_bind (best_effort (firewall (fw_close (en_fw env) Iscsi))) (\<lambda>_. io_return [e]))
       (\<lambda>_. io_return [])"

definition reconcile_iscsi :: "srv_env \<Rightarrow> Remap \<Rightarrow> SrvError list srv_io" where
  "reconcile_iscsi env m =
     (if \<not> safe_to_restore m then quiesce_unsafe env Iscsi
      else io_bind (io_and (enabled env Iscsi)
                      (if changed m then io_return True
                       else io_bind (is_running env Iscsi) (\<lambda>r. io_return (\<not> r)))) (\<lambda>go.
           if go then reactivate_iscsi env else io_return []))"

definition reactivate_nvmeof :: "srv_env \<Rightarrow> SrvError list srv_io" where
  "reactivate_nvmeof env =
     io_case (firewall (fw_open (en_fw env) Nvmeof)) (\<lambda>e. io_return [e]) (\<lambda>_.
     io_case (protocols (pr_enable (en_proto env) ''nvmeof'')) (\<lambda>e. io_return [e]) (\<lambda>_.
     io_case (restore_nvmeof env)
       (\<lambda>e. io_bind (best_effort (quiesce_share env Nvmeof)) (\<lambda>_.
            io_bind (best_effort (firewall (fw_close (en_fw env) Nvmeof))) (\<lambda>_. io_return [e])))
       (\<lambda>_. io_return [])))"

definition reconcile_nvmeof :: "srv_env \<Rightarrow> Remap \<Rightarrow> SrvError list srv_io" where
  "reconcile_nvmeof env m =
     (if \<not> safe_to_restore m then quiesce_unsafe env Nvmeof
      else io_bind (io_and (enabled env Nvmeof)
                      (if changed m then io_return True
                       else io_bind (srv_ask (en_nvmeof_active env)) (\<lambda>r. io_return (\<not> r)))) (\<lambda>go.
           if go then reactivate_nvmeof env else io_return []))"

definition reconcile_block_shares :: "srv_env \<Rightarrow> unit srv_io" where
  "reconcile_block_shares env =
     io_bind (remap env Nvmeof) (\<lambda>nvmeof.
     io_bind (remap env Iscsi) (\<lambda>iscsi.
     io_bind (reconcile_iscsi env iscsi) (\<lambda>es.
     io_bind (reconcile_nvmeof env nvmeof) (\<lambda>es'.
     if es @ es' = [] then io_return () else io_fail (NotReconciled (es @ es'))))))"

definition quiesce_after_failed_repair :: "srv_env \<Rightarrow> Protocol \<Rightarrow> SrvError list srv_io" where
  "quiesce_after_failed_repair env p =
     io_bind (error_of (quiesce_share env p)) (\<lambda>es.
     io_bind (error_of (firewall (fw_close (en_fw env) p))) (\<lambda>es'.
     io_return (es @ es')))"

text \<open>
  \<open>dc.demote\<close>: the result of closing the controller's ports is the answer; the error of
  restarting SMB is only logged, and comes back as the value here.
\<close>

definition dc_demote :: "srv_env \<Rightarrow> SrvError list srv_io" where
  "dc_demote env =
     io_bind (srv_call NotDemoted (en_demote env)) (\<lambda>_.
     io_bind (error_of (firewall (close_dc (en_fw env)))) (\<lambda>closed.
     io_bind (enabled env Smb) (\<lambda>smb.
     io_bind (if smb then error_of (protocols (pr_enable (en_proto env) ''smb'')) else io_return []) (\<lambda>logged.
     io_return (closed @ logged)))))"

section \<open>Requests\<close>

text \<open>
  Every request the running engine serves that reaches protocols or firewall. The rules of a
  protocol are only switched by the requests above, so of the firewall's operations those that do
  not switch them remain as requests of their own. The value is the list of the errors returned or
  logged.
\<close>

datatype srv_req =
    ReqEnable Session string
  | ReqDisable Session string
  | ReqList
  | ReqWatchdog WatchdogConfigUpdate
  | ReqFirewall fw_op
  | ReqReconcile
  | ReqCleanup Protocol
  | ReqDemote

fun srv_do :: "srv_env \<Rightarrow> srv_req \<Rightarrow> SrvError list srv_io" where
  "srv_do env (ReqEnable s name) = error_of (service_enable env s name)"
| "srv_do env (ReqDisable s name) = error_of (service_disable env s name)"
| "srv_do env ReqList = error_of (protocols (pr_list (en_proto env)))"
| "srv_do env (ReqWatchdog u) = error_of (protocols (wrap PrWatchdog (update_config (pe_wd (en_proto env)) u)))"
| "srv_do env (ReqFirewall op) = (if opens_nothing op then error_of (firewall (fw_do (en_fw env) op)) else io_return [])"
| "srv_do env ReqReconcile = error_of (reconcile_block_shares env)"
| "srv_do env (ReqCleanup p) = quiesce_after_failed_repair env p"
| "srv_do env ReqDemote = io_case (dc_demote env) (\<lambda>e. io_return [e]) io_return"

text \<open>The protocols for which the errors of a request mean that a rule may be left open.\<close>

fun left_open :: "SrvError \<Rightarrow> bool" where
  "left_open (NotEnabled _ es) \<longleftrightarrow> es \<noteq> []"
| "left_open (NotRestored _ es) \<longleftrightarrow> es \<noteq> []"
| "left_open (NotClosed _) \<longleftrightarrow> True"
| "left_open _ \<longleftrightarrow> False"

fun blamed :: "srv_req \<Rightarrow> SrvError list \<Rightarrow> Protocol set" where
  "blamed (ReqEnable _ name) es = (if list_ex left_open es then set_option (from_name name) else {})"
| "blamed (ReqDisable _ name) es = (if list_ex left_open es then set_option (from_name name) else {})"
| "blamed ReqReconcile es = (if es = [] then {} else {Iscsi, Nvmeof})"
| "blamed ReqDemote es = (if es = [] then {} else {Smb})"
| "blamed _ _ = {}"

definition srv_step :: "srv_env \<Rightarrow> srv_world \<times> Protocol set \<Rightarrow> srv_req \<Rightarrow> srv_world \<times> Protocol set" where
  "srv_step env s req =
     (case srv_do env req (fst s) of
        (Inr es, w) \<Rightarrow> (w, snd s \<union> blamed req es)
      | (Inl e, w) \<Rightarrow> (w, snd s \<union> blamed req [e]))"

section \<open>Preferences and rules together\<close>

definition srv_on :: "(Protocol \<Rightarrow> bool) \<Rightarrow> (FirewallConfig \<Rightarrow> bool) \<Rightarrow> srv_world \<Rightarrow> bool" where
  "srv_on g F w \<longleftrightarrow> switched g (sw_proto w) \<and> F (fw_config (sw_fw w))"

abbreviation srv_at :: "(Protocol \<Rightarrow> bool) \<Rightarrow> (Protocol \<Rightarrow> bool) \<Rightarrow> srv_world \<Rightarrow> bool" where
  "srv_at g b \<equiv> srv_on g (lets_in b)"

text \<open>Only protocols with ports have a rule.\<close>

definition ported :: "(Protocol \<Rightarrow> bool) \<Rightarrow> bool" where
  "ported b \<longleftrightarrow> (\<forall>p. ports_for_protocol p = [] \<longrightarrow> \<not> b p)"

lemma triple_zoom:
  assumes "triple P m Q R" "\<And>v w. get (put v w) = v" "\<And>v w. F (put v w) = F w"
  shows "triple (\<lambda>w. P (get w) \<and> F w) (zoom get put err m) (\<lambda>x w. Q x (get w) \<and> F w) (\<lambda>e w. (\<exists>e'. R e' (get w)) \<and> F w)"
  unfolding triple_def
proof (intro allI impI)
  fix w
  assume w: "P (get w) \<and> F w"
  obtain r v where m: "m (get w) = (r, v)" by fastforce
  show "case fst (zoom get put err m w) of
      Inl e \<Rightarrow> (\<exists>e'. R e' (get (snd (zoom get put err m w)))) \<and> F (snd (zoom get put err m w))
    | Inr x \<Rightarrow> Q x (get (snd (zoom get put err m w))) \<and> F (snd (zoom get put err m w))"
    using tripleD [OF assms(1), of "get w"] w m assms(2,3) by (cases r) (auto simp: zoom_def)
qed

lemma triple_protocols:
  assumes "triple (switched g) m Q R"
  shows "triple (srv_on g F) (protocols m)
    (\<lambda>x w. Q x (sw_proto w) \<and> F (fw_config (sw_fw w))) (\<lambda>e w. (\<exists>e'. R e' (sw_proto w)) \<and> F (fw_config (sw_fw w)))"
  using triple_zoom [OF assms, of sw_proto "\<lambda>v w. w\<lparr>sw_proto := v\<rparr>" "\<lambda>w. F (fw_config (sw_fw w))"]
  unfolding protocols_def srv_on_def by simp

lemma triple_firewall:
  assumes "triple (holds_config F) m Q R"
  shows "triple (srv_on g F) (firewall m)
    (\<lambda>x w. Q x (sw_fw w) \<and> switched g (sw_proto w)) (\<lambda>e w. (\<exists>e'. R e' (sw_fw w)) \<and> switched g (sw_proto w))"
  using triple_zoom [OF assms, of sw_fw "\<lambda>v w. w\<lparr>sw_fw := v\<rparr>" "\<lambda>w. switched g (sw_proto w)"]
  unfolding firewall_def srv_on_def by (simp add: conj_commute)

text \<open>What the steps that touch neither preferences nor rules keep.\<close>

lemma keeps_protocols: "(\<And>f. keeps (pr_at f) m) \<Longrightarrow> keeps (srv_on g F) (protocols m)"
  using keeps_switched [of m g]
  by (auto simp: keeps_def protocols_def zoom_def srv_on_def split: prod.split)

lemma keeps_firewall: "keeps (holds_config F) m \<Longrightarrow> keeps (srv_on g F) (firewall m)"
  by (auto simp: keeps_def firewall_def zoom_def srv_on_def split: prod.split)

lemma keeps_asking [io_rules]:
  "keeps (srv_on g F) (srv_ask f)" "keeps (srv_on g F) (srv_call err o')" "keeps (srv_on g F) (srv_asked h)"
proof -
  show a: "keeps (srv_on g F) (srv_ask f)" for f :: "nat \<Rightarrow> 'z" by (simp add: keeps_def srv_ask_def srv_on_def)
  show "keeps (srv_on g F) (srv_call err o')" "keeps (srv_on g F) (srv_asked h)"
    unfolding srv_call_def srv_asked_def by (intro io_rules a)+
qed

lemma keeps_quiesce [io_rules]: "keeps (pr_at f) (quiesce env p)"
  unfolding quiesce_def by (intro io_rules)

lemma keeps_running [io_rules]: "keeps (pr_at f) (is_protocol_running env p)"
  unfolding is_protocol_running_def by (cases p) (simp_all, (intro io_rules)+)

lemma keeps_shares [io_rules]:
  "keeps (srv_on g F) (require_access s a)" "keeps (srv_on g F) (quiesce_share env p)"
  "keeps (srv_on g F) (remap env p)" "keeps (srv_on g F) (restore_nvmeof env)" "keeps (srv_on g F) (is_running env p)"
  "keeps (srv_on g F) (protocol_has_admin_only_sources env p)"
  unfolding require_access_def quiesce_share_def remap_def restore_nvmeof_def is_running_def protocol_has_admin_only_sources_def
  by (intro io_rules keeps_protocols)+

section \<open>One protocol at a time\<close>

text \<open>
  The world during a step that concerns one protocol: the preferences and rules of the others as
  at its begin, and a relation between the preference and the rule of this one.
\<close>

definition about ::
  "Protocol \<Rightarrow> (Protocol \<Rightarrow> bool) \<Rightarrow> (Protocol \<Rightarrow> bool) \<Rightarrow> (bool \<Rightarrow> bool \<Rightarrow> bool) \<Rightarrow> srv_world \<Rightarrow> bool" where
  "about p g b Q w \<longleftrightarrow>
     (\<exists>x y. srv_at (g(p := x)) (b(p := y)) w \<and> Q x y \<and> (y \<longrightarrow> ports_for_protocol p \<noteq> []))"

lemma about_mono: "about p g b Q w \<Longrightarrow> (\<And>x y. Q x y \<Longrightarrow> Q' x y) \<Longrightarrow> about p g b Q' w"
  unfolding about_def by blast

lemma keeps_about: "(\<And>g b. keeps (srv_at g b) m) \<Longrightarrow> keeps (about p g b Q) m"
  unfolding keeps_def about_def by blast

lemma triple_about:
  assumes "\<And>x y. Q x y \<Longrightarrow> (y \<Longrightarrow> ports_for_protocol p \<noteq> []) \<Longrightarrow> triple (srv_at (g(p := x)) (b(p := y))) m Q' R'"
  shows "triple (about p g b Q) m Q' R'"
  using assms unfolding triple_def about_def by blast

lemma switch_at:
  assumes "ported b" "y \<longrightarrow> ports_for_protocol p \<noteq> []"
  shows "triple (srv_at g (b(p := y))) (firewall (set_rule_active env (proto_name p) (ports_for_protocol p) on))
    (\<lambda>_. srv_at g (b(p := on \<and> ports_for_protocol p \<noteq> []))) (\<lambda>_. srv_at g (b(p := y)))"
proof -
  have "\<not> (b(p := y)) q" if "ports_for_protocol q = []" for q using assms that by (auto simp: ported_def)
  note rule = switch_rule [where b = "b(p := y)" and p = p and on = on and env = env, OF this, unfolded fun_upd_upd]
  show ?thesis
    by (rule triple_conseq [OF triple_firewall [OF rule, of g]]) (auto simp: srv_on_def simp del: fun_upd_apply)
qed

lemma about_open:
  assumes "ported b"
  shows "triple (about p g b Q) (firewall (fw_open env p)) (\<lambda>_. about p g b (\<lambda>x y. \<exists>y'. Q x y')) (\<lambda>_. about p g b Q)"
  unfolding fw_open_def
proof (rule triple_about)
  fix x y
  assume "Q x y" "y \<Longrightarrow> ports_for_protocol p \<noteq> []"
  then show "triple (srv_at (g(p := x)) (b(p := y))) (firewall (set_rule_active env (proto_name p) (ports_for_protocol p) True))
      (\<lambda>_. about p g b (\<lambda>x y. \<exists>y'. Q x y')) (\<lambda>_. about p g b Q)"
    by (intro triple_conseq [OF switch_at [OF assms]]) (auto simp: about_def)
qed

lemma about_close:
  assumes "ported b"
  shows "triple (about p g b Q) (firewall (fw_close env p)) (\<lambda>_. about p g b (\<lambda>x y. \<not> y \<and> (\<exists>y'. Q x y'))) (\<lambda>_. about p g b Q)"
  unfolding fw_close_def
proof (rule triple_about)
  fix x y
  assume "Q x y" "y \<Longrightarrow> ports_for_protocol p \<noteq> []"
  then show "triple (srv_at (g(p := x)) (b(p := y))) (firewall (set_rule_active env (proto_name p) (ports_for_protocol p) False))
      (\<lambda>_. about p g b (\<lambda>x y. \<not> y \<and> (\<exists>y'. Q x y'))) (\<lambda>_. about p g b Q)"
    by (intro triple_conseq [OF switch_at [OF assms]]) (auto simp: about_def)
qed

lemma from_name_here: "from_name (proto_name p) = Some p" by simp

lemma pr_enable_switched:
  assumes "readable env" "from_name name = Some p"
  shows "triple (switched g) (pr_enable env name) (\<lambda>_. switched (g(p := True))) (\<lambda>_ w. \<exists>b. switched (g(p := b)) w)"
  unfolding pr_enable_def assms(2) option.case
proof (rule triple_bind_keeps)
  show "keeps (switched g) (if p = Smb then pr_ask (pe_dc env) else io_return False)"
    by (intro keeps_switched io_rules)
  show "triple (switched g) (if dc then io_fail DcHosted else enable_protocol env p)
      (\<lambda>_. switched (g(p := True))) (\<lambda>_ w. \<exists>b. switched (g(p := b)) w)" for dc
    by (intro triple_if triple_fail enable_switched assms) (metis fun_upd_triv)
qed (metis fun_upd_triv)

lemma aboutI:
  "switched (g(p := x)) (sw_proto w) \<Longrightarrow> lets_in (b(p := y)) (fw_config (sw_fw w)) \<Longrightarrow> Q x y \<Longrightarrow>
     (y \<Longrightarrow> ports_for_protocol p \<noteq> []) \<Longrightarrow> about p g b Q w"
  unfolding about_def srv_on_def by blast

lemma about_enable:
  assumes "readable (en_proto env)" "from_name name = Some p"
  shows "triple (about p g b Q) (protocols (pr_enable (en_proto env) name))
    (\<lambda>_. about p g b (\<lambda>x y. x \<and> (\<exists>x'. Q x' y))) (\<lambda>_. about p g b (\<lambda>x y. \<exists>x'. Q x' y))" (is "triple _ ?m ?Q ?R")
proof (rule triple_about)
  fix x y
  assume q: "Q x y" "y \<Longrightarrow> ports_for_protocol p \<noteq> []"
  from triple_protocols [OF pr_enable_switched [OF assms, of "g(p := x)"], of "lets_in (b(p := y))"]
  show "triple (srv_at (g(p := x)) (b(p := y))) ?m ?Q ?R"
    by (rule triple_conseq) (use q in \<open>auto intro: aboutI\<close>)
qed

lemma about_disable:
  assumes "readable (en_proto env)" "from_name name = Some p"
  shows "triple (about p g b Q) (protocols (pr_disable (en_proto env) name))
    (\<lambda>_. about p g b (\<lambda>x y. \<exists>x'. Q x' y)) (\<lambda>_. about p g b (\<lambda>x y. Q x y \<or> \<not> y \<and> (\<exists>x'. Q x' y)))"
    (is "triple _ ?m ?Q ?R")
proof (rule triple_about)
  fix x y
  assume q: "Q x y" "y \<Longrightarrow> ports_for_protocol p \<noteq> []"
  have "pr_disable (en_proto env) name = disable_protocol (en_proto env) p" by (simp add: pr_disable_def assms(2))
  with triple_protocols [OF disable_switched [OF assms(1), of "g(p := x)" p], of "lets_in (b(p := y))"]
  have "triple (srv_at (g(p := x)) (b(p := y))) ?m
      (\<lambda>_ w. switched (g(p := False)) (sw_proto w) \<and> lets_in (b(p := y)) (fw_config (sw_fw w)))
      (\<lambda>_ w. (switched (g(p := x)) (sw_proto w) \<or> p = Watchdog \<and> switched (g(p := False)) (sw_proto w)) \<and>
        lets_in (b(p := y)) (fw_config (sw_fw w)))" by simp
  then show "triple (srv_at (g(p := x)) (b(p := y))) ?m ?Q ?R"
    by (rule triple_conseq) (use q in \<open>auto intro: aboutI\<close>)
qed

lemma about_error_of:
  assumes "triple P m (\<lambda>_. Q) (\<lambda>_. R)"
  shows "triple P (error_of m) (\<lambda>es w. if es = [] then Q w else R w) R'"
  unfolding error_of_def by (rule triple_case [OF assms]) (auto intro: triple_return)

lemma error_of_any: "triple P m (\<lambda>_. Q) (\<lambda>_. Q) \<Longrightarrow> triple P (error_of m) (\<lambda>_. Q) R"
  unfolding error_of_def by (rule triple_case) (auto intro: triple_return)

lemma about_best_effort:
  assumes "triple P m (\<lambda>_. Q) (\<lambda>_. Q)"
  shows "triple P (best_effort m) (\<lambda>_. Q) R'"
  unfolding best_effort_def by (rule triple_case [OF assms]) (auto intro: triple_return)

section \<open>The invariant of the requests\<close>

text \<open>
  Outside the set of blamed protocols, a rule that lets a protocol in belongs to one that is on.
\<close>

definition srv_inv :: "Protocol set \<Rightarrow> srv_world \<Rightarrow> bool" where
  "srv_inv A w \<longleftrightarrow> (\<exists>g b. srv_at g b w \<and> ported b \<and> (\<forall>p. b p \<longrightarrow> g p \<or> p \<in> A))"

abbreviation covered :: "Protocol \<Rightarrow> (Protocol \<Rightarrow> bool) \<Rightarrow> (Protocol \<Rightarrow> bool) \<Rightarrow> bool \<Rightarrow> srv_world \<Rightarrow> bool" where
  "covered p g b L \<equiv> about p g b (\<lambda>x y. y \<longrightarrow> x \<or> L)"

lemma srv_inv_about:
  assumes "about p g b (\<lambda>x y. y \<longrightarrow> x \<or> p \<in> A \<or> L) w" "ported b" "\<And>p. b p \<Longrightarrow> g p \<or> p \<in> A"
  shows "srv_inv (if L then insert p A else A) w"
proof -
  obtain x y where "srv_at (g(p := x)) (b(p := y)) w" "y \<longrightarrow> x \<or> p \<in> A \<or> L" "y \<longrightarrow> ports_for_protocol p \<noteq> []"
    using assms(1) unfolding about_def by blast
  then show ?thesis
    using assms(2,3) unfolding srv_inv_def ported_def
    by (intro exI [of _ "g(p := x)"] exI [of _ "b(p := y)"]) auto
qed

lemma handle:
  assumes "\<And>g b. ported b \<Longrightarrow> triple (covered p g b (p \<in> A)) m
      (\<lambda>r. covered p g b (p \<in> A \<or> L r)) (\<lambda>e. covered p g b (p \<in> A \<or> L' e))"
  shows "triple (srv_inv A) m (\<lambda>r. srv_inv (if L r then insert p A else A)) (\<lambda>e. srv_inv (if L' e then insert p A else A))"
  unfolding triple_def
proof (intro allI impI)
  fix w
  assume "srv_inv A w"
  then obtain g b where w: "srv_at g b w" "ported b" "\<And>p. b p \<Longrightarrow> g p \<or> p \<in> A" unfolding srv_inv_def by blast
  then have a: "covered p g b (p \<in> A) w"
    by (intro aboutI [of g p "g p" w b "b p"]) (auto simp: srv_on_def ported_def)
  obtain r w' where m: "m w = (r, w')" by fastforce
  show "case fst (m w) of Inl e \<Rightarrow> srv_inv (if L' e then insert p A else A) (snd (m w))
      | Inr r \<Rightarrow> srv_inv (if L r then insert p A else A) (snd (m w))"
    using tripleD [OF assms [OF w(2)] a] m srv_inv_about [OF _ w(2,3)] by (cases r) simp_all
qed

lemma keeps_inv: "(\<And>g b. keeps (srv_at g b) m) \<Longrightarrow> keeps (srv_inv A) m"
  unfolding keeps_def srv_inv_def by blast

lemma after_enable_covered:
  assumes "readable (en_proto env)" "from_name name = Some p" "ported b"
  shows "triple (about p g b (\<lambda>x y. x)) (after_enable env p name v) (\<lambda>_. covered p g b K) (\<lambda>e. covered p g b (K \<or> left_open e))"
    (is "triple _ _ ?Q ?R")
proof (cases "p = Nvmeof")
  case False
  then show ?thesis by (auto simp: after_enable_def intro!: triple_return elim: about_mono)
next
  case True
  let ?any = "about p g b (\<lambda>_ _. True)"
  have close: "triple ?any (error_of (firewall (fw_close (en_fw env) p)))
      (\<lambda>es w. if es = [] then about p g b (\<lambda>x y. \<not> y) w else ?any w) ?R"
    by (rule about_error_of [OF triple_conseq [OF about_close [OF assms(3)]]]) (auto elim: about_mono)
  have disable: "triple ?any (error_of (protocols (pr_disable (en_proto env) name))) (\<lambda>_. ?any) ?R"
  proof (rule error_of_any)
    show "triple ?any (protocols (pr_disable (en_proto env) name)) (\<lambda>_. ?any) (\<lambda>_. ?any)"
      using about_disable [OF assms(1,2), of g b "\<lambda>_ _. True"] by simp
  qed
  have "triple ?any (io_bind (error_of (quiesce_share env Nvmeof)) (\<lambda>e1.
      io_bind (error_of (protocols (pr_disable (en_proto env) name))) (\<lambda>e2.
      io_bind (error_of (firewall (fw_close (en_fw env) p))) (\<lambda>e3. io_fail (NotRestored e (e1 @ e2 @ e3)))))) ?Q ?R" for e
    by (rule triple_bind [OF triple_total [OF infallible_error_of keeps_about]], intro io_rules,
        rule triple_bind [OF disable], rule triple_bind [OF close]) (auto intro!: triple_fail intro: about_mono split: if_splits)
  then have "triple (about p g b (\<lambda>x y. x)) (io_bind (error_of (quiesce_share env Nvmeof)) (\<lambda>e1.
      io_bind (error_of (protocols (pr_disable (en_proto env) name))) (\<lambda>e2.
      io_bind (error_of (firewall (fw_close (en_fw env) p))) (\<lambda>e3. io_fail (NotRestored e (e1 @ e2 @ e3)))))) ?Q ?R" for e
    by (rule triple_conseq) (auto elim: about_mono)
  moreover have "keeps (about p g b (\<lambda>x y. x)) (restore_nvmeof env)" by (intro keeps_about io_rules)
  ultimately show ?thesis
    using True by (auto simp: after_enable_def intro!: triple_case [OF triple_keeps] triple_return elim: about_mono)
qed

lemma close_after_failure:
  assumes "ported b"
  shows "triple (about p g b Q) (error_of (firewall (fw_close env p)))
    (\<lambda>es. covered p g b (es \<noteq> [])) R"
  by (rule triple_conseq [OF about_error_of [OF about_close [OF assms]]]) (auto intro: about_mono split: if_splits)

lemma open_and_enable_covered:
  assumes "readable (en_proto env)" "from_name name = Some p" "ported b"
  shows "triple (covered p g b K) (open_and_enable env p name) (\<lambda>_. covered p g b K) (\<lambda>e. covered p g b (K \<or> left_open e))"
    (is "triple _ _ ?Q ?R")
  unfolding open_and_enable_def
proof (rule triple_bind)
  show "triple (covered p g b K) (firewall (fw_open (en_fw env) p)) (\<lambda>_. about p g b (\<lambda>_ _. True)) ?R"
    by (rule triple_conseq [OF about_open [OF assms(3)]]) (auto intro: about_mono)
  show "triple (about p g b (\<lambda>_ _. True)) (io_case (protocols (pr_enable (en_proto env) name))
      (\<lambda>e. io_bind (error_of (firewall (fw_close (en_fw env) p))) (\<lambda>es. io_fail (NotEnabled e es)))
      (after_enable env p name)) ?Q ?R"
  proof (rule triple_case [OF about_enable [OF assms(1,2)]])
    show "triple (about p g b (\<lambda>x y. \<exists>x'. True)) (io_bind (error_of (firewall (fw_close (en_fw env) p)))
        (\<lambda>es. io_fail (NotEnabled e es))) ?Q ?R" for e
      by (rule triple_bind [OF close_after_failure [OF assms(3)]]) (auto intro!: triple_fail intro: about_mono)
    show "triple (about p g b (\<lambda>x y. x \<and> (\<exists>x'. True))) (after_enable env p name v) ?Q ?R" for v
      using after_enable_covered [OF assms] by simp
  qed
qed

lemma prepare_block_covered:
  assumes "ported b"
  shows "triple (covered p g b K) (prepare_block env s p) (\<lambda>_. covered p g b K) (\<lambda>e. covered p g b (K \<or> left_open e))"
proof -
  let ?C = "covered p g b K"
  have keep: "triple ?C m (\<lambda>_. ?C) (\<lambda>e. covered p g b (K \<or> left_open e))" if "\<And>g b. keeps (srv_at g b) m" for m :: "'z srv_io"
    by (rule triple_err [OF triple_keeps [OF keeps_about [OF that]]]) (auto intro: about_mono)
  have close: "triple ?C (best_effort (firewall (fw_close (en_fw env) p))) (\<lambda>_. ?C) (\<lambda>e. covered p g b (K \<or> left_open e))"
    by (rule about_best_effort [OF triple_conseq [OF about_close [OF assms]]]) (auto intro: about_mono)
  show ?thesis
    unfolding prepare_block_def
    by (rule triple_bind [OF keep], intro io_rules, rule triple_bind [OF keep], intro io_rules,
        rule triple_bind [OF keep], intro io_rules, intro triple_if)
      (rule triple_bind [OF keep], intro io_rules, rule triple_bind [OF close], rule triple_fail, erule about_mono, blast,
       rule keep, intro io_rules keeps_protocols, rule keep, intro io_rules)
qed

lemma enable_covered:
  assumes "readable (en_proto env)" "from_name name = Some p" "ported b"
  shows "triple (covered p g b K) (service_enable env s name) (\<lambda>_. covered p g b K) (\<lambda>e. covered p g b (K \<or> left_open e))"
    (is "triple ?C _ _ ?R")
proof -
  have "triple ?C (require_access s a) (\<lambda>_. ?C) ?R" for a
    by (rule triple_err [OF triple_keeps [OF keeps_about]], intro io_rules) (auto intro: about_mono)
  moreover have "triple ?C (if p \<in> {Iscsi, Nvmeof} then prepare_block env s p else io_return ()) (\<lambda>_. ?C) ?R"
    by (intro triple_if prepare_block_covered assms triple_return) auto
  ultimately show ?thesis
    unfolding service_enable_def assms(2) option.case
    by (rule triple_bind [OF _ triple_bind [OF _ open_and_enable_covered [OF assms]]])
qed

lemma disable_covered:
  assumes "readable (en_proto env)" "from_name name = Some p" "ported b"
  shows "triple (covered p g b K) (service_disable env s name) (\<lambda>_. covered p g b K) (\<lambda>e. covered p g b (K \<or> left_open e))"
    (is "triple ?C _ ?Q ?R")
proof -
  have a: "triple ?C (require_access s a) (\<lambda>_. ?C) ?R" for a
    by (rule triple_err [OF triple_keeps [OF keeps_about]], intro io_rules) (auto intro: about_mono)
  have d: "triple ?C (protocols (pr_disable (en_proto env) name)) (\<lambda>_. about p g b (\<lambda>_ _. True)) ?R"
    by (rule triple_conseq [OF about_disable [OF assms(1,2)]]) (auto intro: about_mono)
  have "triple (about p g b (\<lambda>_ _. True)) (io_case (firewall (fw_close (en_fw env) p)) (\<lambda>e. io_fail (NotClosed e)) (\<lambda>_. io_return v)) ?Q ?R" for v
    by (rule triple_case [OF about_close [OF assms(3)]]) (auto intro!: triple_fail triple_return intro: about_mono)
  then show ?thesis
    unfolding service_disable_def assms(2) option.case by (rule triple_bind [OF a triple_bind [OF d]])
qed

text \<open>Reading the preferences keeps them, when the file is readable.\<close>

lemma keeps_of_triple: "triple P m (\<lambda>_. P) (\<lambda>_. P) \<Longrightarrow> keeps P m"
  by (auto simp: triple_def keeps_def split: sum.splits)

lemma keeps_reading:
  assumes "readable (en_proto env)"
  shows "keeps (srv_on g F) (enabled env p)" "keeps (srv_on g F) (protocols (pr_list (en_proto env)))"
proof -
  have at: "keeps (srv_on g F) (protocols m)" if "triple (switched g) m (\<lambda>_. switched g) (\<lambda>_. switched g)" for m :: "'z pr_io"
    by (rule keeps_of_triple, rule triple_conseq [OF triple_protocols [OF that]]) (auto simp: srv_on_def)
  show "keeps (srv_on g F) (enabled env p)"
    unfolding enabled_def is_enabled_def
    by (rule at, rule after_load [OF assms]) (auto intro: triple_return)
  show "keeps (srv_on g F) (protocols (pr_list (en_proto env)))"
    unfolding pr_list_def
    by (rule at, rule after_load [OF assms], intro triple_keeps keeps_switched keeps_fold io_rules)
qed

lemma keeps_and: "keeps P a \<Longrightarrow> keeps P c \<Longrightarrow> keeps P (io_and a c)"
  unfolding io_and_def by (intro io_rules)

lemma quiesce_unsafe_covered:
  assumes "ported b"
  shows "triple (covered p g b K) (quiesce_unsafe env p) (\<lambda>_. covered p g b K) R"
  unfolding quiesce_unsafe_def
proof (rule triple_bind [OF triple_total [OF infallible_error_of keeps_about]])
  have "triple (covered p g b K) (best_effort (firewall (fw_close (en_fw env) p))) (\<lambda>_. covered p g b K) R"
    by (rule about_best_effort [OF triple_conseq [OF about_close [OF assms]]]) (auto intro: about_mono)
  then show "triple (covered p g b K) (io_bind (best_effort (firewall (fw_close (en_fw env) p))) (\<lambda>_. io_return es))
      (\<lambda>_. covered p g b K) R" for es
    by (rule triple_bind) (auto intro: triple_return)
qed (intro io_rules)

lemma close_best_effort:
  assumes "ported b"
  shows "triple (about p g b Q) (best_effort (firewall (fw_close env p))) (\<lambda>_. about p g b (\<lambda>_ _. True)) R"
  by (rule about_best_effort [OF triple_conseq [OF about_close [OF assms]]]) (auto intro: about_mono)

lemma reactivate_iscsi_covered:
  assumes "readable (en_proto env)" "ported b"
  shows "triple (covered Iscsi g b K) (reactivate_iscsi env) (\<lambda>es. covered Iscsi g b (K \<or> es \<noteq> [])) R"
    (is "triple ?C _ ?Q R")
proof -
  let ?any = "about Iscsi g b (\<lambda>_ _. True)"
  have "triple ?C (io_bind (protocols (quiesce (en_proto env) Iscsi)) (\<lambda>_.
        io_bind (firewall (fw_open (en_fw env) Iscsi)) (\<lambda>_.
        protocols (pr_enable (en_proto env) ''iscsi'')))) (\<lambda>_. about Iscsi g b (\<lambda>x y. x)) (\<lambda>_. ?any)"
  proof (rule triple_bind)
    show "triple ?C (protocols (quiesce (en_proto env) Iscsi)) (\<lambda>_. ?any) (\<lambda>_. ?any)"
      by (rule triple_conseq [OF triple_keeps [OF keeps_about [OF keeps_protocols [OF keeps_quiesce]]]]) (auto intro: about_mono)
    show "triple ?any (io_bind (firewall (fw_open (en_fw env) Iscsi)) (\<lambda>_. protocols (pr_enable (en_proto env) ''iscsi'')))
        (\<lambda>_. about Iscsi g b (\<lambda>x y. x)) (\<lambda>_. ?any)"
      using about_open [OF assms(2), of Iscsi g "\<lambda>_ _. True" "en_fw env"]
        about_enable [OF assms(1), of "''iscsi''" Iscsi g b "\<lambda>_ _. True"] from_name_here [of Iscsi]
      by (auto intro: triple_bind)
  qed
  moreover have "triple ?any (io_bind (best_effort (firewall (fw_close (en_fw env) Iscsi))) (\<lambda>_. io_return [e])) ?Q R" for e
    by (rule triple_bind [OF close_best_effort [OF assms(2)]]) (auto intro!: triple_return intro: about_mono)
  ultimately show ?thesis
    unfolding reactivate_iscsi_def by (rule triple_case) (auto intro!: triple_return intro: about_mono)
qed

lemma reactivate_nvmeof_covered:
  assumes "readable (en_proto env)" "ported b"
  shows "triple (covered Nvmeof g b K) (reactivate_nvmeof env) (\<lambda>es. covered Nvmeof g b (K \<or> es \<noteq> [])) R"
    (is "triple ?C _ ?Q R")
proof -
  let ?any = "about Nvmeof g b (\<lambda>_ _. True)"
  let ?on = "about Nvmeof g b (\<lambda>x y. x)"
  have nv: "from_name ''nvmeof'' = Some Nvmeof" using from_name_here [of Nvmeof] by simp
  have failed: "triple ?any (io_return [e]) ?Q R" for e by (auto intro!: triple_return intro: about_mono)
  have undo: "triple ?on (io_bind (best_effort (quiesce_share env Nvmeof)) (\<lambda>_.
      io_bind (best_effort (firewall (fw_close (en_fw env) Nvmeof))) (\<lambda>_. io_return [e]))) ?Q R" for e
    by (rule triple_bind [OF triple_total [OF infallible_basic(4) keeps_about]], intro io_rules,
        rule triple_bind [OF close_best_effort [OF assms(2)]])
      (auto intro!: triple_return intro: about_mono)
  have "triple ?on (io_case (restore_nvmeof env) (\<lambda>e. io_bind (best_effort (quiesce_share env Nvmeof)) (\<lambda>_.
      io_bind (best_effort (firewall (fw_close (en_fw env) Nvmeof))) (\<lambda>_. io_return [e]))) (\<lambda>_. io_return [])) ?Q R"
    by (rule triple_case [OF triple_keeps [OF keeps_about] undo], intro io_rules) (auto intro!: triple_return intro: about_mono)
  moreover have "triple ?any (protocols (pr_enable (en_proto env) ''nvmeof'')) (\<lambda>_. ?on) (\<lambda>_. ?any)"
    using about_enable [OF assms(1) nv, of g b "\<lambda>_ _. True"] by simp
  ultimately have "triple ?any (io_case (protocols (pr_enable (en_proto env) ''nvmeof'')) (\<lambda>e. io_return [e]) (\<lambda>_.
      io_case (restore_nvmeof env) (\<lambda>e. io_bind (best_effort (quiesce_share env Nvmeof)) (\<lambda>_.
      io_bind (best_effort (firewall (fw_close (en_fw env) Nvmeof))) (\<lambda>_. io_return [e]))) (\<lambda>_. io_return []))) ?Q R"
    using failed by (blast intro: triple_case)
  moreover have "triple ?C (firewall (fw_open (en_fw env) Nvmeof)) (\<lambda>_. ?any) (\<lambda>_. ?any)"
    by (rule triple_conseq [OF about_open [OF assms(2)]]) (auto intro: about_mono)
  ultimately show ?thesis
    unfolding reactivate_nvmeof_def using failed by (blast intro: triple_case)
qed

lemma reconcile_covered:
  assumes "readable (en_proto env)" "ported b"
  shows "triple (covered Iscsi g b K) (reconcile_iscsi env m) (\<lambda>es. covered Iscsi g b (K \<or> es \<noteq> [])) (\<lambda>_. covered Iscsi g b (K \<or> True))"
    and "triple (covered Nvmeof g b K) (reconcile_nvmeof env m) (\<lambda>es. covered Nvmeof g b (K \<or> es \<noteq> [])) (\<lambda>_. covered Nvmeof g b (K \<or> True))"
proof -
  have unsafe: "triple (covered p g b K) (quiesce_unsafe env p) (\<lambda>es. covered p g b (K \<or> es \<noteq> [])) R" for p R
    by (rule triple_conseq [OF quiesce_unsafe_covered [OF assms(2)]]) (auto intro: about_mono)
  have ask: "triple (covered p g b K) m (\<lambda>_. covered p g b K) (\<lambda>_. covered p g b (K \<or> True))"
    if "\<And>g b. keeps (srv_at g b) m" for p and m :: "bool srv_io"
    by (rule triple_err [OF triple_keeps [OF keeps_about [OF that]]]) (auto intro: about_mono)
  show "triple (covered Iscsi g b K) (reconcile_iscsi env m) (\<lambda>es. covered Iscsi g b (K \<or> es \<noteq> [])) (\<lambda>_. covered Iscsi g b (K \<or> True))"
    unfolding reconcile_iscsi_def
    by (intro triple_if unsafe triple_bind [OF ask] keeps_and keeps_reading assms reactivate_iscsi_covered io_rules)
      (auto intro!: triple_return)
  show "triple (covered Nvmeof g b K) (reconcile_nvmeof env m) (\<lambda>es. covered Nvmeof g b (K \<or> es \<noteq> [])) (\<lambda>_. covered Nvmeof g b (K \<or> True))"
    unfolding reconcile_nvmeof_def
    by (intro triple_if unsafe triple_bind [OF ask] keeps_and keeps_reading assms reactivate_nvmeof_covered io_rules)
      (auto intro!: triple_return)
qed

lemma srv_inv_mono: "srv_inv A w \<Longrightarrow> A \<subseteq> B \<Longrightarrow> srv_inv B w"
  unfolding srv_inv_def by blast

lemma reconcile_inv:
  assumes "readable (en_proto env)"
  shows "triple (srv_inv A) (reconcile_block_shares env) (\<lambda>_. srv_inv A) (\<lambda>_. srv_inv (A \<union> {Iscsi, Nvmeof}))"
proof -
  let ?R = "\<lambda>_. srv_inv (A \<union> {Iscsi, Nvmeof})"
  have i: "triple (srv_inv A) (reconcile_iscsi env iscsi) (\<lambda>es. srv_inv (if es \<noteq> [] then insert Iscsi A else A)) ?R" for iscsi
    by (rule triple_err [OF handle [OF reconcile_covered(1) [OF assms]]]) (auto elim: srv_inv_mono)
  have n: "triple (srv_inv (if es \<noteq> [] then insert Iscsi A else A)) (reconcile_nvmeof env nvmeof)
      (\<lambda>es'. srv_inv (if es @ es' \<noteq> [] then A \<union> {Iscsi, Nvmeof} else A)) ?R" for nvmeof and es :: "SrvError list"
    by (rule triple_conseq [OF handle [OF reconcile_covered(2) [OF assms]]]) (auto elim: srv_inv_mono split: if_splits)
  have main: "triple (srv_inv A) (io_bind (reconcile_iscsi env iscsi) (\<lambda>es. io_bind (reconcile_nvmeof env nvmeof) (\<lambda>es'.
      if es @ es' = [] then io_return () else io_fail (NotReconciled (es @ es'))))) (\<lambda>_. srv_inv A) ?R" for iscsi nvmeof
    by (rule triple_bind [OF i], rule triple_bind [OF n]) (auto intro: triple_return triple_fail)
  show ?thesis
    unfolding reconcile_block_shares_def
    by (rule triple_bind_keeps [OF _ _ triple_bind_keeps [OF _ _ main]]) (auto intro: keeps_inv io_rules elim: srv_inv_mono)
qed

lemma cleanup_inv: "triple (srv_inv A) (quiesce_after_failed_repair env p) (\<lambda>_. srv_inv A) R"
proof -
  have "triple (covered p g b (p \<in> A)) (quiesce_after_failed_repair env p)
      (\<lambda>_. covered p g b (p \<in> A \<or> False)) (\<lambda>_. covered p g b (p \<in> A \<or> False))" if "ported b" for g b
    unfolding quiesce_after_failed_repair_def
  proof (rule triple_bind [OF triple_total [OF infallible_error_of keeps_about]])
    have "triple (covered p g b (p \<in> A)) (error_of (firewall (fw_close (en_fw env) p))) (\<lambda>_. covered p g b (p \<in> A)) R" for R
      by (rule error_of_any, rule triple_conseq [OF about_close [OF that]]) (auto intro: about_mono)
    then show "triple (covered p g b (p \<in> A)) (io_bind (error_of (firewall (fw_close (en_fw env) p))) (\<lambda>es'. io_return (es @ es')))
        (\<lambda>_. covered p g b (p \<in> A \<or> False)) (\<lambda>_. covered p g b (p \<in> A \<or> False))" for es
      by (rule triple_bind) (auto intro: triple_return)
  qed (intro io_rules)
  from handle [OF this] have "triple (srv_inv A) (quiesce_after_failed_repair env p) (\<lambda>_. srv_inv A) (\<lambda>_. srv_inv A)" by simp
  moreover have "infallible (quiesce_after_failed_repair env p)"
    unfolding quiesce_after_failed_repair_def by (intro total_rules)
  ultimately show ?thesis by (blast intro: triple_total keeps_of_triple)
qed

lemma demote_inv:
  assumes "readable (en_proto env)"
  shows "triple (srv_inv A) (dc_demote env) (\<lambda>es. srv_inv (if es = [] then A else insert Smb A)) (\<lambda>_. srv_inv A)"
proof -
  have smb: "from_name ''smb'' = Some Smb" using from_name_here [of Smb] by simp
  have e: "triple (srv_inv A) (error_of (protocols (pr_enable (en_proto env) ''smb'')))
      (\<lambda>es. srv_inv (if es = [] then A else insert Smb A)) (\<lambda>_. srv_inv A)"
  proof -
    have "triple (covered Smb g b (Smb \<in> A)) (protocols (pr_enable (en_proto env) ''smb''))
        (\<lambda>_. covered Smb g b (Smb \<in> A \<or> False)) (\<lambda>_. covered Smb g b (Smb \<in> A \<or> True))" for g b
      by (rule triple_conseq [OF about_enable [OF assms smb]]) (auto intro: about_mono)
    from handle [OF this] show ?thesis by (auto intro: triple_conseq [OF about_error_of] split: if_splits)
  qed
  have dc: "keeps (srv_inv A) (error_of (firewall (close_dc (en_fw env))))"
    using keeps_lets_in [of "FwDc False"] by (intro keeps_inv io_rules keeps_firewall) simp
  have main: "triple (srv_inv A) (io_bind (if on then error_of (protocols (pr_enable (en_proto env) ''smb'')) else io_return [])
        (\<lambda>logged. io_return (closed @ logged))) (\<lambda>es. srv_inv (if es = [] then A else insert Smb A)) (\<lambda>_. srv_inv A)"
    for on and closed :: "SrvError list"
  proof (rule triple_bind)
    show "triple (srv_inv A) (if on then error_of (protocols (pr_enable (en_proto env) ''smb'')) else io_return [])
        (\<lambda>es. srv_inv (if es = [] then A else insert Smb A)) (\<lambda>_. srv_inv A)"
      by (intro triple_if e triple_return) simp
  qed (auto intro!: triple_return elim: srv_inv_mono split: if_splits)
  show ?thesis
    unfolding dc_demote_def
    by (intro triple_bind_keeps [OF _ _ triple_bind_keeps [OF _ _ triple_bind_keeps [OF _ _ main]]])
      (auto intro: keeps_inv io_rules keeps_reading assms dc)
qed

lemma keeps_wd_writes [io_rules]: "keeps (pr_at f) (save_config wd c)" "keeps (pr_at f) (load_config_strict wd)"
  by (simp_all add: keeps_def save_config_def load_config_strict_def wd_write_def pr_at_def next_call_def io_defs
      split: option.split json_file.split)

lemma keeps_watchdog_update: "keeps (pr_at f) (update_config wd u)"
  unfolding update_config_def update_from_def install_config_def persist_config_or_restore_def restart_or_restore_def
  by (intro io_rules)

lemma error_of_errors: "triple P m (\<lambda>_. T []) (\<lambda>e. T [e]) \<Longrightarrow> triple P (error_of m) T R"
  unfolding error_of_def by (rule triple_case) (auto intro: triple_return)

lemma switch_inv:
  assumes "\<And>p g b. from_name name = Some p \<Longrightarrow> ported b \<Longrightarrow>
      triple (covered p g b (p \<in> A)) m (\<lambda>_. covered p g b (p \<in> A)) (\<lambda>e. covered p g b (p \<in> A \<or> left_open e))"
    and "from_name name = None \<Longrightarrow> keeps (srv_inv A) m"
  shows "triple (srv_inv A) (error_of m)
    (\<lambda>es. srv_inv (A \<union> (if list_ex left_open es then set_option (from_name name) else {}))) R"
proof (rule error_of_errors, cases "from_name name")
  case None
  then show "triple (srv_inv A) m (\<lambda>_. srv_inv (A \<union> (if list_ex left_open [] then set_option (from_name name) else {})))
      (\<lambda>e. srv_inv (A \<union> (if list_ex left_open [e] then set_option (from_name name) else {})))"
    using triple_keeps [OF assms(2) [OF None]] by (simp add: None cong: if_cong)
next
  case (Some p)
  have "triple (srv_inv A) m (\<lambda>r. srv_inv (if False then insert p A else A)) (\<lambda>e. srv_inv (if left_open e then insert p A else A))"
    by (rule handle) (use assms(1) [OF Some] in simp)
  then show "triple (srv_inv A) m (\<lambda>_. srv_inv (A \<union> (if list_ex left_open [] then set_option (from_name name) else {})))
      (\<lambda>e. srv_inv (A \<union> (if list_ex left_open [e] then set_option (from_name name) else {})))"
    by (rule triple_conseq) (auto simp: Some elim: srv_inv_mono split: if_splits)
qed

lemma request_inv:
  assumes r: "readable (en_proto env)"
  shows "triple (srv_inv A) (srv_do env req) (\<lambda>es. srv_inv (A \<union> blamed req es)) (\<lambda>e. srv_inv (A \<union> blamed req [e]))"
proof (cases req)
  case (ReqEnable s name)
  have "triple (srv_inv A) (error_of (service_enable env s name)) (\<lambda>es. srv_inv (A \<union> blamed req es)) R" for R
    unfolding ReqEnable blamed.simps
  proof (rule switch_inv)
    show "keeps (srv_inv A) (service_enable env s name)" if "from_name name = None"
      using that by (simp add: service_enable_def pr_enable_def) (intro keeps_inv keeps_protocols io_rules)
  qed (rule enable_covered [OF r])
  then show ?thesis using ReqEnable by simp
next
  case (ReqDisable s name)
  have "triple (srv_inv A) (error_of (service_disable env s name)) (\<lambda>es. srv_inv (A \<union> blamed req es)) R" for R
    unfolding ReqDisable blamed.simps
  proof (rule switch_inv)
    show "keeps (srv_inv A) (service_disable env s name)" if "from_name name = None"
      using that by (simp add: service_disable_def pr_disable_def) (intro keeps_inv keeps_protocols io_rules)
  qed (rule disable_covered [OF r])
  then show ?thesis using ReqDisable by simp
next
  case ReqList
  then show ?thesis by (simp add: error_of_any triple_keeps keeps_inv keeps_reading [OF r])
next
  case (ReqWatchdog u)
  then show ?thesis
    using keeps_watchdog_update by (simp add: error_of_any triple_keeps keeps_inv keeps_protocols keeps_wrap)
next
  case (ReqFirewall op)
  then show ?thesis
    by (auto intro!: error_of_any triple_keeps keeps_inv keeps_error_of keeps_firewall keeps_lets_in triple_return)
next
  case ReqReconcile
  have "triple (srv_inv A) (error_of (reconcile_block_shares env)) (\<lambda>es. srv_inv (A \<union> blamed ReqReconcile es)) R" for R
    by (rule error_of_errors) (use reconcile_inv [OF r, of A] in simp)
  then show ?thesis using ReqReconcile by simp
next
  case (ReqCleanup p)
  then show ?thesis using cleanup_inv by simp
next
  case ReqDemote
  then show ?thesis
    using demote_inv [OF r, of A]
    by (auto intro!: triple_case [of "srv_inv A" "dc_demote env"] triple_return elim: srv_inv_mono split: if_splits)
qed

interpretation srv: machine "srv_step env" "\<lambda>s. readable (en_proto env) \<and> srv_inv (snd s) (fst s)" for env
proof
  fix s req
  assume s: "readable (en_proto env) \<and> srv_inv (snd s) (fst s)"
  obtain r w where "srv_do env req (fst s) = (r, w)" by fastforce
  then show "readable (en_proto env) \<and> srv_inv (snd (srv_step env s req)) (fst (srv_step env s req))"
    using s tripleD [OF request_inv, of env "snd s" "fst s" req] by (cases r) (simp_all add: srv_step_def)
qed

end
