(* ===== verification/Boot.thy ===== *)
theory Boot
  imports Services
begin

text \<open>
  The steps of the engine's start that touch protocols and firewall
  (\<open>engine/nasty-engine/src/main.rs\<close>), and what holds from then on. The phases are taken to end
  within their time limits.
\<close>

section \<open>The start of the engine\<close>

definition boot_firewall_protocol_enabled :: "Protocol \<Rightarrow> bool \<Rightarrow> bool" where
  "boot_firewall_protocol_enabled p desired \<longleftrightarrow> desired \<and> p \<noteq> Nfs"

definition protocol_restore_exclusions :: "bool \<Rightarrow> bool \<Rightarrow> bool \<Rightarrow> Protocol list" where
  "protocol_restore_exclusions nfs iscsi nvmeof =
     (if nfs then [] else [Nfs]) @ (if iscsi then [] else [Iscsi]) @ (if nvmeof then [] else [Nvmeof])"

definition boot_states :: "srv_env \<Rightarrow> (Protocol \<times> bool) list srv_io" where
  "boot_states env =
     io_fold (\<lambda>p acc. io_bind (enabled env p) (\<lambda>on. io_return (acc @ [(p, boot_firewall_protocol_enabled p on)])))
       all_protocols []"

definition boot_firewall :: "srv_env \<Rightarrow> unit srv_io" where
  "boot_firewall env =
     io_bind (boot_states env) (\<lambda>states.
     io_bind (srv_ask (en_dc env)) (\<lambda>dc.
     io_bind (srv_asked (en_portals env)) (\<lambda>(iscsi, nvmeof).
     io_bind (srv_asked (en_published env)) (\<lambda>published.
     io_bind (srv_ask (en_listeners env)) (\<lambda>listeners.
     firewall (init (en_fw env) listeners states False dc (portal_specs 3260 iscsi) (portal_specs 4420 nvmeof) published))))))"

record BootReport =
  br_nfs_quiesced :: bool
  br_mount_failures :: "string list"
  br_excluded :: "Protocol list"
  br_restored :: "Protocol list"

text \<open>Storage and block devices: which protocols may come back.\<close>

definition boot_storage :: "srv_env \<Rightarrow> (bool \<times> string list \<times> Protocol list \<times> bool) srv_io" where
  "boot_storage env =
     io_bind (error_of (protocols (quiesce (en_proto env) Nfs))) (\<lambda>es.
     io_bind (srv_ask (en_mounts env)) (\<lambda>failures.
     io_bind (remap env Nvmeof) (\<lambda>nvmeof.
     io_bind (remap env Iscsi) (\<lambda>iscsi.
     io_bind (if \<not> safe_to_restore iscsi then io_return True else enabled env Iscsi) (\<lambda>reload.
     io_bind (if reload then protocols (quiesce (en_proto env) Iscsi) else io_return ()) (\<lambda>_.
     io_bind (if \<not> safe_to_restore nvmeof then quiesce_share env Nvmeof else io_return ()) (\<lambda>_.
     io_return (es = [], failures,
       protocol_restore_exclusions (es = [] \<and> failures = []) (safe_to_restore iscsi) (safe_to_restore nvmeof),
       safe_to_restore nvmeof))))))))"

definition actual_states :: "Protocol list \<Rightarrow> Protocol list \<Rightarrow> Protocol \<Rightarrow> bool" where
  "actual_states excluded restored p \<longleftrightarrow> p \<notin> set excluded \<and> p \<in> set restored"

definition boot_rdma :: "srv_env \<Rightarrow> bool \<Rightarrow> Protocol list \<Rightarrow> unit srv_io" where
  "boot_rdma env nfs_safe restored =
     io_bind (enabled env Nfs) (\<lambda>desired.
     io_bind (srv_ask (en_rdma env)) (\<lambda>rdma.
     firewall (if rdma \<and> nfs_safe \<and> (\<not> desired \<or> Nfs \<in> set restored) then open_rdma (en_fw env) else close_rdma (en_fw env))))"

definition boot_nvmeof :: "srv_env \<Rightarrow> bool \<Rightarrow> unit srv_io" where
  "boot_nvmeof env safe =
     (if safe then
        io_case (restore_nvmeof env)
          (\<lambda>_. io_bind (best_effort (quiesce_share env Nvmeof)) (\<lambda>_.
               best_effort (firewall (fw_close (en_fw env) Nvmeof))))
          io_return
      else io_return ())"

definition boot :: "srv_env \<Rightarrow> BootReport srv_io" where
  "boot env =
     io_bind (boot_firewall env) (\<lambda>_.
     io_bind (boot_storage env) (\<lambda>(quiesced, failures, excluded, nvmeof_safe).
     io_bind (protocols (restore_excluding (en_proto env) excluded)) (\<lambda>restored.
     io_bind (firewall (set_protocol_states (en_fw env) (all_states (actual_states excluded restored)))) (\<lambda>_.
     io_bind (boot_rdma env (quiesced \<and> failures = []) restored) (\<lambda>_.
     io_bind (boot_nvmeof env nvmeof_safe) (\<lambda>_.
     io_return \<lparr>br_nfs_quiesced = quiesced, br_mount_failures = failures, br_excluded = excluded, br_restored = restored\<rparr>))))))"

section \<open>What the steps do\<close>

text \<open>Every protocol with ports has a rule, and no other.\<close>

definition ruled :: "FirewallConfig \<Rightarrow> bool" where
  "ruled c \<longleftrightarrow> named c \<and> (\<forall>p. proto_name p \<in> set (map fr_service (fc_state c)) \<longleftrightarrow> ports_for_protocol p \<noteq> [])"

lemma boot_states_triple:
  assumes "readable (en_proto env)"
  shows "triple (srv_on g F) (boot_states env) (\<lambda>l w. srv_on g F w \<and> (\<exists>on. l = all_states on \<and> \<not> on Nfs)) (\<lambda>_. srv_on g F)"
proof -
  let ?step = "\<lambda>p acc. io_bind (enabled env p) (\<lambda>on. io_return (acc @ [(p, boot_firewall_protocol_enabled p on)]))"
  have "triple (srv_on g F) (io_fold ?step ps acc)
      (\<lambda>l w. srv_on g F w \<and> (\<exists>on. l = acc @ map (\<lambda>p. (p, on p)) ps \<and> \<not> on Nfs)) (\<lambda>_. srv_on g F)" if "distinct ps" for ps acc
    using that
  proof (induction ps arbitrary: acc)
    case Nil
    then show ?case by (auto intro!: triple_return exI [of _ "\<lambda>_. False"])
  next
    case (Cons p ps)
    have step: "triple (srv_on g F) (?step p acc)
        (\<lambda>l w. srv_on g F w \<and> (\<exists>x. l = acc @ [(p, x)] \<and> (p = Nfs \<longrightarrow> \<not> x))) (\<lambda>_. srv_on g F)"
      by (rule triple_bind_keeps [OF keeps_reading(1) [OF assms]])
        (auto intro!: triple_return simp: boot_firewall_protocol_enabled_def)
    have "triple (\<lambda>w. srv_on g F w \<and> (\<exists>x. acc' = acc @ [(p, x)] \<and> (p = Nfs \<longrightarrow> \<not> x))) (io_fold ?step ps acc')
        (\<lambda>l w. srv_on g F w \<and> (\<exists>on. l = acc @ map (\<lambda>p. (p, on p)) (p # ps) \<and> \<not> on Nfs)) (\<lambda>_. srv_on g F)" for acc'
    proof (rule triple_assume)
      assume "\<exists>x. acc' = acc @ [(p, x)] \<and> (p = Nfs \<longrightarrow> \<not> x)"
      then obtain x where x: "acc' = acc @ [(p, x)]" "p = Nfs \<longrightarrow> \<not> x" by blast
      have "\<exists>on. l = acc @ map (\<lambda>p. (p, on p)) (p # ps) \<and> \<not> on Nfs" if "l = acc' @ map (\<lambda>p. (p, on p)) ps" "\<not> on Nfs" for l on
        using that x Cons.prems by (intro exI [of _ "on(p := x)"]) auto
      then show "triple (srv_on g F) (io_fold ?step ps acc')
          (\<lambda>l w. srv_on g F w \<and> (\<exists>on. l = acc @ map (\<lambda>p. (p, on p)) (p # ps) \<and> \<not> on Nfs)) (\<lambda>_. srv_on g F)"
        by (intro triple_conseq [OF Cons.IH]) (use Cons.prems in auto)
    qed
    with step show ?case by (auto intro: triple_bind)
  qed
  from this [OF distinct_all_protocols, of "[]"] show ?thesis by (simp add: boot_states_def all_states_def)
qed

lemma boot_firewall_triple:
  assumes "readable (en_proto env)"
  shows "triple (srv_on g (\<lambda>_. True)) (boot_firewall env)
    (\<lambda>_. srv_on g (\<lambda>c. ruled c \<and> \<not> admits c (proto_name Nfs))) (\<lambda>_ _. True)"
proof -
  let ?T = "srv_on g (\<lambda>_. True)"
  have init: "triple ?T (firewall (init fw listeners states False dc (portal_specs 3260 iscsi) (portal_specs 4420 nvmeof) published))
      (\<lambda>_. srv_on g (\<lambda>c. ruled c \<and> \<not> admits c (proto_name Nfs))) (\<lambda>_ _. True)"
    if some: "\<exists>on. states = all_states on \<and> \<not> on Nfs" for fw listeners states dc iscsi nvmeof published
  proof -
    obtain on where on: "states = all_states on" "\<not> on Nfs" using some by blast
    show ?thesis
      unfolding on(1)
      by (rule triple_conseq [OF triple_firewall [OF init_lets_in]])
        (use on(2) in \<open>auto simp: srv_on_def ruled_def lets_in_def simp del: proto_name.simps\<close>)
  qed
  show ?thesis
    unfolding boot_firewall_def
  proof (rule triple_bind [OF triple_err [OF boot_states_triple [OF assms]]], simp, rule triple_assume)
    fix states
    assume s: "\<exists>on. states = all_states on \<and> \<not> on Nfs"
    show "triple ?T (io_bind (srv_ask (en_dc env)) (\<lambda>dc.
        io_bind (srv_asked (en_portals env)) (\<lambda>(iscsi, nvmeof).
        io_bind (srv_asked (en_published env)) (\<lambda>published.
        io_bind (srv_ask (en_listeners env)) (\<lambda>listeners.
        firewall (init (en_fw env) listeners states False dc (portal_specs 3260 iscsi) (portal_specs 4420 nvmeof) published))))))
        (\<lambda>_. srv_on g (\<lambda>c. ruled c \<and> \<not> admits c (proto_name Nfs))) (\<lambda>_ _. True)"
      using init [OF s] by (auto intro!: triple_bind_keeps io_rules split: prod.split)
  qed
qed

lemma keeps_boot_storage:
  assumes "readable (en_proto env)"
  shows "triple (srv_on g F) (boot_storage env)
    (\<lambda>(quiesced, failures, excluded, safe) w. srv_on g F w \<and> (Nfs \<notin> set excluded \<longleftrightarrow> quiesced \<and> failures = [])) (\<lambda>_ _. True)"
  unfolding boot_storage_def
  by (intro triple_bind_keeps triple_return keeps_protocols keeps_reading [OF assms] io_rules)
    (auto simp: protocol_restore_exclusions_def)

lemma restore_triple:
  assumes "readable (en_proto env)"
  shows "triple (srv_on g F) (protocols (restore_excluding (en_proto env) ex))
    (\<lambda>rs w. \<exists>g'. srv_on g' F w \<and> (\<forall>p. p \<in> set rs \<longrightarrow> p \<noteq> Smart \<longrightarrow> g' p)) (\<lambda>_ _. True)"
proof (rule triple_conseq [OF triple_protocols [OF restore_restoring [OF assms]]])
  fix rs and w :: srv_world
  assume "(\<exists>s. restoring g ex (s, rs) (sw_proto w)) \<and> F (fw_config (sw_fw w))"
  then show "\<exists>g'. srv_on g' F w \<and> (\<forall>p. p \<in> set rs \<longrightarrow> p \<noteq> Smart \<longrightarrow> g' p)"
    by (intro exI [of _ "switch (pr_file (sw_proto w))"]) (auto simp: srv_on_def switched_def restoring_def)
qed auto

lemma reconcile_states_triple:
  "triple (srv_on g ruled) (firewall (set_protocol_states env (all_states on)))
     (\<lambda>_. srv_at g (\<lambda>p. ports_for_protocol p \<noteq> [] \<and> on p)) (\<lambda>_ _. True)"
proof (rule triple_conseq [OF triple_firewall])
  show "triple (holds_config ruled) (set_protocol_states env (all_states on))
      (\<lambda>_. holds_config (lets_in (\<lambda>p. ports_for_protocol p \<noteq> [] \<and> on p))) (\<lambda>_ _. True)"
    unfolding triple_def
  proof (intro allI impI)
    fix w :: fw_world
    assume w: "ruled (fw_config w)"
    obtain r w' where run: "set_protocol_states env (all_states on) w = (r, w')" by fastforce
    show "case fst (set_protocol_states env (all_states on) w) of Inl e \<Rightarrow> True
        | Inr x \<Rightarrow> lets_in (\<lambda>p. ports_for_protocol p \<noteq> [] \<and> on p) (fw_config (snd (set_protocol_states env (all_states on) w)))"
      using states_lets_in [of w env on w'] w run by (cases r) (simp_all add: ruled_def)
  qed
qed (auto simp: srv_on_def)

lemma boot_nvmeof_triple:
  assumes "ported b"
  shows "triple (srv_at g b) (boot_nvmeof env safe)
    (\<lambda>_ w. srv_at g b w \<or> srv_at g (b(Nvmeof := False)) w) (\<lambda>_ _. True)"
proof -
  have close: "triple (srv_at g b) (best_effort (firewall (fw_close (en_fw env) Nvmeof)))
      (\<lambda>_ w. srv_at g b w \<or> srv_at g (b(Nvmeof := False)) w) (\<lambda>_ _. True)"
  proof (rule about_best_effort)
    show "triple (srv_at g b) (firewall (fw_close (en_fw env) Nvmeof))
        (\<lambda>_ w. srv_at g b w \<or> srv_at g (b(Nvmeof := False)) w) (\<lambda>_ w. srv_at g b w \<or> srv_at g (b(Nvmeof := False)) w)"
      using switch_at [OF assms, of "b Nvmeof" Nvmeof g "en_fw env" False] assms
      unfolding fw_close_def fun_upd_triv
      by (auto intro: triple_conseq simp: ported_def)
  qed
  show ?thesis
    unfolding boot_nvmeof_def
    by (intro triple_if triple_case [OF triple_keeps] triple_bind_keeps close triple_return io_rules) auto
qed

lemma keeps_boot_rdma:
  assumes "readable (en_proto env)"
  shows "keeps (srv_at g b) (boot_rdma env safe rs)"
proof -
  have "keeps (holds_config (lets_in b)) (open_rdma fw)" "keeps (holds_config (lets_in b)) (close_rdma fw)" for fw
    using keeps_lets_in [of "FwRdma True" b fw] keeps_lets_in [of "FwRdma False" b fw] by simp_all
  then show ?thesis
    unfolding boot_rdma_def by (intro io_rules keeps_reading assms keeps_firewall)
qed

lemma triple_ex: "(\<And>x. triple (P x) m Q R) \<Longrightarrow> triple (\<lambda>w. \<exists>x. P x w) m Q R"
  unfolding triple_def by blast

lemma triple_prefs: "(\<And>g. triple (srv_on g (\<lambda>_. True)) m Q R) \<Longrightarrow> triple (\<lambda>_. True) m Q R"
  unfolding triple_def srv_on_def switched_def by (metis (full_types))

text \<open>What a successful start establishes.\<close>

definition booted :: "BootReport \<Rightarrow> srv_world \<Rightarrow> bool" where
  "booted r w \<longleftrightarrow>
     (\<exists>g b. srv_at g b w \<and> ported b \<and> (\<forall>p. b p \<longrightarrow> g p) \<and>
        (\<forall>p. b p \<longrightarrow> p \<in> set (br_restored r) \<and> p \<notin> set (br_excluded r)) \<and>
        (\<forall>p. p \<noteq> Nvmeof \<longrightarrow> ports_for_protocol p \<noteq> [] \<longrightarrow> p \<in> set (br_restored r) \<longrightarrow> p \<notin> set (br_excluded r) \<longrightarrow> b p)) \<and>
     (Nfs \<notin> set (br_excluded r) \<longleftrightarrow> br_nfs_quiesced r \<and> br_mount_failures r = [])"

lemma boot_triple:
  assumes r: "readable (en_proto env)"
  shows "triple (\<lambda>_. True) (boot env) booted (\<lambda>_ _. True)"
proof -
  let ?T = "\<lambda>_ _. True"
  have finish: "triple (srv_at g b) (io_bind (boot_rdma env safe rs) (\<lambda>_. io_bind (boot_nvmeof env nv) (\<lambda>_.
      io_return \<lparr>br_nfs_quiesced = q, br_mount_failures = f, br_excluded = ex, br_restored = rs\<rparr>))) booted ?T"
    if n: "Nfs \<notin> set ex \<longleftrightarrow> q \<and> f = []" and b: "b = (\<lambda>p. ports_for_protocol p \<noteq> [] \<and> actual_states ex rs p)"
      and rs: "\<forall>p. p \<in> set rs \<longrightarrow> p \<noteq> Smart \<longrightarrow> g p" for g b safe rs nv q f ex
  proof (rule triple_bind_keeps [OF keeps_boot_rdma [OF r]])
    have p: "ported b" using b by (simp add: ported_def)
    have on: "b p \<longrightarrow> g p" for p using b rs by (cases p) (auto simp: actual_states_def)
    have "booted \<lparr>br_nfs_quiesced = q, br_mount_failures = f, br_excluded = ex, br_restored = rs\<rparr> w"
      if w: "srv_at g b w \<or> srv_at g (b(Nvmeof := False)) w" for w
    proof -
      obtain c where c: "srv_at g c w" "c = b \<or> c = b(Nvmeof := False)" using w by blast
      show ?thesis
        unfolding booted_def
        by (intro conjI exI [of _ g] exI [of _ c])
          (use c p on n b in \<open>auto simp: ported_def actual_states_def split: if_splits\<close>)
    qed
    then show "triple (srv_at g b) (io_bind (boot_nvmeof env nv) (\<lambda>_.
        io_return \<lparr>br_nfs_quiesced = q, br_mount_failures = f, br_excluded = ex, br_restored = rs\<rparr>)) booted ?T"
      by (intro triple_bind [OF boot_nvmeof_triple [OF p]] triple_return)
  qed simp
  have reopen: "triple (srv_on g ruled) (io_bind (firewall (set_protocol_states (en_fw env) (all_states (actual_states ex rs)))) (\<lambda>_.
      io_bind (boot_rdma env safe rs) (\<lambda>_. io_bind (boot_nvmeof env nv) (\<lambda>_.
      io_return \<lparr>br_nfs_quiesced = q, br_mount_failures = f, br_excluded = ex, br_restored = rs\<rparr>)))) booted ?T"
    if "Nfs \<notin> set ex \<longleftrightarrow> q \<and> f = []" "\<forall>p. p \<in> set rs \<longrightarrow> p \<noteq> Smart \<longrightarrow> g p" for g safe rs nv q f ex
    by (rule triple_bind [OF reconcile_states_triple finish [OF that(1) refl that(2)]])
  have restore: "triple (srv_on g ruled) (io_bind (protocols (restore_excluding (en_proto env) ex)) (\<lambda>rs.
      io_bind (firewall (set_protocol_states (en_fw env) (all_states (actual_states ex rs)))) (\<lambda>_.
      io_bind (boot_rdma env safe rs) (\<lambda>_. io_bind (boot_nvmeof env nv) (\<lambda>_.
      io_return \<lparr>br_nfs_quiesced = q, br_mount_failures = f, br_excluded = ex, br_restored = rs\<rparr>))))) booted ?T"
    if "Nfs \<notin> set ex \<longleftrightarrow> q \<and> f = []" for g safe nv q f ex
    by (rule triple_bind [OF restore_triple [OF r]]) (intro triple_ex triple_assume reopen [OF that])
  show ?thesis
    unfolding boot_def
  proof (rule triple_prefs, rule triple_bind)
    show "triple (srv_on g (\<lambda>_. True)) (boot_firewall env) (\<lambda>_. srv_on g ruled) ?T" for g
      by (rule triple_conseq [OF boot_firewall_triple [OF r]]) (auto simp: srv_on_def)
    show "triple (srv_on g ruled) (io_bind (boot_storage env) (\<lambda>(q, f, ex, nv).
        io_bind (protocols (restore_excluding (en_proto env) ex)) (\<lambda>rs.
        io_bind (firewall (set_protocol_states (en_fw env) (all_states (actual_states ex rs)))) (\<lambda>_.
        io_bind (boot_rdma env (q \<and> f = []) rs) (\<lambda>_. io_bind (boot_nvmeof env nv) (\<lambda>_.
        io_return \<lparr>br_nfs_quiesced = q, br_mount_failures = f, br_excluded = ex, br_restored = rs\<rparr>)))))) booted ?T" for g
      by (rule triple_bind [OF keeps_boot_storage [OF r]]) (auto split: prod.split intro!: triple_assume restore)
  qed
qed

section \<open>Properties\<close>

lemma boot_inv:
  assumes "readable (en_proto env)" "boot env w0 = (Inr rep, w)"
  shows "booted rep w" "srv_inv {} w"
proof -
  show b: "booted rep w" using tripleD(1) [OF boot_triple [OF assms(1)] _ assms(2)] by simp
  then obtain g b where "srv_at g b w" "ported b" "\<forall>p. b p \<longrightarrow> g p" unfolding booted_def by blast
  then show "srv_inv {} w" unfolding srv_inv_def by blast
qed

text \<open>
  C6. From the start of the engine on, while the file with the stored preferences can be read,
  whatever requests follow and whatever other calls fail, the firewall lets in only protocols that
  are switched on in those preferences, except those for which an error was returned or logged that
  says a rule may be left open.
\<close>
theorem only_enabled_protocols_let_in:
  assumes "readable (en_proto env)" "boot env w0 = (Inr rep, w)"
    and "run_steps (srv_step env) (w, {}) reqs = (w', suspects)"
    and "admits (fw_config (sw_fw w')) (proto_name p)" "p \<notin> suspects"
  shows "switch (pr_file (sw_proto w')) p"
proof -
  have "srv_inv suspects w'"
    using srv.run_inv [of env "(w, {})" reqs] boot_inv(2) [OF assms(1,2)] assms(1,3) by simp
  then obtain g b where gb: "srv_at g b w'" "ported b" "\<forall>p. b p \<longrightarrow> g p \<or> p \<in> suspects" unfolding srv_inv_def by blast
  then have "b p" using assms(4) by (simp add: srv_on_def lets_in_def)
  then have "g p" "p \<noteq> Smart" using gb(2,3) assms(5) by (auto simp: ported_def)
  then show ?thesis using gb(1) by (simp add: srv_on_def switched_def)
qed

text \<open>
  C7. After a successful start a protocol is let in only when its services were restored from a
  safe state, every restored protocol with ports but NVMe-oF is let in, and NFS is let in only
  when it had been stopped before storage recovery and every file system was mounted.
\<close>
theorem boot_lets_in_what_was_restored:
  assumes "readable (en_proto env)" "boot env w0 = (Inr rep, w)"
  shows "(admits (fw_config (sw_fw w)) (proto_name p) \<longrightarrow> p \<in> set (br_restored rep) - set (br_excluded rep)) \<and>
    (p \<in> set (br_restored rep) - set (br_excluded rep) \<longrightarrow> ports_for_protocol p \<noteq> [] \<longrightarrow> p \<noteq> Nvmeof \<longrightarrow>
       admits (fw_config (sw_fw w)) (proto_name p)) \<and>
    (admits (fw_config (sw_fw w)) (proto_name Nfs) \<longrightarrow> br_nfs_quiesced rep \<and> br_mount_failures rep = [])"
proof -
  obtain g b where b: "srv_at g b w" "\<forall>p. b p \<longrightarrow> p \<in> set (br_restored rep) \<and> p \<notin> set (br_excluded rep)"
      "\<forall>p. p \<noteq> Nvmeof \<longrightarrow> ports_for_protocol p \<noteq> [] \<longrightarrow> p \<in> set (br_restored rep) \<longrightarrow> p \<notin> set (br_excluded rep) \<longrightarrow> b p"
    and n: "Nfs \<notin> set (br_excluded rep) \<longleftrightarrow> br_nfs_quiesced rep \<and> br_mount_failures rep = []"
    using boot_inv(1) [OF assms] unfolding booted_def by blast
  have "admits (fw_config (sw_fw w)) (proto_name q) \<longleftrightarrow> b q" for q using b(1) by (simp add: srv_on_def lets_in_def)
  then show ?thesis using b(2,3) n by blast
qed

lemma infallible_load [total_rules]: "infallible (load_state env)"
proof -
  have "infallible (fresh_state env)" unfolding fresh_state_def Let_def by (intro total_rules)
  moreover from this have "infallible (case f of Absent \<Rightarrow> fresh_state env | Garbage \<Rightarrow> io_return default_protocols
      | Parsed s \<Rightarrow> io_return s)" for f
    by (cases f) (auto intro: total_rules)
  ultimately show ?thesis
    unfolding load_state_def by (intro infallible_bind infallible_if infallible_ask infallible_basic)
qed

lemma misread_resets:
  assumes "pe_unreadable env (sv_calls w)" "\<And>n. pe_files env n = None"
  shows "\<exists>s w'. load_state env w = (Inr s, w') \<and> switched (state_get default_protocols) w'"
proof -
  have "state_get (default_protocols\<lparr>st_smart := False\<rparr>) q = state_get default_protocols q" if "q \<noteq> Smart" for q
    using that by (cases q) simp_all
  then show ?thesis
    using assms
    by (simp add: load_state_def fresh_state_def pr_ask_def save_state_def pr_write_def best_effort_def io_defs
        next_call_def switched_def switch_def Let_def)
qed

lemma misread_list:
  assumes "pe_unreadable env (sv_calls w)" "\<And>n. pe_files env n = None"
  shows "switched (state_get default_protocols) (snd (pr_list env w))"
proof -
  obtain s w1 where w1: "load_state env w = (Inr s, w1)" "switched (state_get default_protocols) w1"
    using misread_resets [where env = env] assms by blast
  have "keeps (switched (state_get default_protocols))
      (io_fold (\<lambda>p acc. io_bind (status_of env p (state_get s p)) (\<lambda>st. io_return (acc @ [st]))) all_protocols [])"
    by (intro keeps_switched keeps_fold io_rules)
  with w1 show ?thesis by (simp add: pr_list_def io_bind_def keeps_def)
qed

text \<open>
  C8. A failure to read the preferences breaks this silently: the mere listing of the protocols
  then stores the defaults over the preferences, reports no error, and a protocol that is off by
  default stays let in by the firewall while its preference is now off.
\<close>
theorem misread_leaves_rules_open:
  assumes "pe_unreadable (en_proto env) (sv_calls (sw_proto w))" "\<And>n. pe_files (en_proto env) n = None"
    and "admits (fw_config (sw_fw w)) (proto_name p)" "p \<notin> {Ssh, Avahi, Smart}"
  shows "\<exists>w'. srv_do env ReqList w = (Inr [], w') \<and> srv_step env (w, A) ReqList = (w', A) \<and>
    admits (fw_config (sw_fw w')) (proto_name p) \<and> \<not> switch (pr_file (sw_proto w')) p"
proof -
  obtain r v where v: "pr_list (en_proto env) (sw_proto w) = (r, v)" by fastforce
  have "infallible (pr_list (en_proto env))"
    unfolding pr_list_def by (intro total_rules infallible_fold)
  then obtain x where r: "r = Inr x" using v by (cases r) (auto simp: infallible_def dest!: spec [of _ "sw_proto w"])
  have s: "switched (state_get default_protocols) v" using misread_list [OF assms(1,2)] v by simp
  have "srv_do env ReqList w = (Inr [], w\<lparr>sw_proto := v\<rparr>)"
    by (simp add: error_of_def protocols_def zoom_def v r io_defs)
  moreover have "\<not> switch (pr_file v) p"
    using s assms(4) unfolding switched_def by (cases p) (auto simp: default_protocols_def)
  ultimately show ?thesis using assms(3) by (simp add: srv_step_def)
qed

section \<open>Witnesses\<close>

definition srv_ex_sd :: systemd where
  "srv_ex_sd = \<lparr>sd_run = (\<lambda>n action u us. if action = ''start'' \<and> u = ''samba-smbd.service'' then (Some ''exit code'', us) else (None, us)),
                sd_wait = (\<lambda>_ us. us), sd_query = (\<lambda>_. None)\<rparr>"

definition srv_ex_proto :: proto_env where
  "srv_ex_proto = \<lparr>pe_wd = wd_ex_env\<lparr>wd_sd := srv_ex_sd\<rparr>, pe_files = (\<lambda>_. None), pe_unreadable = (\<lambda>_. False),
     pe_modprobe = (\<lambda>_. None), pe_vm = (\<lambda>_. False), pe_dc = (\<lambda>_. False), pe_nut = (\<lambda>_. Local), pe_rdma = (\<lambda>_. False)\<rparr>"

definition srv_ex_env :: srv_env where
  "srv_ex_env = \<lparr>en_proto = srv_ex_proto, en_fw = fw_ex_env, en_luns = (\<lambda>_. Inr []), en_managed = (\<lambda>_ _. True),
     en_namespaces = (\<lambda>_. Inr []), en_remap_iscsi = (\<lambda>_. \<lparr>safe_to_restore = True, changed = False\<rparr>),
     en_remap_nvmeof = (\<lambda>_. \<lparr>safe_to_restore = True, changed = False\<rparr>), en_nvmeof_restore = (\<lambda>_. None),
     en_nvmeof_quiesce = (\<lambda>_. None), en_nvmeof_active = (\<lambda>_. False), en_demote = (\<lambda>_. None), en_mounts = (\<lambda>_. []),
     en_dc = (\<lambda>_. False), en_rdma = (\<lambda>_. False), en_portals = (\<lambda>_. Inr ([], [])), en_published = (\<lambda>_. Inr []),
     en_listeners = (\<lambda>_. Absent)\<rparr>"

definition srv_ex_world :: srv_world where
  "srv_ex_world = \<lparr>sw_proto = \<lparr>sv_units = (\<lambda>_. (''loaded'', ''inactive'')), sv_calls = 0, wd_file = Absent, wd_conf = None,
       pr_file = Parsed (default_protocols\<lparr>st_avahi := False, st_smart := False\<rparr>), pr_modules = [], pr_smb_conf = True,
       pr_nut_conf = True, pr_credentials = True, pr_nfs_rdma = False\<rparr>,
     sw_fw = fw_ex_world, sw_calls = 0\<rparr>"

definition srv_ex_reader :: Session where
  "srv_ex_reader = \<lparr>se_token = ''t'', se_username = ''viewer'', se_role = ReadOnly, se_principal = None, se_filesystem = None,
                    se_owner = None, se_created = 0, se_must_change = False, se_ip = None\<rparr>"

lemma srv_ex_readable: "readable (en_proto srv_ex_env)"
  by (simp add: readable_def srv_ex_env_def srv_ex_proto_def)

lemma srv_ex_boot_result:
  "case boot srv_ex_env srv_ex_world of (Inr r, _) \<Rightarrow> br_restored r = [Ssh] \<and> br_excluded r = [] | _ \<Rightarrow> False"
  by code_simp

lemma srv_ex_boot:
  obtains r w where "boot srv_ex_env srv_ex_world = (Inr r, w)" "br_restored r = [Ssh]" "br_excluded r = []"
  using srv_ex_boot_result by (auto split: prod.splits sum.splits)

theorem boot_lets_in_what_was_restored_witness:
  "admits (fw_config (sw_fw (snd (boot srv_ex_env srv_ex_world)))) (proto_name Ssh) \<and>
   \<not> admits (fw_config (sw_fw (snd (boot srv_ex_env srv_ex_world)))) (proto_name Smb)"
proof (rule srv_ex_boot)
  fix r w
  assume b: "boot srv_ex_env srv_ex_world = (Inr r, w)" "br_restored r = [Ssh]" "br_excluded r = []"
  show ?thesis
    using boot_lets_in_what_was_restored [OF srv_ex_readable b(1), of Ssh]
      boot_lets_in_what_was_restored [OF srv_ex_readable b(1), of Smb] b by (simp del: proto_name.simps)
qed

lemma srv_ex_denied: "srv_step srv_ex_env (w, {}) (ReqDisable srv_ex_reader ''ssh'') = (w, {})"
proof -
  have "from_name ''ssh'' = Some Ssh" by code_simp
  then show ?thesis
    by (simp add: srv_step_def service_disable_def require_access_def authorize_session_def srv_ex_reader_def
        protocol_mutation_access_def io_defs error_of_def)
qed

theorem only_enabled_protocols_let_in_witness:
  "switch (pr_file (sw_proto (fst (run_steps (srv_step srv_ex_env) (snd (boot srv_ex_env srv_ex_world), {})
     [ReqDisable srv_ex_reader ''ssh''])))) Ssh"
proof (rule srv_ex_boot)
  fix r w
  assume b: "boot srv_ex_env srv_ex_world = (Inr r, w)" "br_restored r = [Ssh]" "br_excluded r = []"
  have "admits (fw_config (sw_fw w)) (proto_name Ssh)"
    using boot_inv(1) [OF srv_ex_readable b(1)] b(2,3) unfolding booted_def srv_on_def lets_in_def
    by (auto simp del: proto_name.simps)
  then show ?thesis
    using only_enabled_protocols_let_in [OF srv_ex_readable b(1), of "[ReqDisable srv_ex_reader ''ssh'']" w "{}" Ssh] b(1)
    by (simp add: srv_ex_denied del: proto_name.simps)
qed

text \<open>
  Demoting a domain controller starts Samba again. When a unit fails to start, the preference of
  SMB is turned off, the error is only logged, and the rule of SMB stays open.
\<close>

definition srv_ex_dc :: srv_world where
  "srv_ex_dc = \<lparr>sw_proto = (sw_proto srv_ex_world)\<lparr>pr_file := Parsed (default_protocols\<lparr>st_smb := True\<rparr>)\<rparr>,
     sw_fw = fw_ex_world\<lparr>fw_config := fw_default\<lparr>fc_state :=
       [\<lparr>fr_service = ''smb'', fr_ports = ports_for_protocol Smb, fr_active = True\<rparr>,
        \<lparr>fr_service = ''dc'', fr_ports = [], fr_active = False\<rparr>]\<rparr>\<rparr>,
     sw_calls = 0\<rparr>"

lemma demote_leaves_smb_open:
  "case dc_demote srv_ex_env srv_ex_dc of
     (Inr logged, w) \<Rightarrow> logged \<noteq> [] \<and> \<not> switch (pr_file (sw_proto w)) Smb \<and> admits (fw_config (sw_fw w)) ''smb''
   | _ \<Rightarrow> False"
  by code_simp

definition srv_ex_misread :: srv_env where
  "srv_ex_misread = srv_ex_env\<lparr>en_proto := srv_ex_proto\<lparr>pe_unreadable := (\<lambda>n. n = 0)\<rparr>\<rparr>"

theorem misread_leaves_rules_open_witness:
  "switch (pr_file (sw_proto srv_ex_dc)) Smb \<and>
   (\<exists>w'. srv_do srv_ex_misread ReqList srv_ex_dc = (Inr [], w') \<and>
     admits (fw_config (sw_fw w')) (proto_name Smb) \<and> \<not> switch (pr_file (sw_proto w')) Smb)"
proof -
  have "switch (pr_file (sw_proto srv_ex_dc)) Smb" "admits (fw_config (sw_fw srv_ex_dc)) (proto_name Smb)"
    by code_simp+
  then show ?thesis
    using misread_leaves_rules_open [of srv_ex_misread srv_ex_dc Smb]
    by (simp add: srv_ex_misread_def srv_ex_proto_def srv_ex_dc_def srv_ex_world_def) blast
qed

end
