(* ===== verification/Spec2Isabelle.thy ===== *)
theory Spec2Isabelle
  imports Management Network_Txn Webui Boot
begin

text \<open>
  NASty is a NAS appliance. Its engine (Rust, \<open>src/engine/\<close>) is one privileged process that owns the
  network configuration, the firewall, the listeners of the web interface and the services that
  share storage. This development models the parts of it that decide whether the appliance can
  still be reached after a change and what it lets in from the network, and proves what they
  promise.

  \<^bold>\<open>The parts and how they interact.\<close>

  \<^item> The network service (\<open>nasty-system/src/network.rs\<close>) stores a flat configuration, checks it, and
    applies it. A change that may cut the caller off opens a transaction: the previous configuration
    is snapshotted, and is put back unless the change is confirmed in time, also across a restart of
    the engine.
  \<^item> To check and apply, it converts the flat configuration to layers
    (\<open>network/layered.rs\<close>), the layers to NetworkManager profiles (\<open>network/nm.rs\<close>), and brings
    NetworkManager to them over D-Bus (\<open>network/nm/dbus.rs\<close>). The DHCP relay
    (\<open>network/dhcp_relay.rs\<close>) is reconciled after every apply; its rules live in the firewall's table.
  \<^item> The firewall service (\<open>firewall.rs\<close>) keeps the rules of the protocols, restrictions by source and
    interface, and custom rules, renders them to one nft batch and commits it with its files.
  \<^item> The listener service (\<open>webui.rs\<close>) moves the ports of the web interface in Caddy and in the
    firewall together, again confirmed or rolled back.
  \<^item> The protocol service (\<open>protocol.rs\<close>) switches NFS, SMB, SSH and the others on and off through
    systemd, with the watchdog (\<open>watchdog.rs\<close>) as one of them. The router
    (\<open>nasty-engine/src/router/\<close>) and the start of the engine (\<open>nasty-engine/src/main.rs\<close>) combine it
    with the firewall.

  \<^bold>\<open>Theories.\<close> Definitions come first in each, in the order of the code, with the names of the code.

  \<^item> \<open>Prelude\<close>: results and effects. A fallible computation is \<open>'e + 'a\<close>; an effect is a function from
    a world to a result and a world, combined by \<open>io_bind\<close> (the \<open>?\<close> of the source) and \<open>io_case\<close>
    (a \<open>match\<close> on the result). The Hoare triples \<open>triple\<close>, the invariance \<open>keeps\<close> and the totality
    \<open>infallible\<close> have collections of rules; the locale \<open>machine\<close> carries an invariant over every
    sequence of steps. \<open>Rust_Int\<close>, \<open>Net_Std\<close>, \<open>Json\<close>: what the code uses of Rust's integers,
    \<open>std::net\<close> and \<open>serde_json\<close>.
  \<^item> \<open>Network_Types\<close>, \<open>Layered\<close>, \<open>Dhcp_Relay\<close>, \<open>Nm\<close>, \<open>Nm_Dbus\<close>, \<open>Network_Checks\<close>, \<open>Network_Txn\<close>: the
    network service from its data up to its handlers \<open>update\<close>, \<open>confirm\<close>, \<open>rollback_timer\<close>,
    \<open>restore_pending_revert\<close> and the startup passes. The world \<open>net_world\<close> has the stored
    configuration, the snapshot, the transactions and the worlds of NetworkManager and the relay.
    \<open>Management\<close> relates the risk classifier to the profiles.
  \<^item> \<open>Firewall_Rules\<close>, \<open>Firewall\<close>, \<open>Exposure\<close>: rules and rendering, the operations with their commit,
    and which operations change what is let in. The world \<open>fw_world\<close> has memory, files and table.
  \<^item> \<open>Webui_Listeners\<close>, \<open>Webui\<close>: the listener service, over any firewall that meets the locale
    \<open>listener_firewall\<close>, which is interpreted by the firewall service.
  \<^item> \<open>Protocols\<close>, \<open>Systemd\<close>, \<open>Watchdog_Config\<close>, \<open>Watchdog\<close>, \<open>Protocol_Service\<close>: the protocol service.
    \<open>Access\<close>, \<open>Services\<close>, \<open>Boot\<close>: the role gate, the requests that switch protocols, and the start.

  \<^bold>\<open>What is shown.\<close>

  \<^item> Network transaction (\<open>Network_Txn\<close>): every execution, with any failures, is one of an abstract
    confirm-or-rollback protocol with the same labelled events; the stored configuration and the
    snapshot always pass the validator; an unconfirmed change does not stay and a confirmed one does;
    the timer restores the previous configuration down to the profiles NetworkManager holds.
  \<^item> Conversion (\<open>Layered\<close>, \<open>Nm\<close>): the validator accepts exactly the sound configurations; the layered
    form converts back; each link has one profile with exactly its settings; the settings are well
    typed for D-Bus. \<open>Nm_Dbus\<close>: an apply converges, leaves other connections alone and does what the
    preview lists.
  \<^item> Classifier (\<open>Network_Checks\<close>, \<open>Management\<close>): a change that is not flagged keeps the profile of a
    plain management interface, and changes to a bridge's own settings are not flagged.
  \<^item> Relay (\<open>Dhcp_Relay\<close>): guest subnets are disjoint, a success deploys what was rendered, and a failure
    closes.
  \<^item> Firewall (\<open>Firewall\<close>): the table is the rendered configuration and restrictions are always in it;
    operations are atomic; nothing a user enters adds a line to the batch.
  \<^item> Listeners (\<open>Webui\<close>): firewall and Caddy follow the change or the confirmed ports, an expired change
    is undone, and the rest of Caddy's configuration is kept.
  \<^item> Protocols (\<open>Services\<close>, \<open>Boot\<close>): only protocols that are switched on are let in, from the start on,
    but for those an error names. \<open>Watchdog\<close>: updates are atomic; the bounds of the page count.

  Some theorems show flaws of the code rather than its correctness: an update that fails locks out
  later ones, a restart of Caddy during a change separates Caddy from the firewall, a failed read of
  the preferences leaves rules open, the MTU of a macvlan has no effect, readdressing the management
  bridge is not flagged.

  \<^bold>\<open>Parameters and assumptions.\<close> The kernel, NetworkManager, systemd, nft, Caddy, the disk and the clock
  are not in the repository. Each is a component of the world or an oracle in an environment record
  that gives the outcome of every call, so that a theorem without an assumption on it holds for all
  failures at all points. Assumptions stand in the statements:

  \<^item> \<open>fw_env_ok\<close>: an nft call that reports an error has changed nothing, ids are fresh and of one line.
    nft promises this for its own errors; the ten-second limit of \<open>run_nft\<close> can break it.
  \<^item> \<open>readable\<close>: the file of the preferences can be read. \<open>stat_out\<close>, \<open>read_out\<close>: the look at the snapshot
    file and the read of the network configuration succeed. The code takes their failure for absence.
  \<^item> \<open>edits_ok\<close>: other clients of Caddy leave its listeners alone. \<open>undisturbed\<close>: no restart of Caddy falls
    into a pending change, and each restores the listeners.
  \<^item> \<open>all_ok\<close>, \<open>env_ok\<close>, \<open>steady\<close>, \<open>keeps_ids\<close>, \<open>fresh_paths\<close>: for the theorems that say what a run
    without failures achieves.

  Handlers hold the lock of their service, so an execution is a sequence of whole handlers; what other
  processes do between two calls of a handler is modelled only for Caddy. The phases of the start are
  taken to end without their time limits.

  \<^bold>\<open>Bounds.\<close> Machine integers are words of their width. Loops of the code are structural recursions.
  The cycle search of \<open>layered.rs\<close> recurses along references; its model takes fuel of one more than the
  number of links, which is shown to suffice. \<open>apply_caddy\<close> has the four rounds of the source. The wait for
  the relay's interfaces takes the list of what each probe sees.

  \<^bold>\<open>Not modelled.\<close> Storage, snapshots, sharing back ends, virtual machines, applications, backups,
  metrics and updates: they mostly run external tools and read their output. Authentication beyond roles
  and sessions, guest shares, settings and alerts. Reading live interfaces from sysfs and \<open>ip\<close>. The HTTP
  and WebSocket front end.
\<close>

end
